(* ===== verification/Prelude.thy ===== *)
theory Prelude
  imports Main
begin

text \<open>
  Shared vocabulary of the development: the outcome of running a piece of C++ (normal
  return, exception, process exit, undefined behaviour, no return), programs over an explicit
  state, the sequencing and exception-handling combinators the translations are written with,
  and the collection \<open>keeps_intros\<close> of rules that show that a program preserves a
  state predicate by following its structure.  Output to the log (the \<open>MyLogger\<close>
  classes under \<open>src/CODE/src\<close>) is not part of the state: no code reads it back.
\<close>

section \<open>Outcomes of running code\<close>

text \<open>
  The exceptions the sources throw or catch.  All of them derive from
  \<open>std::exception\<close>; the handlers of the program catch either that class or the
  JSON library's parse error.
\<close>

datatype exn =
    Json_parse_error
  | Json_type_error
  | Invalid_argument
  | Out_of_range
  | Runtime_error string
  | Library_error string

text \<open>
  \<open>Exit\<close> is a call of \<open>exit\<close>; \<open>Undef\<close> is behaviour the C++
  standard leaves undefined at that point (a read of an indeterminate value, a division by
  zero, signed overflow, a missing key through a constant subscript); \<open>Diverge\<close> is a loop that
  does not end.
\<close>

datatype ('a, 's) outcome =
    Ret 'a 's
  | Throw exn 's
  | Exit nat
  | Undef
  | Diverge

type_synonym ('s, 'a) prog = "'s \<Rightarrow> ('a, 's) outcome"

section \<open>Combinators\<close>

definition ret :: "'a \<Rightarrow> ('s, 'a) prog" where
  "ret a = (\<lambda>s. Ret a s)"

definition throw :: "exn \<Rightarrow> ('s, 'a) prog" where
  "throw e = (\<lambda>s. Throw e s)"

definition exit_with :: "nat \<Rightarrow> ('s, 'a) prog" where
  "exit_with n = (\<lambda>s. Exit n)"

definition undef :: "('s, 'a) prog" where
  "undef = (\<lambda>s. Undef)"

definition gets :: "('s \<Rightarrow> 'a) \<Rightarrow> ('s, 'a) prog" where
  "gets f = (\<lambda>s. Ret (f s) s)"

definition modify :: "('s \<Rightarrow> 's) \<Rightarrow> ('s, unit) prog" where
  "modify g = (\<lambda>s. Ret () (g s))"

text \<open>A call of code outside the model, which reads and changes the state it is given.\<close>

definition call :: "('s \<Rightarrow> 'a \<times> 's) \<Rightarrow> ('s, 'a) prog" where
  "call f = (\<lambda>s. case f s of (a, t) \<Rightarrow> Ret a t)"

definition bind :: "('s, 'a) prog \<Rightarrow> ('a \<Rightarrow> ('s, 'b) prog) \<Rightarrow> ('s, 'b) prog" where
  "bind m f = (\<lambda>s. case m s of
       Ret a t \<Rightarrow> f a t
     | Throw e t \<Rightarrow> Throw e t
     | Exit n \<Rightarrow> Exit n
     | Undef \<Rightarrow> Undef
     | Diverge \<Rightarrow> Diverge)"

definition seq :: "('s, unit) prog \<Rightarrow> ('s, 'b) prog \<Rightarrow> ('s, 'b) prog" where
  "seq m n = bind m (\<lambda>_. n)"

text \<open>A call whose result is not used.\<close>

definition ignore :: "('s, 'a) prog \<Rightarrow> ('s, unit) prog" where
  "ignore m = bind m (\<lambda>_. ret ())"

text \<open>\<open>try { m } catch (const std::exception \&e) { h e }\<close>\<close>

definition try_catch :: "('s, 'a) prog \<Rightarrow> (exn \<Rightarrow> ('s, 'a) prog) \<Rightarrow> ('s, 'a) prog" where
  "try_catch m h = (\<lambda>s. case m s of
       Ret a t \<Rightarrow> Ret a t
     | Throw e t \<Rightarrow> h e t
     | Exit n \<Rightarrow> Exit n
     | Undef \<Rightarrow> Undef
     | Diverge \<Rightarrow> Diverge)"

text \<open>A pure computation that may throw.\<close>

definition lift_exn :: "exn + 'a \<Rightarrow> ('s, 'a) prog" where
  "lift_exn r = (case r of Inl e \<Rightarrow> throw e | Inr a \<Rightarrow> ret a)"

text \<open>\<open>for (x : xs) f(x);\<close>\<close>

primrec for_each :: "'a list \<Rightarrow> ('a \<Rightarrow> ('s, unit) prog) \<Rightarrow> ('s, unit) prog" where
  "for_each [] f = ret ()"
| "for_each (x # xs) f = seq (f x) (for_each xs f)"

text \<open>Running a program on a part of the state.\<close>

definition zoom :: "('s \<Rightarrow> 't) \<Rightarrow> ('t \<Rightarrow> 's \<Rightarrow> 's) \<Rightarrow> ('t, 'a) prog \<Rightarrow> ('s, 'a) prog" where
  "zoom rd wr m = (\<lambda>s. case m (rd s) of
       Ret a t \<Rightarrow> Ret a (wr t s)
     | Throw e t \<Rightarrow> Throw e (wr t s)
     | Exit n \<Rightarrow> Exit n
     | Undef \<Rightarrow> Undef
     | Diverge \<Rightarrow> Diverge)"

lemma ret_apply [simp]: "ret a s = Ret a s"
  by (simp add: ret_def)

lemma throw_apply [simp]: "throw e s = Throw e s"
  by (simp add: throw_def)

lemma exit_with_apply [simp]: "exit_with n s = Exit n"
  by (simp add: exit_with_def)

lemma undef_apply [simp]: "undef s = Undef"
  by (simp add: undef_def)

lemma gets_apply [simp]: "gets f s = Ret (f s) s"
  by (simp add: gets_def)

lemma modify_apply [simp]: "modify g s = Ret () (g s)"
  by (simp add: modify_def)

lemma call_apply [simp]: "call f s = (case f s of (a, t) \<Rightarrow> Ret a t)"
  by (simp add: call_def)

lemma bind_apply [simp]:
  "bind m f s = (case m s of
       Ret a t \<Rightarrow> f a t | Throw e t \<Rightarrow> Throw e t | Exit n \<Rightarrow> Exit n
     | Undef \<Rightarrow> Undef | Diverge \<Rightarrow> Diverge)"
  by (simp add: bind_def)

lemma seq_apply [simp]:
  "seq m n s = (case m s of
       Ret a t \<Rightarrow> n t | Throw e t \<Rightarrow> Throw e t | Exit k \<Rightarrow> Exit k
     | Undef \<Rightarrow> Undef | Diverge \<Rightarrow> Diverge)"
  by (simp add: seq_def)

lemma try_catch_apply [simp]:
  "try_catch m h s = (case m s of
       Ret a t \<Rightarrow> Ret a t | Throw e t \<Rightarrow> h e t | Exit n \<Rightarrow> Exit n
     | Undef \<Rightarrow> Undef | Diverge \<Rightarrow> Diverge)"
  by (simp add: try_catch_def)

lemma ignore_apply [simp]:
  "ignore m s = (case m s of
       Ret a t \<Rightarrow> Ret () t | Throw e t \<Rightarrow> Throw e t | Exit n \<Rightarrow> Exit n
     | Undef \<Rightarrow> Undef | Diverge \<Rightarrow> Diverge)"
  by (simp add: ignore_def split: outcome.split)

lemma lift_exn_simps [simp]:
  "lift_exn (Inl e) s = Throw e s" "lift_exn (Inr a) s = Ret a s"
  by (simp_all add: lift_exn_def)

lemma zoom_apply [simp]:
  "zoom rd wr m s = (case m (rd s) of
       Ret a t \<Rightarrow> Ret a (wr t s) | Throw e t \<Rightarrow> Throw e (wr t s) | Exit n \<Rightarrow> Exit n
     | Undef \<Rightarrow> Undef | Diverge \<Rightarrow> Diverge)"
  by (simp add: zoom_def)

section \<open>Preservation of a state predicate\<close>

text \<open>The states an outcome hands on: the state after a return or at a throw.\<close>

definition outcome_all :: "('s \<Rightarrow> bool) \<Rightarrow> ('a, 's) outcome \<Rightarrow> bool" where
  "outcome_all P r = (case r of Ret a t \<Rightarrow> P t | Throw e t \<Rightarrow> P t | _ \<Rightarrow> True)"

definition keeps :: "('s \<Rightarrow> bool) \<Rightarrow> ('s, 'a) prog \<Rightarrow> bool" where
  "keeps P m \<longleftrightarrow> (\<forall>s. P s \<longrightarrow> outcome_all P (m s))"

named_theorems keeps_intros "rules that a program preserves a state predicate"

lemma outcome_all_simps [simp]:
  "outcome_all P (Ret a t) = P t"
  "outcome_all P (Throw e t) = P t"
  "outcome_all P (Exit n)"
  "outcome_all P Undef"
  "outcome_all P Diverge"
  by (simp_all add: outcome_all_def)

lemma keepsI: "(\<And>s. P s \<Longrightarrow> outcome_all P (m s)) \<Longrightarrow> keeps P m"
  by (simp add: keeps_def)

lemma keepsD: "keeps P m \<Longrightarrow> P s \<Longrightarrow> outcome_all P (m s)"
  by (simp add: keeps_def)

lemma keeps_RetD: "keeps P m \<Longrightarrow> P s \<Longrightarrow> m s = Ret a t \<Longrightarrow> P t"
  by (drule (1) keepsD) simp

lemma keeps_ret [keeps_intros]: "keeps P (ret a)"
  by (simp add: keeps_def)

lemma keeps_throw [keeps_intros]: "keeps P (throw e)"
  by (simp add: keeps_def)

lemma keeps_exit [keeps_intros]: "keeps P (exit_with n)"
  by (simp add: keeps_def)

lemma keeps_undef [keeps_intros]: "keeps P undef"
  by (simp add: keeps_def)

lemma keeps_gets [keeps_intros]: "keeps P (gets f)"
  by (simp add: keeps_def)

lemma keeps_modify [keeps_intros]: "(\<And>s. P s \<Longrightarrow> P (g s)) \<Longrightarrow> keeps P (modify g)"
  by (simp add: keeps_def)

lemma keeps_bind [keeps_intros]:
  assumes "keeps P m" and "\<And>a. keeps P (f a)"
  shows "keeps P (bind m f)"
proof (rule keepsI)
  fix s assume "P s"
  with assms(1) have "outcome_all P (m s)" by (rule keepsD)
  with assms(2) show "outcome_all P (bind m f s)"
    by (cases "m s") (auto simp: keeps_def)
qed

lemma keeps_seq [keeps_intros]: "keeps P m \<Longrightarrow> keeps P n \<Longrightarrow> keeps P (seq m n)"
  by (simp add: seq_def keeps_bind)

lemma keeps_ignore [keeps_intros]: "keeps P m \<Longrightarrow> keeps P (ignore m)"
  by (simp add: ignore_def keeps_bind keeps_ret)

lemma keeps_try_catch [keeps_intros]:
  assumes "keeps P m" and "\<And>e. keeps P (h e)"
  shows "keeps P (try_catch m h)"
proof (rule keepsI)
  fix s assume "P s"
  with assms(1) have "outcome_all P (m s)" by (rule keepsD)
  with assms(2) show "outcome_all P (try_catch m h s)"
    by (cases "m s") (auto simp: keeps_def)
qed

lemma keeps_lift_exn [keeps_intros]: "keeps P (lift_exn r)"
  by (cases r) (simp_all add: keeps_def)

lemma keeps_if [keeps_intros]: "keeps P m \<Longrightarrow> keeps P n \<Longrightarrow> keeps P (if b then m else n)"
  by simp

lemma keeps_case_option [keeps_intros]:
  "keeps P m \<Longrightarrow> (\<And>a. keeps P (f a)) \<Longrightarrow> keeps P (case x of None \<Rightarrow> m | Some a \<Rightarrow> f a)"
  by (cases x) simp_all

lemma keeps_case_sum [keeps_intros]:
  "(\<And>a. keeps P (f a)) \<Longrightarrow> (\<And>b. keeps P (g b)) \<Longrightarrow>
     keeps P (case x of Inl a \<Rightarrow> f a | Inr b \<Rightarrow> g b)"
  by (cases x) simp_all

lemma keeps_case_prod [keeps_intros]:
  "(\<And>a b. keeps P (f a b)) \<Longrightarrow> keeps P (case x of (a, b) \<Rightarrow> f a b)"
  by (cases x) simp

lemma keeps_Let [keeps_intros]: "(\<And>a. keeps P (f a)) \<Longrightarrow> keeps P (Let x f)"
  by simp

lemma keeps_for_each [keeps_intros]:
  "(\<And>x. x \<in> set xs \<Longrightarrow> keeps P (f x)) \<Longrightarrow> keeps P (for_each xs f)"
  by (induction xs) (auto intro!: keeps_intros)

lemma keeps_zoom:
  assumes "\<And>s. P s \<Longrightarrow> Q (rd s)" and "\<And>s t. P s \<Longrightarrow> Q t \<Longrightarrow> P (wr t s)" and "keeps Q m"
  shows "keeps P (zoom rd wr m)"
proof (rule keepsI)
  fix s assume "P s"
  with assms(1,3) have "outcome_all Q (m (rd s))" by (auto dest: keepsD)
  with assms(2) \<open>P s\<close> show "outcome_all P (zoom rd wr m s)"
    by (cases "m (rd s)") auto
qed

text \<open>A program on a part of the state preserves what only depends on the rest.\<close>

lemma keeps_zoom_frame [keeps_intros]:
  assumes "\<And>s t. P s \<Longrightarrow> P (wr t s)"
  shows "keeps P (zoom rd wr m)"
  by (rule keepsI) (auto simp: assms split: outcome.split)

section \<open>Programs that always hand on a good state\<close>

text \<open>
  The total version of \<open>keeps\<close>: from every good state the program returns or throws, and the
  state it hands on is good.  It does not exit, diverge or run into undefined behaviour.
\<close>

definition answers :: "('s \<Rightarrow> bool) \<Rightarrow> ('s, 'a) prog \<Rightarrow> bool" where
  "answers P m \<longleftrightarrow>
     (\<forall>s. P s \<longrightarrow> (\<exists>a t. m s = Ret a t \<and> P t) \<or> (\<exists>e t. m s = Throw e t \<and> P t))"

named_theorems answers_intros "rules that a program returns or throws in a good state"

lemma answersI:
  assumes "\<And>s. P s \<Longrightarrow> (\<exists>a t. m s = Ret a t \<and> P t) \<or> (\<exists>e t. m s = Throw e t \<and> P t)"
  shows "answers P m"
  using assms by (simp add: answers_def)

lemma answersE:
  assumes "answers P m" and "P s"
  obtains (Ret) a t where "m s = Ret a t" and "P t" | (Throw) e t where "m s = Throw e t" and "P t"
  using assms by (auto simp: answers_def)

lemma answers_keeps: "answers P m \<Longrightarrow> keeps P m"
  by (rule keepsI) (auto elim: answersE)

lemma answers_ret [answers_intros]: "answers P (ret a)"
  by (simp add: answers_def)

lemma answers_throw [answers_intros]: "answers P (throw e)"
  by (simp add: answers_def)

lemma answers_gets [answers_intros]: "answers P (gets f)"
  by (simp add: answers_def)

lemma answers_modify [answers_intros]: "(\<And>s. P s \<Longrightarrow> P (g s)) \<Longrightarrow> answers P (modify g)"
  by (simp add: answers_def)

lemma answers_bind [answers_intros]:
  assumes "answers P m" and "\<And>a. answers P (f a)"
  shows "answers P (bind m f)"
proof (rule answersI)
  fix s assume "P s"
  with assms(1) show "(\<exists>a t. bind m f s = Ret a t \<and> P t) \<or> (\<exists>e t. bind m f s = Throw e t \<and> P t)"
    by (cases rule: answersE) (use assms(2) in \<open>auto simp: answers_def\<close>)
qed

lemma answers_seq [answers_intros]: "answers P m \<Longrightarrow> answers P n \<Longrightarrow> answers P (seq m n)"
  by (simp add: seq_def answers_bind)

lemma answers_ignore [answers_intros]: "answers P m \<Longrightarrow> answers P (ignore m)"
  by (simp add: ignore_def answers_bind answers_ret)

lemma answers_try_catch [answers_intros]:
  assumes "answers P m" and "\<And>e. answers P (h e)"
  shows "answers P (try_catch m h)"
proof (rule answersI)
  fix s assume "P s"
  with assms(1) show
    "(\<exists>a t. try_catch m h s = Ret a t \<and> P t) \<or> (\<exists>e t. try_catch m h s = Throw e t \<and> P t)"
    by (cases rule: answersE) (use assms(2) in \<open>auto simp: answers_def\<close>)
qed

lemma answers_lift_exn [answers_intros]: "answers P (lift_exn r)"
  by (cases r) (simp_all add: answers_def)

lemma answers_if [answers_intros]:
  "(b \<Longrightarrow> answers P m) \<Longrightarrow> (\<not> b \<Longrightarrow> answers P n) \<Longrightarrow> answers P (if b then m else n)"
  by simp

lemma answers_case_option [answers_intros]:
  "answers P m \<Longrightarrow> (\<And>a. x = Some a \<Longrightarrow> answers P (f a)) \<Longrightarrow>
     answers P (case x of None \<Rightarrow> m | Some a \<Rightarrow> f a)"
  by (cases x) simp_all

lemma answers_case_sum [answers_intros]:
  "(\<And>a. answers P (f a)) \<Longrightarrow> (\<And>b. answers P (g b)) \<Longrightarrow>
     answers P (case x of Inl a \<Rightarrow> f a | Inr b \<Rightarrow> g b)"
  by (cases x) simp_all

lemma answers_Let [answers_intros]: "(\<And>a. answers P (f a)) \<Longrightarrow> answers P (Let x f)"
  by simp

lemma answers_for_each [answers_intros]:
  "(\<And>x. x \<in> set xs \<Longrightarrow> answers P (f x)) \<Longrightarrow> answers P (for_each xs f)"
  by (induction xs) (auto intro!: answers_intros)

section \<open>Generic lemmas on lists\<close>

lemma removeAll_filter_eq: "removeAll x xs = filter (\<lambda>y. y \<noteq> x) xs"
  by (induction xs) auto

lemma sum_list_remove1_add:
  "x \<in> set xs \<Longrightarrow> f x + sum_list (map f (remove1 x xs)) = (sum_list (map f xs) :: nat)"
  by (induction xs) auto

lemma for_each_append:
  "for_each (xs @ ys) f s = seq (for_each xs f) (for_each ys f) s"
  by (induction xs arbitrary: s) (auto split: outcome.split)

end
