(* ===== verification/Cxx_Strings.thy ===== *)
theory Cxx_Strings
  imports Prelude "HOL-Library.Sublist"
begin

text \<open>
  The operations of \<open>std::string\<close>, \<open>std::to_string\<close>,
  \<open>std::stoi\<close> and \<open>std::filesystem::path\<close> the sources use, on byte
  strings, with the facts the components share about them.
\<close>

section \<open>Searching and cutting\<close>

text \<open>\<open>s.find_last_of(c)\<close>; \<open>None\<close> is \<open>npos\<close>.\<close>

fun find_last_of :: "char \<Rightarrow> string \<Rightarrow> nat option" where
  "find_last_of c [] = None"
| "find_last_of c (x # xs) =
     (case find_last_of c xs of
        Some i \<Rightarrow> Some (Suc i)
      | None \<Rightarrow> if x = c then Some 0 else None)"

text \<open>\<open>s.find(p)\<close> and \<open>s.rfind(p)\<close> for a substring \<open>p\<close>.\<close>

fun find_sub :: "string \<Rightarrow> string \<Rightarrow> nat option" where
  "find_sub p [] = (if p = [] then Some 0 else None)"
| "find_sub p (x # xs) =
     (if prefix p (x # xs) then Some 0 else map_option Suc (find_sub p xs))"

fun rfind_sub :: "string \<Rightarrow> string \<Rightarrow> nat option" where
  "rfind_sub p [] = (if p = [] then Some 0 else None)"
| "rfind_sub p (x # xs) =
     (case rfind_sub p xs of
        Some i \<Rightarrow> Some (Suc i)
      | None \<Rightarrow> if prefix p (x # xs) then Some 0 else None)"

lemma find_last_of_None_iff: "find_last_of c s = None \<longleftrightarrow> c \<notin> set s"
proof (induction s)
  case (Cons x s)
  then show ?case by (cases "find_last_of c s") auto
qed simp

lemma find_last_of_None [simp]: "c \<notin> set s \<Longrightarrow> find_last_of c s = None"
  by (simp add: find_last_of_None_iff)

lemma find_last_of_SomeD:
  "find_last_of c s = Some i \<Longrightarrow>
     i < length s \<and> s = take i s @ c # drop (Suc i) s \<and> c \<notin> set (drop (Suc i) s)"
  by (induction s arbitrary: i) (auto simp: find_last_of_None_iff split: option.splits if_splits)

lemma find_last_of_append:
  "c \<notin> set ys \<Longrightarrow> find_last_of c (xs @ c # ys) = Some (length xs)"
  by (induction xs) simp_all

lemma find_sub_Some_prefix:
  "find_sub p s = Some i \<Longrightarrow> i \<le> length s \<and> prefix p (drop i s)"
  by (induction s arbitrary: i) (auto split: if_splits)

lemma rfind_sub_Some_prefix:
  "rfind_sub p s = Some i \<Longrightarrow> i \<le> length s \<and> prefix p (drop i s)"
  by (induction s arbitrary: i) (auto split: if_splits option.splits)

lemma rfind_sub_None_iff: "rfind_sub p s = None \<longleftrightarrow> \<not> sublist p s"
  by (induction s) (auto split: option.splits simp: sublist_Cons_right)

lemma rfind_sub_suffix:
  "p \<noteq> [] \<Longrightarrow> rfind_sub p (s @ p) = Some (length s)"
proof (induction s)
  case Nil
  then obtain x xs where p: "p = x # xs" by (cases p) auto
  have "\<not> sublist p xs" using p by (auto dest: sublist_length_le)
  then have "rfind_sub p xs = None" by (simp add: rfind_sub_None_iff)
  with p show ?case by simp
next
  case (Cons x s)
  then show ?case by (cases p) auto
qed

text \<open>The part of a key before its last slash, as the metadata code computes it.\<close>

definition parent_of :: "string \<Rightarrow> string option" where
  "parent_of key = map_option (\<lambda>i. take i key) (find_last_of CHR ''/'' key)"

lemma parent_of_Some:
  "parent_of key = Some d \<longleftrightarrow> (\<exists>name. key = d @ CHR ''/'' # name \<and> CHR ''/'' \<notin> set name)"
proof
  assume "parent_of key = Some d"
  then obtain i where i: "find_last_of CHR ''/'' key = Some i" and d: "d = take i key"
    by (auto simp: parent_of_def)
  from find_last_of_SomeD [OF i] d show "\<exists>name. key = d @ CHR ''/'' # name \<and> CHR ''/'' \<notin> set name"
    by blast
next
  assume "\<exists>name. key = d @ CHR ''/'' # name \<and> CHR ''/'' \<notin> set name"
  then show "parent_of key = Some d"
    by (auto simp: parent_of_def find_last_of_append)
qed

lemma parent_of_None: "parent_of key = None \<longleftrightarrow> CHR ''/'' \<notin> set key"
  by (simp add: parent_of_def find_last_of_None_iff)

lemma parent_of_shorter: "parent_of key = Some d \<Longrightarrow> length d < length key"
  by (auto simp: parent_of_Some)

lemma parent_of_neq: "parent_of key = Some d \<Longrightarrow> d \<noteq> key"
  by (drule parent_of_shorter) auto

section \<open>Decimal numbers\<close>

fun digits_of :: "nat \<Rightarrow> string" where
  "digits_of n = (if n < 10 then [char_of (48 + n)]
                  else digits_of (n div 10) @ [char_of (48 + n mod 10)])"

declare digits_of.simps [simp del]

text \<open>\<open>std::to_string\<close>\<close>

definition to_string :: "int \<Rightarrow> string" where
  "to_string i = (if i < 0 then CHR ''-'' # digits_of (nat (- i)) else digits_of (nat i))"

definition is_digit :: "char \<Rightarrow> bool" where
  "is_digit c \<longleftrightarrow> 48 \<le> (of_char c :: nat) \<and> (of_char c :: nat) \<le> 57"

definition is_space :: "char \<Rightarrow> bool" where
  "is_space c \<longleftrightarrow> (of_char c :: nat) \<in> {9, 10, 11, 12, 13, 32}"

definition digits_value :: "string \<Rightarrow> nat" where
  "digits_value ds = foldl (\<lambda>n c. 10 * n + (of_char c - 48)) 0 ds"

definition int_min :: int where "int_min = - (2 ^ 31)"
definition int_max :: int where "int_max = 2 ^ 31 - 1"

text \<open>Conversion of an integer to \<open>int\<close>.\<close>

definition wrap_int :: "int \<Rightarrow> int" where
  "wrap_int i = (i + 2 ^ 31) mod 2 ^ 32 - 2 ^ 31"

text \<open>
  \<open>std::stoi\<close>: white space, an optional sign, then the longest run of digits; no digit
  is \<open>invalid_argument\<close>, a value outside \<open>int\<close> is \<open>out_of_range\<close>;
  what follows the digits is ignored.
\<close>

definition stoi :: "string \<Rightarrow> exn + int" where
  "stoi s =
     (let t = dropWhile is_space s;
          neg = (t \<noteq> [] \<and> hd t = CHR ''-'');
          u = (if t \<noteq> [] \<and> (hd t = CHR ''-'' \<or> hd t = CHR ''+'') then tl t else t);
          ds = takeWhile is_digit u;
          v = (if neg then - int (digits_value ds) else int (digits_value ds))
      in if ds = [] then Inl Invalid_argument
         else if v < int_min \<or> int_max < v then Inl Out_of_range
         else Inr v)"

lemma is_digit_char_of: "d < 10 \<Longrightarrow> is_digit (char_of (48 + d :: nat))"
  by (simp add: is_digit_def)

lemma digits_of_digits: "\<forall>c \<in> set (digits_of n). is_digit c"
proof (induction n rule: digits_of.induct)
  case (1 n)
  then show ?case
    by (subst digits_of.simps) (auto simp: is_digit_char_of)
qed

lemma digits_of_not_Nil [simp]: "digits_of n \<noteq> []"
  by (subst digits_of.simps) simp

lemma digits_value_digits_of [simp]: "digits_value (digits_of n) = n"
proof (induction n rule: digits_of.induct)
  case (1 n)
  show ?case
  proof (cases "n < 10")
    case True
    then show ?thesis by (subst digits_of.simps) (simp add: digits_value_def)
  next
    case False
    with 1 have "digits_value (digits_of (n div 10)) = n div 10" by simp
    with False show ?thesis
      by (subst digits_of.simps) (simp add: digits_value_def)
  qed
qed

lemma not_space_digit: "is_digit c \<Longrightarrow> \<not> is_space c"
  by (auto simp: is_digit_def is_space_def)

lemma not_sign_digit: "is_digit c \<Longrightarrow> c \<noteq> CHR ''-'' \<and> c \<noteq> CHR ''+''"
  by (auto simp: is_digit_def)

lemma takeWhile_all: "\<forall>x \<in> set xs. P x \<Longrightarrow> takeWhile P xs = xs"
  by (induction xs) auto

lemma stoi_digits:
  "int n \<le> int_max \<Longrightarrow> stoi (digits_of n) = Inr (int n)"
proof -
  assume n: "int n \<le> int_max"
  obtain c cs where ds: "digits_of n = c # cs" by (cases "digits_of n") auto
  from digits_of_digits [of n] ds have c: "is_digit c" and all: "\<forall>x \<in> set (c # cs). is_digit x"
    by auto
  have "digits_value (c # cs) = n" using digits_value_digits_of [of n] ds by simp
  then show ?thesis
    using n c all ds not_space_digit [OF c] not_sign_digit [OF c]
    by (simp add: stoi_def Let_def int_min_def takeWhile_all)
qed

lemma stoi_minus_digits:
  "n \<le> 2 ^ 31 \<Longrightarrow> stoi (CHR ''-'' # digits_of n) = Inr (- int n)"
proof -
  assume n: "n \<le> 2 ^ 31"
  have m: "\<not> is_space CHR ''-''" by (simp add: is_space_def)
  have all: "takeWhile is_digit (digits_of n) = digits_of n"
    using digits_of_digits [of n] by (simp add: takeWhile_eq_all_conv)
  from n have n': "int n \<le> 2 ^ 31" by (simp add: nat_le_iff)
  show ?thesis using n' by (simp add: stoi_def Let_def m all int_min_def int_max_def)
qed

lemma stoi_to_string:
  assumes "int_min \<le> i" and "i \<le> int_max"
  shows "stoi (to_string i) = Inr i"
proof (cases "i < 0")
  case True
  then have "nat (- i) \<le> 2 ^ 31" using assms(1) by (simp add: int_min_def)
  then have "stoi (CHR ''-'' # digits_of (nat (- i))) = Inr (- int (nat (- i)))"
    by (rule stoi_minus_digits)
  with True show ?thesis by (simp add: to_string_def)
next
  case False
  with assms(2) stoi_digits [of "nat i"] have "stoi (digits_of (nat i)) = Inr i" by simp
  with False show ?thesis by (simp add: to_string_def)
qed

section \<open>Paths\<close>

text \<open>\<open>path::filename\<close>: what follows the last separator.\<close>

definition path_filename :: "string \<Rightarrow> string" where
  "path_filename p =
     (case find_last_of CHR ''/'' p of None \<Rightarrow> p | Some i \<Rightarrow> drop (Suc i) p)"

text \<open>
  \<open>path::extension\<close>: the file name from its last dot on; empty without a dot, for the
  names \<open>.\<close> and \<open>..\<close>, and when the only dot is the first character.
\<close>

definition path_extension :: "string \<Rightarrow> string" where
  "path_extension p =
     (let n = path_filename p in
      if n = ''.'' \<or> n = ''..'' then []
      else case find_last_of CHR ''.'' n of
             None \<Rightarrow> []
           | Some i \<Rightarrow> if i = 0 then [] else drop i n)"

text \<open>\<open>path(a) / b\<close>\<close>

definition path_append :: "string \<Rightarrow> string \<Rightarrow> string" where
  "path_append a b =
     (if b \<noteq> [] \<and> hd b = CHR ''/'' then b
      else if a = [] \<or> last a = CHR ''/'' then a @ b
      else a @ CHR ''/'' # b)"

text \<open>
  \<open>path::parent_path\<close>: the path without its last component and the separators before it;
  a root directory is its own parent.
\<close>

definition strip_seps :: "string \<Rightarrow> string" where
  "strip_seps p = rev (dropWhile (\<lambda>c. c = CHR ''/'') (rev p))"

definition parent_path :: "string \<Rightarrow> string" where
  "parent_path p =
     (case find_last_of CHR ''/'' p of
        None \<Rightarrow> []
      | Some i \<Rightarrow>
          (let d = strip_seps (take i p) in
           if d = [] then ''/'' else d))"

lemma path_filename_append:
  assumes "CHR ''/'' \<notin> set n"
  shows "\<exists>m. path_filename (d @ n) = m @ n"
proof (cases "CHR ''/'' \<in> set d")
  case False
  with assms show ?thesis by (simp add: path_filename_def)
next
  case True
  then obtain d1 d2 where d: "d = d1 @ CHR ''/'' # d2" and d2: "CHR ''/'' \<notin> set d2"
    by (meson split_list_last)
  have "find_last_of CHR ''/'' (d1 @ CHR ''/'' # (d2 @ n)) = Some (length d1)"
    by (rule find_last_of_append) (use d2 assms in auto)
  then show ?thesis by (simp add: path_filename_def d)
qed

lemma path_extension_txt:
  assumes "n \<noteq> []" and "CHR ''/'' \<notin> set n"
  shows "path_extension (d @ n @ ''.txt'') = ''.txt''"
proof -
  from path_filename_append [of "n @ ''.txt''" d] assms(2)
  obtain m where m: "path_filename (d @ n @ ''.txt'') = m @ n @ ''.txt''" by auto
  have "find_last_of CHR ''.'' ((m @ n) @ CHR ''.'' # ''txt'') = Some (length (m @ n))"
    by (rule find_last_of_append) simp
  with assms(1) m show ?thesis by (auto simp: path_extension_def Let_def)
qed

end
