(* ===== verification/Json.thy ===== *)
theory Json
  imports Cxx_Strings "HOL-Library.Finite_Map" "HOL-Library.List_Lexorder" "HOL-Library.Char_ord"
begin

text \<open>
  JSON values as the sources handle them through \<open>nlohmann::json\<close>.  The library is not
  part of the repository: its parser and its printer are parameters (the record
  \<open>codec\<close>), and \<open>codec_ok\<close> states the documented behaviour the code relies
  on.  What is defined here is how the sources read and build values: \<open>contains\<close>, the
  subscript operators, conversions, iteration.  Signed and unsigned integers are one constructor:
  the parser makes a number unsigned exactly when it has no minus sign.
\<close>

datatype json =
    JNull
  | JBool bool
  | JNum int
  | JFloat string
  | JStr string
  | JArr "json list"
  | JObj "(string, json) fmap"

text \<open>
  \<open>json_parse\<close> is \<open>json::parse\<close> (\<open>None\<close>: it throws
  \<open>parse_error\<close>), \<open>json_dump\<close> is \<open>json::dump\<close> (\<open>None\<close>: it
  throws \<open>type_error\<close>, on strings that are not UTF-8), \<open>json_pretty\<close> is
  \<open>dump(4)\<close>, \<open>what\<close> is the text of an exception \<open>float_trunc\<close> the
  integer a floating-point literal converts to, and \<open>json_read\<close> the extraction operator of a
  stream, which reads the first value and ignores the rest.
\<close>

record codec =
  json_parse :: "string \<Rightarrow> json option"
  json_dump :: "json \<Rightarrow> string option"
  json_pretty :: "json \<Rightarrow> string option"
  what :: "exn \<Rightarrow> string"
  float_trunc :: "string \<Rightarrow> int"
  json_read :: "string \<Rightarrow> json option"

definition codec_ok :: "('x) codec_scheme \<Rightarrow> bool" where
  "codec_ok X \<longleftrightarrow>
     (\<forall>j s. json_dump X j = Some s \<longrightarrow> json_parse X s = Some j) \<and>
     (\<forall>j s. json_pretty X j = Some s \<longrightarrow> json_parse X s = Some j)"

text \<open>
  The printer accepts a value exactly when all its strings are UTF-8, which is what file names, texts
  of files and JSON texts are in the runs the theorems speak of; on a value with another string it
  throws.  \<open>codec_total\<close> says that it prints the values at hand, for every value.  Nothing
  is lost by stating it for every value: a codec that prints and reads back the UTF-8 values agrees on
  them, and on every UTF-8 text, with a codec that is total (\<open>codec_on_utf8_extends\<close> in
  \<open>Toy_Codec\<close>), so a run in which only UTF-8 values are printed is a run with a total codec.
  A run in which a string is not UTF-8 is outside the theorems that assume \<open>codec_total\<close>;
  those that do not assume it cover the exception (\<open>json_dump\<close> is then \<open>None\<close>).
\<close>

definition codec_total :: "('x) codec_scheme \<Rightarrow> bool" where
  "codec_total X \<longleftrightarrow>
     (\<forall>j. \<exists>s. json_dump X j = Some s \<and> json_parse X s = Some j) \<and>
     (\<forall>j. \<exists>s. json_pretty X j = Some s \<and> json_parse X s = Some j)"

definition parse :: "('x) codec_scheme \<Rightarrow> string \<Rightarrow> exn + json" where
  "parse X s = (case json_parse X s of None \<Rightarrow> Inl Json_parse_error | Some j \<Rightarrow> Inr j)"

definition read_json :: "('x) codec_scheme \<Rightarrow> string \<Rightarrow> exn + json" where
  "read_json X s = (case json_read X s of None \<Rightarrow> Inl Json_parse_error | Some j \<Rightarrow> Inr j)"

definition dump :: "('x) codec_scheme \<Rightarrow> json \<Rightarrow> exn + string" where
  "dump X j = (case json_dump X j of None \<Rightarrow> Inl Json_type_error | Some s \<Rightarrow> Inr s)"

section \<open>Reading values\<close>

definition is_string :: "json \<Rightarrow> bool" where
  "is_string j = (case j of JStr _ \<Rightarrow> True | _ \<Rightarrow> False)"

definition is_array :: "json \<Rightarrow> bool" where
  "is_array j = (case j of JArr _ \<Rightarrow> True | _ \<Rightarrow> False)"

definition contains :: "json \<Rightarrow> string \<Rightarrow> bool" where
  "contains j k = (case j of JObj m \<Rightarrow> fmlookup m k \<noteq> None | _ \<Rightarrow> False)"

text \<open>
  \<open>j[k]\<close> on a value that is not constant: a missing key is inserted with the value null,
  null becomes an object, and any other type throws.  \<open>subscript\<close> is the value read,
  \<open>subscripted\<close> what the operand has become.
\<close>

definition subscript :: "json \<Rightarrow> string \<Rightarrow> exn + json" where
  "subscript j k = (case j of
       JObj m \<Rightarrow> Inr (case fmlookup m k of None \<Rightarrow> JNull | Some v \<Rightarrow> v)
     | JNull \<Rightarrow> Inr JNull
     | _ \<Rightarrow> Inl Json_type_error)"

definition set_key :: "json \<Rightarrow> string \<Rightarrow> json \<Rightarrow> exn + json" where
  "set_key j k v = (case j of
       JObj m \<Rightarrow> Inr (JObj (fmupd k v m))
     | JNull \<Rightarrow> Inr (JObj (fmupd k v fmempty))
     | _ \<Rightarrow> Inl Json_type_error)"

definition subscripted :: "json \<Rightarrow> string \<Rightarrow> json" where
  "subscripted j k = (case j of
       JObj m \<Rightarrow> (case fmlookup m k of None \<Rightarrow> JObj (fmupd k JNull m) | Some v \<Rightarrow> j)
     | JNull \<Rightarrow> JObj (fmupd k JNull fmempty)
     | _ \<Rightarrow> j)"

text \<open>
  \<open>j[k]\<close> on a constant: a missing key is undefined behaviour, a value that is not an
  object throws.
\<close>

definition subscript_const :: "json \<Rightarrow> string \<Rightarrow> ('s, json) prog" where
  "subscript_const j k = (case j of
       JObj m \<Rightarrow> (case fmlookup m k of None \<Rightarrow> undef | Some v \<Rightarrow> ret v)
     | _ \<Rightarrow> throw Json_type_error)"

text \<open>Conversion to \<open>std::string\<close> and to \<open>std::vector<std::string>\<close>.\<close>

definition get_string :: "json \<Rightarrow> exn + string" where
  "get_string j = (case j of JStr s \<Rightarrow> Inr s | _ \<Rightarrow> Inl Json_type_error)"

fun get_string_list :: "json list \<Rightarrow> exn + string list" where
  "get_string_list [] = Inr []"
| "get_string_list (j # js) =
     (case get_string j of
        Inl e \<Rightarrow> Inl e
      | Inr s \<Rightarrow> (case get_string_list js of Inl e \<Rightarrow> Inl e | Inr ss \<Rightarrow> Inr (s # ss)))"

definition get_strings :: "json \<Rightarrow> exn + string list" where
  "get_strings j = (case j of JArr js \<Rightarrow> get_string_list js | _ \<Rightarrow> Inl Json_type_error)"

definition get_int :: "('x) codec_scheme \<Rightarrow> json \<Rightarrow> exn + int" where
  "get_int X j = (case j of JNum i \<Rightarrow> Inr i | JBool b \<Rightarrow> Inr (if b then 1 else 0)
                        | JFloat f \<Rightarrow> Inr (float_trunc X f)
                        | _ \<Rightarrow> Inl Json_type_error)"

text \<open>
  \<open>for (auto \&x : j)\<close>: the elements of an array, the values of an object, nothing for
  null, and a primitive value once.
\<close>

definition elements :: "json \<Rightarrow> json list" where
  "elements j = (case j of
       JArr js \<Rightarrow> js
     | JObj m \<Rightarrow> map snd (sorted_list_of_fmap m)
     | JNull \<Rightarrow> []
     | _ \<Rightarrow> [j])"

text \<open>\<open>j.push_back(v)\<close>\<close>

definition push_back :: "json \<Rightarrow> json \<Rightarrow> exn + json" where
  "push_back j v = (case j of
       JArr js \<Rightarrow> Inr (JArr (js @ [v]))
     | JNull \<Rightarrow> Inr (JArr [v])
     | _ \<Rightarrow> Inl Json_type_error)"

text \<open>An object built from an initializer list.\<close>

definition obj :: "(string \<times> json) list \<Rightarrow> json" where
  "obj kvs = JObj (fmap_of_list kvs)"

section \<open>Lemmas\<close>

lemma codec_okD: "codec_ok X \<Longrightarrow> json_dump X j = Some s \<Longrightarrow> json_parse X s = Some j"
  by (simp add: codec_ok_def)

lemma codec_total_ok: "codec_total X \<Longrightarrow> codec_ok X"
  unfolding codec_total_def codec_ok_def by (metis option.inject)

lemma codec_ok_prettyD: "codec_ok X \<Longrightarrow> json_pretty X j = Some s \<Longrightarrow> json_parse X s = Some j"
  by (simp add: codec_ok_def)

lemma codec_totalE:
  assumes "codec_total X" obtains s where "json_dump X j = Some s" and "json_parse X s = Some j"
  using assms unfolding codec_total_def by blast

text \<open>The text of a value, when it prints.\<close>

definition text_of :: "('x) codec_scheme \<Rightarrow> json \<Rightarrow> string" where
  "text_of X j = (case json_dump X j of Some s \<Rightarrow> s | None \<Rightarrow> [])"

lemma codec_total_dump: "codec_total X \<Longrightarrow> json_dump X j = Some (text_of X j)"
  unfolding codec_total_def text_of_def by (metis option.simps(5))

lemma codec_total_parse: "codec_total X \<Longrightarrow> json_parse X (text_of X j) = Some j"
  unfolding codec_total_def text_of_def by (metis option.simps(5))

lemma parse_dump: "codec_ok X \<Longrightarrow> dump X j = Inr s \<Longrightarrow> parse X s = Inr j"
  by (auto simp: dump_def parse_def codec_ok_def split: option.splits)

lemma dump_Inr [simp]: "dump X j = Inr s \<longleftrightarrow> json_dump X j = Some s"
  by (auto simp: dump_def split: option.splits)

lemma parse_Inr [simp]: "parse X s = Inr j \<longleftrightarrow> json_parse X s = Some j"
  by (auto simp: parse_def split: option.splits)

lemma dump_Some [simp]: "json_dump X j = Some s \<Longrightarrow> dump X j = Inr s"
  by simp

lemma parse_Some [simp]: "json_parse X s = Some j \<Longrightarrow> parse X s = Inr j"
  by simp

lemma parse_None [simp]: "json_parse X s = None \<Longrightarrow> parse X s = Inl Json_parse_error"
  by (simp add: parse_def)

lemma dump_None [simp]: "json_dump X j = None \<Longrightarrow> dump X j = Inl Json_type_error"
  by (simp add: dump_def)

lemma is_string_simps [simp]:
  "is_string (JStr s)" "\<not> is_string (JObj m)" "\<not> is_string (JArr js)" "\<not> is_string JNull"
  "\<not> is_string (JNum i)" "\<not> is_string (JBool b)" "\<not> is_string (obj kvs)"
  by (simp_all add: is_string_def obj_def)

lemma is_array_simps [simp]:
  "is_array (JArr js)" "\<not> is_array (JObj m)" "\<not> is_array (JStr s)" "\<not> is_array JNull"
  by (simp_all add: is_array_def)

lemma is_arrayE: "is_array j \<Longrightarrow> (\<And>js. j = JArr js \<Longrightarrow> thesis) \<Longrightarrow> thesis"
  by (cases j) (auto simp: is_array_def)

lemma contains_simps [simp]:
  "contains (JObj m) k \<longleftrightarrow> fmlookup m k \<noteq> None"
  "\<not> contains (JStr s) k" "\<not> contains (JArr js) k" "\<not> contains JNull k"
  "\<not> contains (JNum i) k" "\<not> contains (JBool b) k"
  by (simp_all add: contains_def)

lemma contains_obj [simp]: "contains (obj kvs) k \<longleftrightarrow> map_of kvs k \<noteq> None"
  by (simp add: obj_def fmlookup_of_list)

lemma containsE:
  assumes "contains j k" obtains m v where "j = JObj m" and "fmlookup m k = Some v"
  using assms by (cases j) (auto simp: contains_def)

lemma subscript_JObj [simp]: "fmlookup m k = Some v \<Longrightarrow> subscript (JObj m) k = Inr v"
  by (simp add: subscript_def)

lemma subscript_obj [simp]: "map_of kvs k = Some v \<Longrightarrow> subscript (obj kvs) k = Inr v"
  by (simp add: subscript_def obj_def fmlookup_of_list)

lemma subscripted_JObj [simp]: "fmlookup m k = Some v \<Longrightarrow> subscripted (JObj m) k = JObj m"
  by (simp add: subscripted_def)

lemma subscript_const_JObj [simp]:
  "fmlookup m k = Some v \<Longrightarrow> subscript_const (JObj m) k s = Ret v s"
  by (simp add: subscript_const_def)

lemma subscript_const_obj [simp]:
  "map_of kvs k = Some v \<Longrightarrow> subscript_const (obj kvs) k s = Ret v s"
  by (simp add: subscript_const_def obj_def fmlookup_of_list)

lemma set_key_JObj [simp]: "set_key (JObj m) k v = Inr (JObj (fmupd k v m))"
  by (simp add: set_key_def)

lemma get_string_JStr [simp]: "get_string (JStr s) = Inr s"
  by (simp add: get_string_def)

lemma get_string_Inr [simp]: "get_string j = Inr s \<longleftrightarrow> j = JStr s"
  by (cases j) (auto simp: get_string_def)

lemma get_int_JNum [simp]: "get_int X (JNum i) = Inr i"
  by (simp add: get_int_def)

lemma get_string_list_map [simp]: "get_string_list (map JStr ss) = Inr ss"
  by (induction ss) auto

lemma get_string_list_InrD: "get_string_list js = Inr ss \<Longrightarrow> js = map JStr ss"
  by (induction js arbitrary: ss) (auto split: sum.splits)

lemma get_string_list_Inr: "get_string_list js = Inr ss \<longleftrightarrow> js = map JStr ss"
  by (auto dest: get_string_list_InrD)

lemma get_strings_map [simp]: "get_strings (JArr (map JStr ss)) = Inr ss"
  by (simp add: get_strings_def)

lemma elements_JArr [simp]: "elements (JArr js) = js"
  by (simp add: elements_def)

lemma push_back_JArr [simp]: "push_back (JArr js) v = Inr (JArr (js @ [v]))"
  by (simp add: push_back_def)

lemma keeps_subscript_const [keeps_intros]: "keeps P (subscript_const j k)"
  by (auto simp: subscript_const_def split: json.split option.split intro: keeps_intros)

end
