(* ===== verification/Kv_Client.thy ===== *)
theory Kv_Client
  imports Json
begin

text \<open>
  The client's key-value library, \<open>src/CODE/src/client/kv/kv.cpp\<close>: one HTTP request
  (\<open>sendRequest\<close>), following redirections to the leader (\<open>redirectToLeader\<close>,
  a loop that need not end), trying the servers of a group in random order
  (\<open>tryServers\<close>) and the operations \<open>get\<close>, \<open>set\<close>, \<open>del\<close>,
  \<open>setFile\<close>, \<open>getFile\<close>, \<open>deleteFile\<close> on top.  libcurl and the random
  shuffle are parameters that act on the network state of type \<open>'w\<close>.
\<close>

section \<open>Types and parameters\<close>

datatype curl_result =
    Curl_error string
  | Curl_done int "string list"

text \<open>
  \<open>curl_init\<close> is \<open>curl_easy_init\<close> (whether a handle was returned),
  \<open>curl_perform\<close> is \<open>curl_easy_perform\<close> of a URL, a method and an optional body,
  with the error text or the response code and the chunks passed to the write callback;
  \<open>shuffled\<close> is \<open>std::shuffle\<close> with a generator seeded by
  \<open>std::random_device\<close>.
\<close>

record 'w net_ext = codec +
  curl_init :: "'w \<Rightarrow> bool \<times> 'w"
  curl_perform :: "string \<Rightarrow> string \<Rightarrow> string option \<Rightarrow> 'w \<Rightarrow> curl_result \<times> 'w"
  shuffled :: "string list \<Rightarrow> 'w \<Rightarrow> string list \<times> 'w"

record response =
  resp_value :: string
  resp_err :: string
  resp_success :: bool

abbreviation mk_response :: "string \<Rightarrow> string \<Rightarrow> bool \<Rightarrow> response" where
  "mk_response v e b \<equiv> \<lparr>resp_value = v, resp_err = e, resp_success = b\<rparr>"

definition DELETE_VALUE :: string where
  "DELETE_VALUE = ''__DELETE__''"

section \<open>Transport\<close>

text \<open>The product is computed in \<open>size_t\<close>.\<close>

definition WriteCallback :: "string \<Rightarrow> nat \<Rightarrow> nat \<Rightarrow> string \<Rightarrow> nat \<times> string" where
  "WriteCallback contents sz nmemb s =
     (let totalSize = (sz * nmemb) mod 2 ^ 64
      in (totalSize, s @ take totalSize contents))"

text \<open>libcurl calls it once per chunk with \<open>size = 1\<close>.\<close>

definition read_buffer :: "string list \<Rightarrow> string" where
  "read_buffer chunks = foldl (\<lambda>s c. snd (WriteCallback c 1 (length c) s)) [] chunks"

definition request_method :: "string \<Rightarrow> string" where
  "request_method reqType = (if reqType = ''put'' then ''PUT'' else ''GET'')"

definition request_body :: "string \<Rightarrow> string \<Rightarrow> string option" where
  "request_body reqType json_str =
     (if reqType = ''get'' then Some json_str
      else if reqType = ''put'' then Some json_str
      else None)"

definition sendRequest ::
  "('w, 'x) net_ext_scheme \<Rightarrow> string \<Rightarrow> string \<Rightarrow> json \<Rightarrow> ('w, response) prog" where
  "sendRequest X url reqType message =
     bind (call (curl_init X)) (\<lambda>curl.
     if \<not> curl then ret (mk_response [] ''Failed to initialize CURL'' False)
     else
       bind (lift_exn (dump X message)) (\<lambda>json_str.
       bind (call (curl_perform X url (request_method reqType) (request_body reqType json_str)))
         (\<lambda>curlRes.
           case curlRes of
             Curl_error msg \<Rightarrow> ret (mk_response [] msg False)
           | Curl_done httpCode chunks \<Rightarrow>
               if httpCode = 200 then ret (mk_response (read_buffer chunks) [] True)
               else ret (mk_response [] (''HTTP error code: '' @ to_string httpCode) False))))"

text \<open>The leader address in a reply; a reply that does not parse redirects nowhere.\<close>

definition redirect_target :: "('x) codec_scheme \<Rightarrow> string \<Rightarrow> string option" where
  "redirect_target X v =
     (case parse X v of
        Inl e \<Rightarrow> None
      | Inr jsonResponse \<Rightarrow>
          if contains jsonResponse ''payload'' then
            (case subscript jsonResponse ''payload'' of
               Inl e \<Rightarrow> None
             | Inr payload \<Rightarrow>
                 if contains payload ''message'' then
                   (case subscript payload ''message'' of
                      Inl e \<Rightarrow> None
                    | Inr m \<Rightarrow> (case get_string m of Inl e \<Rightarrow> None | Inr a \<Rightarrow> Some a))
                 else None)
          else None)"

partial_function (option) redirect_loop ::
  "('w, 'x) net_ext_scheme \<Rightarrow> string \<Rightarrow> json \<Rightarrow> string \<Rightarrow> 'w \<Rightarrow> (response, 'w) outcome option"
where
  "redirect_loop X reqType message currentUrl w =
     (case sendRequest X currentUrl reqType message w of
        Ret res w1 \<Rightarrow>
          if \<not> resp_success res then Some (Ret res w1)
          else (case redirect_target X (resp_value res) of
                  Some newAddress \<Rightarrow>
                    redirect_loop X reqType message (newAddress @ ''/request'') w1
                | None \<Rightarrow> Some (Ret res w1))
      | Throw e w1 \<Rightarrow> Some (Throw e w1)
      | Exit n \<Rightarrow> Some (Exit n)
      | Undef \<Rightarrow> Some Undef
      | Diverge \<Rightarrow> Some Diverge)"

definition redirectToLeader ::
  "('w, 'x) net_ext_scheme \<Rightarrow> string \<Rightarrow> string \<Rightarrow> json \<Rightarrow> ('w, response) prog" where
  "redirectToLeader X initialUrl reqType message w =
     (case redirect_loop X reqType message initialUrl w of None \<Rightarrow> Diverge | Some r \<Rightarrow> r)"

fun try_each ::
  "('w, 'x) net_ext_scheme \<Rightarrow> string \<Rightarrow> json \<Rightarrow> string list \<Rightarrow> response \<Rightarrow> ('w, response) prog"
where
  "try_each X reqType message [] finalResponse =
     ret (finalResponse\<lparr>resp_err := ''All servers unreachable or returned errors.''\<rparr>)"
| "try_each X reqType message (server # servers) finalResponse =
     bind (redirectToLeader X (server @ ''/request'') reqType message) (\<lambda>r.
       if resp_success r then ret r else try_each X reqType message servers r)"

text \<open>
  \<open>Response finalResponse;\<close> leaves the flag \<open>success\<close> without a value: with no
  server to try, the caller reads it undefined.
\<close>

definition tryServers ::
  "('w, 'x) net_ext_scheme \<Rightarrow> string list \<Rightarrow> string \<Rightarrow> json \<Rightarrow> ('w, response) prog" where
  "tryServers X servers reqType message =
     bind (call (shuffled X servers)) (\<lambda>shuffledServers.
       if shuffledServers = [] then undef
       else try_each X reqType message shuffledServers (mk_response [] [] False))"

section \<open>Operations\<close>

definition key_missing :: response where
  "key_missing = mk_response [] ''Error: Key does not exist'' False"

text \<open>
  The reply of a \<open>get\<close>: \<open>Inl\<close> is an exception of the \<open>try\<close> block.  A
  reply whose payload has no \<open>data\<close> member falls through and is returned as it came.
\<close>

definition kv_get_reply :: "('x) codec_scheme \<Rightarrow> response \<Rightarrow> exn + response" where
  "kv_get_reply X res =
     (case parse X (resp_value res) of
        Inl e \<Rightarrow> Inl e
      | Inr jsonResponse \<Rightarrow>
          if contains jsonResponse ''code'' \<and> subscript jsonResponse ''code'' = Inr (JStr ''fail'')
          then Inr key_missing
          else if contains jsonResponse ''payload'' then
            (case subscript jsonResponse ''payload'' of
               Inl e \<Rightarrow> Inl e
             | Inr payload0 \<Rightarrow>
                 (case (case payload0 of JStr s \<Rightarrow> parse X s | _ \<Rightarrow> Inr payload0) of
                    Inl e \<Rightarrow> Inl e
                  | Inr payload \<Rightarrow>
                      if contains payload ''data'' then
                        if subscript payload ''data'' = Inr (JStr DELETE_VALUE)
                        then Inr key_missing
                        else (case dump X payload of
                                Inl e \<Rightarrow> Inl e
                              | Inr s \<Rightarrow> Inr (mk_response s ''Success'' True))
                      else Inr res))
          else Inr key_missing)"

definition kv_get ::
  "('w, 'x) net_ext_scheme \<Rightarrow> string list \<Rightarrow> string \<Rightarrow> string \<Rightarrow> ('w, response) prog" where
  "kv_get X servers key token =
     (let payload = obj [(''key'', JStr key), (''token'', JStr token)];
          message = obj [(''type'', JStr ''get''), (''payload'', payload)]
      in bind (tryServers X servers ''get'' message) (\<lambda>res.
           if resp_success res then
             (case kv_get_reply X res of
                Inl e \<Rightarrow> ret (mk_response [] (''JSON parsing error: '' @ what X e) False)
              | Inr r \<Rightarrow> ret r)
           else ret res))"

definition kv_set ::
  "('w, 'x) net_ext_scheme \<Rightarrow> string list \<Rightarrow> string \<Rightarrow> string \<Rightarrow> string \<Rightarrow> string \<Rightarrow>
     ('w, response) prog" where
  "kv_set X servers key token device_id val =
     (let payload = obj [(''key'', JStr key), (''token'', JStr token),
                         (''device_id'', JStr device_id), (''value'', JStr val)];
          message = obj [(''type'', JStr ''put''), (''payload'', payload)]
      in tryServers X servers ''put'' message)"

definition kv_del ::
  "('w, 'x) net_ext_scheme \<Rightarrow> string list \<Rightarrow> string \<Rightarrow> string \<Rightarrow> string \<Rightarrow> ('w, response) prog"
where
  "kv_del X servers key token device_id = kv_set X servers key token device_id DELETE_VALUE"

text \<open>
  \<open>FileKVResponse\<close> has the same three members.  In \<open>setFile\<close> the
  \<open>try\<close> block covers the printing of the value and the request.
\<close>

definition file_response :: "response \<Rightarrow> response" where
  "file_response r = (if resp_success r then mk_response (resp_value r) [] True
                      else mk_response [] (resp_err r) False)"

definition setFile ::
  "('w, 'x) net_ext_scheme \<Rightarrow> string list \<Rightarrow> string \<Rightarrow> string \<Rightarrow> string \<Rightarrow> string \<Rightarrow> string \<Rightarrow>
     ('w, response) prog" where
  "setFile X servers filePath file_content version token device_id =
     try_catch
       (bind (lift_exn (dump X (obj [(''version_number'', JStr version),
                                     (''data'', JStr file_content)]))) (\<lambda>v.
        bind (kv_set X servers filePath token device_id v) (\<lambda>setResp.
        ret (file_response setResp))))
       (\<lambda>e. ret (mk_response [] (what X e) False))"

definition getFile ::
  "('w, 'x) net_ext_scheme \<Rightarrow> string list \<Rightarrow> string \<Rightarrow> string \<Rightarrow> ('w, response) prog" where
  "getFile X servers filePath token =
     bind (kv_get X servers filePath token) (\<lambda>getResp.
       if resp_success getResp then
         try_catch
           (bind (lift_exn (parse X (resp_value getResp))) (\<lambda>j.
            bind (lift_exn (dump X j)) (\<lambda>s.
            ret (mk_response s [] True))))
           (\<lambda>e. ret (mk_response [] (what X e) False))
       else ret (mk_response [] (resp_err getResp) False))"

definition deleteFile ::
  "('w, 'x) net_ext_scheme \<Rightarrow> string list \<Rightarrow> string \<Rightarrow> string \<Rightarrow> string \<Rightarrow> ('w, response) prog"
where
  "deleteFile X servers filePath token device_id =
     bind (kv_del X servers filePath token device_id) (\<lambda>delResp.
       ret (file_response delResp))"

section \<open>Transport lemmas\<close>

lemma read_buffer_snoc:
  "length c < 2 ^ 64 \<Longrightarrow> read_buffer (chunks @ [c]) = read_buffer chunks @ c"
  by (simp add: read_buffer_def WriteCallback_def Let_def)

text \<open>The buffer is the whole body, however libcurl cuts it.\<close>

lemma read_buffer_concat:
  "\<forall>c \<in> set chunks. length c < 2 ^ 64 \<Longrightarrow> read_buffer chunks = concat chunks"
proof (induction chunks rule: rev_induct)
  case Nil
  show ?case by (simp add: read_buffer_def)
next
  case (snoc c chunks)
  then show ?case by (simp add: read_buffer_snoc)
qed

text \<open>One request: it returns or throws, and it never exits, diverges or is undefined.\<close>

lemma sendRequest_total:
  "(\<exists>res w1. sendRequest X url reqType message w = Ret res w1) \<or>
   (\<exists>w1. sendRequest X url reqType message w = Throw Json_type_error w1)"
  by (cases "json_dump X message")
     (auto simp: sendRequest_def split: prod.split curl_result.split)

lemma sendRequest_success:
  assumes "curl_init X w = (True, w1)" and "json_dump X message = Some body"
    and "curl_perform X url (request_method reqType) (request_body reqType body) w1
         = (Curl_done 200 chunks, w2)"
  shows "sendRequest X url reqType message w = Ret (mk_response (read_buffer chunks) [] True) w2"
  using assms by (simp add: sendRequest_def)

lemma redirect_loop_final:
  assumes "sendRequest X url reqType message w = Ret res w1"
    and "\<not> resp_success res \<or> redirect_target X (resp_value res) = None"
  shows "redirectToLeader X url reqType message w = Ret res w1"
  using assms by (auto simp: redirectToLeader_def redirect_loop.simps)

lemma redirect_loop_follow:
  assumes "sendRequest X url reqType message w = Ret res w1" and "resp_success res"
    and "redirect_target X (resp_value res) = Some addr"
  shows "redirectToLeader X url reqType message w
         = redirectToLeader X (addr @ ''/request'') reqType message w1"
  using assms by (simp add: redirectToLeader_def redirect_loop.simps [of X reqType message url])

lemma redirect_loop_throw:
  assumes "sendRequest X url reqType message w = Throw e w1"
  shows "redirectToLeader X url reqType message w = Throw e w1"
  using assms by (simp add: redirectToLeader_def redirect_loop.simps)

end
