(* ===== verification/Initiation.thy ===== *)
theory Initiation
  imports Kv_Client
begin

text \<open>
  The metadata server's start-up and its broadcaster:
  \<open>src/CODE/src/metaserver/initiation/initiation.cpp\<close> and
  \<open>src/CODE/src/notification_server/AsyncBroadcaster.hpp\<close>.  A broadcast starts one detached
  thread per notification server; the model keeps the requests of the threads that have not run in
  an outbox, and \<open>sendBroadcastRequest\<close> is the body of such a thread.
\<close>

section \<open>Broadcasting\<close>

record server =
  ip :: string
  port :: nat

definition broadcast_url :: "server \<Rightarrow> string" where
  "broadcast_url s = ''http://'' @ ip s @ '':'' @ to_string (int (port s)) @ ''/broadcast''"

text \<open>
  The outcome of a broadcast request is only printed; \<open>dump\<close> may throw, which ends the
  process since nothing in the thread catches it.
\<close>

definition sendBroadcastRequest ::
  "('w, 'x) net_ext_scheme \<Rightarrow> server \<Rightarrow> json \<Rightarrow> ('w, unit) prog" where
  "sendBroadcastRequest X srv message =
     bind (call (curl_init X)) (\<lambda>curl.
       if curl then
         bind (lift_exn (dump X message)) (\<lambda>payload.
         bind (call (curl_perform X (broadcast_url srv) ''POST'' (Some payload))) (\<lambda>_. ret ()))
       else ret ())"

definition broadcast_tasks :: "server list \<Rightarrow> json \<Rightarrow> (server \<times> json) list" where
  "broadcast_tasks servers message = map (\<lambda>srv. (srv, message)) servers"

section \<open>Reading the configuration\<close>

record initiation =
  public_key :: string
  server_ip :: string
  server_port :: int
  notification_servers :: "string list"
  metastorage_groups :: "string list list"
  blockserver_lists :: "string list list"
  broadcaster :: "server list option"

definition initial_initiation :: initiation where
  "initial_initiation = \<lparr>public_key = [], server_ip = [], server_port = 0,
     notification_servers = [], metastorage_groups = [], blockserver_lists = [],
     broadcaster = None\<rparr>"

text \<open>Files as an input stream sees them: the content of each file that opens.\<close>

definition loadKey :: "(string \<Rightarrow> string option) \<Rightarrow> string \<Rightarrow> exn + string" where
  "loadKey files filename =
     (case files filename of
        None \<Rightarrow> Inl (Runtime_error ''Failed to open key file'')
      | Some content \<Rightarrow> Inr content)"

text \<open>
  One URL: the protocol is dropped, the first colon separates the address from the port, and the
  port is converted to \<open>unsigned short\<close>.  A URL without a colon is skipped.
\<close>

definition parse_server_url :: "string \<Rightarrow> exn + server option" where
  "parse_server_url url =
     (let temp = (case find_sub ''://'' url of None \<Rightarrow> url | Some pos \<Rightarrow> drop (pos + 3) url)
      in case find_sub '':'' temp of
           None \<Rightarrow> Inr None
         | Some pos \<Rightarrow>
             (case stoi (drop (pos + 1) temp) of
                Inl e \<Rightarrow> Inl e
              | Inr p \<Rightarrow> Inr (Some \<lparr>ip = take pos temp, port = nat (p mod 65536)\<rparr>)))"

fun parseServerUrls :: "string list \<Rightarrow> exn + server list" where
  "parseServerUrls [] = Inr []"
| "parseServerUrls (url # urls) =
     (case parse_server_url url of
        Inl e \<Rightarrow> Inl e
      | Inr s \<Rightarrow>
          (case parseServerUrls urls of
             Inl e \<Rightarrow> Inl e
           | Inr servers \<Rightarrow> Inr (case s of None \<Rightarrow> servers | Some srv \<Rightarrow> srv # servers)))"

definition string_at :: "json \<Rightarrow> string \<Rightarrow> exn + string" where
  "string_at j k = (case subscript j k of Inl e \<Rightarrow> Inl e | Inr v \<Rightarrow> get_string v)"

text \<open>The endpoints of one group: each element of the value is converted to a string.\<close>

definition group_endpoints :: "json \<Rightarrow> exn + string list" where
  "group_endpoints val = get_string_list (elements val)"

definition initialize ::
  "('x) codec_scheme \<Rightarrow> (string \<Rightarrow> string option) \<Rightarrow> string \<Rightarrow> (initiation, unit) prog" where
  "initialize X files config_file =
     (case files config_file of
        None \<Rightarrow> throw (Runtime_error ''Failed to open config file'')
      | Some text \<Rightarrow>
          bind (lift_exn (read_json X text)) (\<lambda>config.
          bind (lift_exn (string_at config ''server_ip'')) (\<lambda>v_ip.
          seq (modify (\<lambda>s. s\<lparr>server_ip := v_ip\<rparr>)) (
          bind (lift_exn (subscript config ''server_port'')) (\<lambda>j_port.
          bind (lift_exn (get_int X j_port)) (\<lambda>v_port.
          seq (modify (\<lambda>s. s\<lparr>server_port := wrap_int v_port\<rparr>)) (
          bind (lift_exn (subscript config ''notification_servers'')) (\<lambda>j_servers.
          bind (lift_exn (get_strings j_servers)) (\<lambda>v_servers.
          seq (modify (\<lambda>s. s\<lparr>notification_servers := v_servers\<rparr>)) (
          bind (lift_exn (string_at config ''public_key_file'')) (\<lambda>key_file.
          bind (lift_exn (loadKey files key_file)) (\<lambda>v_key.
          seq (modify (\<lambda>s. s\<lparr>public_key := v_key\<rparr>)) (
          seq (modify (\<lambda>s. s\<lparr>metastorage_groups := []\<rparr>)) (
          bind (lift_exn (subscript config ''metastorage_lists'')) (\<lambda>j_meta.
          seq (for_each (elements j_meta) (\<lambda>val.
                 bind (lift_exn (group_endpoints val)) (\<lambda>g.
                 modify (\<lambda>s. s\<lparr>metastorage_groups := metastorage_groups s @ [g]\<rparr>)))) (
          seq (modify (\<lambda>s. s\<lparr>blockserver_lists := []\<rparr>)) (
          bind (lift_exn (subscript config ''blockstorage_lists'')) (\<lambda>j_block.
          seq (for_each (elements j_block) (\<lambda>val.
                 bind (lift_exn (group_endpoints val)) (\<lambda>g.
                 modify (\<lambda>s. s\<lparr>blockserver_lists := blockserver_lists s @ [g]\<rparr>)))) (
          bind (gets notification_servers) (\<lambda>urls.
          bind (lift_exn (parseServerUrls urls)) (\<lambda>servers.
          modify (\<lambda>s. s\<lparr>broadcaster := Some servers\<rparr>))))))))))))))))))))))"

section \<open>Lemmas\<close>

lemma find_sub_first:
  "c \<notin> set xs \<Longrightarrow> find_sub [c] (xs @ c # ys) = Some (length xs)"
  by (induction xs) auto

lemma find_sub_None: "c \<notin> set xs \<Longrightarrow> find_sub (c # p) xs = None"
  by (induction xs) auto

text \<open>The servers of the configuration files, \<open>http://address:port\<close>, parse to their parts.\<close>

lemma find_sub_protocol:
  assumes "CHR '':'' \<notin> set addr"
  shows "find_sub ''://'' (''http://'' @ addr @ rest) = Some 4"
  by simp

lemma parse_server_url_http:
  assumes addr: "CHR '':'' \<notin> set addr" and p: "p < 65536"
  shows "parse_server_url (''http://'' @ addr @ '':'' @ to_string (int p))
         = Inr (Some \<lparr>ip = addr, port = p\<rparr>)"
proof -
  have proto: "find_sub ''://'' (''http://'' @ addr @ '':'' @ to_string (int p)) = Some 4"
    by simp
  have colon: "find_sub '':'' (addr @ CHR '':'' # to_string (int p)) = Some (length addr)"
    by (rule find_sub_first [OF addr])
  have num: "stoi (to_string (int p)) = Inr (int p)"
    by (rule stoi_to_string) (use p in \<open>simp_all add: int_min_def int_max_def\<close>)
  from proto colon num p show ?thesis
    by (simp add: parse_server_url_def Let_def)
qed

lemma string_at_JObj [simp]:
  "fmlookup m k = Some (JStr v) \<Longrightarrow> string_at (JObj m) k = Inr v"
  by (simp add: string_at_def)

lemma string_at_obj [simp]:
  "map_of kvs k = Some (JStr v) \<Longrightarrow> string_at (obj kvs) k = Inr v"
  by (simp add: string_at_def)

end
