(* ===== verification/Authentication.thy ===== *)
theory Authentication
  imports Initiation
begin

text \<open>
  The metadata server's check of a request,
  \<open>src/CODE/src/metaserver/authentication/authentication.cpp\<close>.  Decoding and verifying a JWT is
  the vendored library's work: \<open>jwt_user\<close> is the user named by a token that verifies against a
  public key at a time, \<open>None\<close> when the library throws.
\<close>

record http_request =
  req_header :: "string \<rightharpoonup> string"
  req_body :: string

record http_response =
  res_status :: int
  res_body :: string

abbreviation reply :: "int \<Rightarrow> string \<Rightarrow> http_response" where
  "reply st b \<equiv> \<lparr>res_status = st, res_body = b\<rparr>"

text \<open>The response a handler receives: no status yet and an empty body.\<close>

definition fresh_response :: http_response where
  "fresh_response = reply (-1) []"

definition err :: "string \<Rightarrow> string" where
  "err msg = ''{\"error\": \"'' @ msg @ ''\"}''"

text \<open>
  \<open>hash\<close> is \<open>std::hash<std::string>\<close>; \<open>time_now\<close> is the system clock.
\<close>

record 'w meta_ext = "'w net_ext" +
  jwt_user :: "string \<Rightarrow> string \<Rightarrow> int \<Rightarrow> string option"
  hash :: "string \<Rightarrow> nat"
  time_now :: "'w \<Rightarrow> int"

definition verify_jwt ::
  "('w, 'x) meta_ext_scheme \<Rightarrow> string \<Rightarrow> int \<Rightarrow> string \<Rightarrow> string option" where
  "verify_jwt X key now token =
     (if token = [] then None
      else if count_list token CHR ''.'' \<noteq> 2 then None
      else jwt_user X token key now)"

definition bearer_token :: "string \<Rightarrow> string" where
  "bearer_token h = (if prefix ''Bearer '' h then drop 7 h else h)"

text \<open>\<open>Inl\<close> is the response of a rejected request, \<open>Inr\<close> the user.\<close>

definition authenticate_request ::
  "('w, 'x) meta_ext_scheme \<Rightarrow> string \<Rightarrow> int \<Rightarrow> http_request \<Rightarrow> http_response + string" where
  "authenticate_request X key now req =
     (case req_header req ''Authorization'' of
        None \<Rightarrow> Inl (reply 401 (err ''Missing authentication token''))
      | Some h \<Rightarrow>
          (case verify_jwt X key now (bearer_token h) of
             None \<Rightarrow> Inl (reply 403 (err ''Invalid token''))
           | Some verified_user \<Rightarrow> Inr verified_user))"

lemma authenticate_rejected:
  "authenticate_request X key now req = Inl r \<Longrightarrow>
     (res_status r = 401 \<or> res_status r = 403) \<and> res_body r \<noteq> []"
  by (auto simp: authenticate_request_def err_def split: option.splits)

lemma bearer_token_append [simp]: "bearer_token (''Bearer '' @ t) = t"
  by (simp add: bearer_token_def)

lemma authenticate_bearer:
  assumes "req_header req ''Authorization'' = Some (''Bearer '' @ token)"
    and "token \<noteq> []" and "count_list token CHR ''.'' = 2"
    and "jwt_user X token key now = Some user"
  shows "authenticate_request X key now req = Inr user"
  using assms by (simp add: authenticate_request_def verify_jwt_def del: append.simps)

lemma authenticate_InrE:
  assumes "authenticate_request X key now req = Inr user"
  obtains h token where "req_header req ''Authorization'' = Some h" and "token = bearer_token h"
    and "token \<noteq> []" and "count_list token CHR ''.'' = 2"
    and "jwt_user X token key now = Some user"
  using assms by (auto simp: authenticate_request_def verify_jwt_def split: option.splits if_splits)

end
