(* ===== verification/Kv_Lib.thy ===== *)
theory Kv_Lib
  imports Kv_Client
begin

text \<open>
  The servers' key-value library, \<open>src/CODE/utils/Distributed_KV/client_lib/kv.hpp\<close>,
  which the metadata server and the signup server include.  Its transport functions repeat those of
  the client's library word for word; its operations carry no token, and \<open>get\<close> reads
  \<open>payload.value\<close>.
\<close>

definition dkv_sendRequest ::
  "('w, 'x) net_ext_scheme \<Rightarrow> string \<Rightarrow> string \<Rightarrow> json \<Rightarrow> ('w, response) prog" where
  "dkv_sendRequest = sendRequest"

definition dkv_redirectToLeader ::
  "('w, 'x) net_ext_scheme \<Rightarrow> string \<Rightarrow> string \<Rightarrow> json \<Rightarrow> ('w, response) prog" where
  "dkv_redirectToLeader = redirectToLeader"

definition dkv_tryServers ::
  "('w, 'x) net_ext_scheme \<Rightarrow> string list \<Rightarrow> string \<Rightarrow> json \<Rightarrow> ('w, response) prog" where
  "dkv_tryServers = tryServers"

text \<open>The reply of a \<open>get\<close>; \<open>Inl\<close> is an exception of the \<open>try\<close> block.\<close>

definition dkv_get_reply :: "('x) codec_scheme \<Rightarrow> response \<Rightarrow> exn + response" where
  "dkv_get_reply X res =
     (case parse X (resp_value res) of
        Inl e \<Rightarrow> Inl e
      | Inr jsonResponse \<Rightarrow>
          if contains jsonResponse ''code'' \<and> subscript jsonResponse ''code'' = Inr (JStr ''fail'')
          then Inr key_missing
          else if contains jsonResponse ''payload'' then
            (case subscript jsonResponse ''payload'' of
               Inl e \<Rightarrow> Inl e
             | Inr payload \<Rightarrow>
                 if contains payload ''value'' then
                   (case subscript payload ''value'' of
                      Inl e \<Rightarrow> Inl e
                    | Inr v \<Rightarrow>
                        (case get_string v of
                           Inl e \<Rightarrow> Inl e
                         | Inr val \<Rightarrow>
                             if val = DELETE_VALUE then Inr key_missing
                             else Inr (res\<lparr>resp_value := val\<rparr>)))
                 else Inr key_missing)
          else Inr key_missing)"

definition dkv_get ::
  "('w, 'x) net_ext_scheme \<Rightarrow> string list \<Rightarrow> string \<Rightarrow> ('w, response) prog" where
  "dkv_get X servers key =
     (let payload = obj [(''key'', JStr key)];
          message = obj [(''type'', JStr ''get''), (''payload'', payload)]
      in bind (dkv_tryServers X servers ''get'' message) (\<lambda>res.
           if resp_success res then
             (case dkv_get_reply X res of
                Inl e \<Rightarrow> ret (mk_response [] (''JSON parsing error: '' @ what X e) False)
              | Inr r \<Rightarrow> ret r)
           else ret res))"

definition dkv_set ::
  "('w, 'x) net_ext_scheme \<Rightarrow> string list \<Rightarrow> string \<Rightarrow> string \<Rightarrow> ('w, response) prog" where
  "dkv_set X servers key val =
     (let payload = obj [(''key'', JStr key), (''value'', JStr val)];
          message = obj [(''type'', JStr ''put''), (''payload'', payload)]
      in dkv_tryServers X servers ''put'' message)"

definition dkv_del ::
  "('w, 'x) net_ext_scheme \<Rightarrow> string list \<Rightarrow> string \<Rightarrow> ('w, response) prog" where
  "dkv_del X servers key = dkv_set X servers key DELETE_VALUE"

text \<open>
  The file operations.  \<open>readFileContent\<close> reads the local file system, given here as the
  content of each readable file; a file that does not open throws.
\<close>

definition readFileContent :: "(string \<Rightarrow> string option) \<Rightarrow> string \<Rightarrow> exn + string" where
  "readFileContent files filePath =
     (case files filePath of
        None \<Rightarrow> Inl (Runtime_error (''Failed to open file: '' @ filePath))
      | Some content \<Rightarrow> Inr content)"

definition dkv_setFile ::
  "('w, 'x) net_ext_scheme \<Rightarrow> (string \<Rightarrow> string option) \<Rightarrow> string list \<Rightarrow> string \<Rightarrow> string \<Rightarrow>
     ('w, response) prog" where
  "dkv_setFile X files servers filePath version =
     try_catch
       (bind (lift_exn (readFileContent files filePath)) (\<lambda>fileContent.
        bind (lift_exn (dump X (obj [(''version_number'', JStr version),
                                     (''data'', JStr fileContent)]))) (\<lambda>v.
        bind (dkv_set X servers filePath v) (\<lambda>setResp.
        ret (file_response setResp)))))
       (\<lambda>e. ret (mk_response [] (what X e) False))"

definition dkv_getFile ::
  "('w, 'x) net_ext_scheme \<Rightarrow> string list \<Rightarrow> string \<Rightarrow> ('w, response) prog" where
  "dkv_getFile X servers filePath =
     bind (dkv_get X servers filePath) (\<lambda>getResp.
       if resp_success getResp then
         try_catch
           (bind (lift_exn (parse X (resp_value getResp))) (\<lambda>j.
            (case json_pretty X j of
               None \<Rightarrow> throw Json_type_error
             | Some s \<Rightarrow> ret (mk_response s [] True))))
           (\<lambda>e. ret (mk_response [] (what X e) False))
       else ret (mk_response [] (resp_err getResp) False))"

definition dkv_deleteFile ::
  "('w, 'x) net_ext_scheme \<Rightarrow> string list \<Rightarrow> string \<Rightarrow> ('w, response) prog" where
  "dkv_deleteFile X servers filePath =
     bind (dkv_del X servers filePath) (\<lambda>delResp. ret (file_response delResp))"

lemmas dkv_defs = dkv_sendRequest_def dkv_redirectToLeader_def dkv_tryServers_def

section \<open>Trying the servers of a group\<close>

text \<open>
  If every server of a group answers a request with the same successful response, and asking
  leaves the network state in the same state, then the order of the shuffle is irrelevant.
\<close>

lemma tryServers_uniform:
  assumes "shuffled X servers w = (ss, w)" and "ss \<noteq> []" and "set ss \<subseteq> set servers"
    and "\<And>s. s \<in> set servers \<Longrightarrow>
           redirectToLeader X (s @ ''/request'') reqType message w = Ret res w1"
    and "resp_success res"
  shows "tryServers X servers reqType message w = Ret res w1"
proof -
  from assms(2) obtain s rest where ss: "ss = s # rest" by (cases ss) auto
  with assms(3) have "s \<in> set servers" by auto
  with assms(4) have "redirectToLeader X (s @ ''/request'') reqType message w = Ret res w1" .
  with assms(1,5) ss show ?thesis by (simp add: tryServers_def)
qed

lemma try_each_first_success:
  assumes "\<And>s w. s \<in> set bad \<Longrightarrow>
       \<exists>r. redirectToLeader X (s @ ''/request'') reqType message w = Ret r w \<and> \<not> resp_success r"
    and "redirectToLeader X (s @ ''/request'') reqType message w = Ret res w1"
    and "resp_success res"
  shows "try_each X reqType message (bad @ s # rest) final w = Ret res w1"
  using assms(1)
proof (induction bad arbitrary: final)
  case Nil
  with assms(2,3) show ?case by simp
next
  case (Cons b bad)
  from Cons.prems [of b w] obtain r where
    r: "redirectToLeader X (b @ ''/request'') reqType message w = Ret r w" "\<not> resp_success r"
    by auto
  have "try_each X reqType message (bad @ s # rest) r w = Ret res w1"
    by (rule Cons.IH) (use Cons.prems in auto)
  with r show ?case by simp
qed

end
