(* ===== verification/Kv_Node.thy ===== *)
theory Kv_Node
  imports Kv_Lib
begin

text \<open>
  The other end of the key-value library: the request handlers of a storage node
  (\<open>value_get\<close>, \<open>value_put\<close> of \<open>src/CODE/src/meta_blockserver/server.py\<close> with
  \<open>handle_get\<close>, \<open>handle_put\<close>, \<open>commit\<close> of \<open>node.py\<close>) and a cluster of
  such nodes behind libcurl.  Whether the followers confirm a log entry in time is the field
  \<open>quorum\<close> of the cluster; elections and the replication threads are those of
  \<open>Raft_Node\<close>, and here a role does not change during a request.  An exception in
  \<open>commit\<close> leaves the lock of \<open>handle_put\<close> held; what then becomes of later writes is
  in \<open>Raft_Node\<close> (\<open>busy\<close>), while this theory speaks of a node whose lock is free.  The
  last part states what a store promises (locale \<open>kv_store\<close>) and proves what any client of such
  a store can rely on.
\<close>

section \<open>Nodes\<close>

datatype role = FOLLOWER | CANDIDATE | LEADER

text \<open>
  \<open>leader\<close> is an attribute that does not exist (\<open>None\<close>) before the first heartbeat.
  \<open>DB\<close> is a dictionary, whose keys are the values \<open>py_key\<close> gives.
\<close>

record node =
  status :: role
  leader :: "string option"
  DB :: "json \<rightharpoonup> json"
  log :: "json list"
  commitIdx :: nat
  staged :: "json option"

text \<open>
  The handlers work on the parsed request; \<open>None\<close> is an exception, which Flask turns into
  status 500.
\<close>

definition py_item :: "json \<Rightarrow> string \<Rightarrow> json option" where
  "py_item j k = (case j of JObj m \<Rightarrow> fmlookup m k | _ \<Rightarrow> None)"

definition py_set_item :: "json \<Rightarrow> string \<Rightarrow> json \<Rightarrow> json" where
  "py_set_item j k v = (case j of JObj m \<Rightarrow> JObj (fmupd k v m) | _ \<Rightarrow> j)"

text \<open>
  A value as the key of a dictionary: lists and dictionaries are not hashable, and numbers and truth
  values are one key when they are equal.  A floating-point number has the text Python prints for it;
  one that is printed without an exponent and is integral is the key of that integer.
\<close>

definition float_key :: "string \<Rightarrow> json" where
  "float_key f =
     (let m = take (length f - 2) f;
          negative = (m \<noteq> [] \<and> hd m = CHR ''-'');
          ds = (if negative then tl m else m);
          v = int (digits_value ds)
      in if drop (length f - 2) f = ''.0'' \<and> ds \<noteq> [] \<and> list_all is_digit ds
         then JNum (if negative then - v else v) else JFloat f)"

definition py_key :: "json \<Rightarrow> json option" where
  "py_key j = (case j of
       JNull \<Rightarrow> Some JNull
     | JBool b \<Rightarrow> Some (JNum (if b then 1 else 0))
     | JNum i \<Rightarrow> Some (JNum i)
     | JFloat f \<Rightarrow> Some (float_key f)
     | JStr s \<Rightarrow> Some (JStr s)
     | JArr js \<Rightarrow> None
     | JObj m \<Rightarrow> None)"

text \<open>\<open>None\<close> in Python is \<open>null\<close> in a message and false in a condition.\<close>

definition py_value :: "json \<Rightarrow> json option" where
  "py_value j = (if j = JNull then None else Some j)"

text \<open>The text of a floating-point number denotes zero when its mantissa has no other digit.\<close>

definition float_nonzero :: "string \<Rightarrow> bool" where
  "float_nonzero s \<longleftrightarrow>
     (\<exists>c \<in> set (takeWhile (\<lambda>c. c \<noteq> CHR ''e'' \<and> c \<noteq> CHR ''E'') s). is_digit c \<and> c \<noteq> CHR ''0'')"

definition truthy :: "json \<Rightarrow> bool" where
  "truthy j = (case j of
       JNull \<Rightarrow> False
     | JBool b \<Rightarrow> b
     | JNum i \<Rightarrow> i \<noteq> 0
     | JFloat f \<Rightarrow> float_nonzero f
     | JStr s \<Rightarrow> s \<noteq> []
     | JArr js \<Rightarrow> js \<noteq> []
     | JObj m \<Rightarrow> m \<noteq> fmempty)"

definition handle_get :: "node \<Rightarrow> json \<Rightarrow> json option option" where
  "handle_get n payload =
     (case Option.bind (py_item payload ''key'') py_key of
        None \<Rightarrow> None
      | Some key \<Rightarrow>
          (case DB n key of
             Some v \<Rightarrow> Some (Some (py_set_item payload ''value'' v))
           | None \<Rightarrow> Some None))"

text \<open>
  The index and the log change before the entry is looked at, so they have changed when an exception
  (\<open>False\<close>) comes.
\<close>

definition commit :: "'a node_scheme \<Rightarrow> bool \<times> 'a node_scheme" where
  "commit n =
     (let e = (case staged n of None \<Rightarrow> JNull | Some p \<Rightarrow> p);
          n1 = n\<lparr>commitIdx := commitIdx n + 1, log := log n @ [e]\<rparr>
      in case (Option.bind (py_item e ''key'') py_key, py_item e ''value'') of
           (Some key, Some v) \<Rightarrow> (True, n1\<lparr>DB := (DB n)(key \<mapsto> v), staged := None\<rparr>)
         | _ \<Rightarrow> (False, n1))"

definition handle_put :: "bool \<Rightarrow> node \<Rightarrow> json \<Rightarrow> bool option \<times> node" where
  "handle_put confirmed n payload =
     (let n1 = n\<lparr>staged := py_value payload\<rparr>
      in if confirmed then (let (ok, n2) = commit n1 in (if ok then Some True else None, n2))
         else (Some False, n1))"

text \<open>The payload of a reply that redirects to the leader: it must be a dictionary, and the leader known.\<close>

definition redirect_payload :: "node \<Rightarrow> json \<Rightarrow> json option" where
  "redirect_payload n payload =
     (case (payload, leader n) of
        (JObj m, Some l) \<Rightarrow> Some (JObj (fmupd ''message'' (JStr l) m))
      | _ \<Rightarrow> None)"

definition value_get :: "node \<Rightarrow> json \<Rightarrow> json option" where
  "value_get n req =
     (case py_item req ''payload'' of
        None \<Rightarrow> None
      | Some payload \<Rightarrow>
          (case status n of
             LEADER \<Rightarrow>
               (case handle_get n payload of
                  None \<Rightarrow> None
                | Some (Some result) \<Rightarrow>
                    Some (obj [(''code'', JStr ''success''), (''payload'', result)])
                | Some None \<Rightarrow> Some (obj [(''code'', JStr ''fail''), (''payload'', payload)]))
           | FOLLOWER \<Rightarrow>
               map_option (\<lambda>p. obj [(''code'', JStr ''fail''), (''payload'', p)]) (redirect_payload n payload)
           | CANDIDATE \<Rightarrow> Some (obj [(''code'', JStr ''fail''), (''payload'', payload)])))"

text \<open>The reply, or the exception, and the node afterwards.\<close>

definition value_put :: "bool \<Rightarrow> node \<Rightarrow> json \<Rightarrow> json option \<times> node" where
  "value_put confirmed n req =
     (case py_item req ''payload'' of
        None \<Rightarrow> (None, n)
      | Some payload \<Rightarrow>
          (case status n of
             LEADER \<Rightarrow>
               (let (r, n1) = handle_put confirmed n payload
                in (map_option (\<lambda>result. obj [(''code'', JStr (if result then ''success'' else ''fail''))]) r, n1))
           | FOLLOWER \<Rightarrow>
               (map_option (\<lambda>p. obj [(''code'', JStr ''fail''), (''payload'', p)]) (redirect_payload n payload), n)
           | CANDIDATE \<Rightarrow> (Some (obj [(''code'', JStr ''fail'')]), n)))"

section \<open>A cluster behind libcurl\<close>

record cluster =
  nodes :: "string \<rightharpoonup> node"
  quorum :: bool

text \<open>
  Status 200 with the printed reply, as Flask's \<open>jsonify\<close> sends it; libcurl hands the body
  over in pieces of at most \<open>CURL_MAX_WRITE_SIZE\<close> = 16384 bytes.
\<close>

function curl_chunks :: "string \<Rightarrow> string list" where
  "curl_chunks s =
     (if length s \<le> 16384 then [s] else take 16384 s # curl_chunks (drop 16384 s))"
  by pat_completeness auto
termination by (relation "measure length") auto

declare curl_chunks.simps [simp del]

lemma read_buffer_curl_chunks [simp]: "read_buffer (curl_chunks s) = s"
proof -
  have "(\<forall>c \<in> set (curl_chunks s). length c < 2 ^ 64) \<and> concat (curl_chunks s) = s"
    by (induction s rule: curl_chunks.induct)
       (subst (1 2) curl_chunks.simps, auto simp: min_def)
  then show ?thesis by (simp add: read_buffer_concat)
qed

definition http_reply :: "('x) codec_scheme \<Rightarrow> json option \<Rightarrow> curl_result" where
  "http_reply X r =
     (case r of
        None \<Rightarrow> Curl_done 500 []
      | Some j \<Rightarrow> (case json_dump X j of None \<Rightarrow> Curl_done 500 [] | Some s \<Rightarrow> Curl_done 200 (curl_chunks s)))"

definition cluster_perform ::
  "('x) codec_scheme \<Rightarrow> string \<Rightarrow> string \<Rightarrow> string option \<Rightarrow> cluster \<Rightarrow> curl_result \<times> cluster" where
  "cluster_perform X url method body c =
     (let addr = take (length url - length ''/request'') url
      in case nodes c addr of
           None \<Rightarrow> (Curl_error ''Could not connect to server'', c)
         | Some n \<Rightarrow>
             (case Option.bind body (json_parse X) of
                None \<Rightarrow> (Curl_done 400 [], c)
              | Some req \<Rightarrow>
                  if method = ''PUT'' then
                    (let (r, n1) = value_put (quorum c) n req
                     in (http_reply X r, c\<lparr>nodes := (nodes c)(addr \<mapsto> n1)\<rparr>))
                  else (http_reply X (value_get n req), c)))"

text \<open>
  The library runs against such a cluster: handles are available, requests go to the nodes and the
  shuffle permutes.
\<close>

definition cluster_backed :: "(cluster, 'x) net_ext_scheme \<Rightarrow> bool" where
  "cluster_backed X \<longleftrightarrow>
     codec_total X \<and>
     (\<forall>c. curl_init X c = (True, c)) \<and>
     (\<forall>url method body c. curl_perform X url method body c = cluster_perform X url method body c) \<and>
     (\<forall>ss c. \<exists>ts. shuffled X ss c = (ts, c) \<and> set ts = set ss)"

text \<open>The leader of a group of servers, and a group all of whose members lead to it.\<close>

definition is_leader :: "'a cluster_scheme \<Rightarrow> string \<Rightarrow> bool" where
  "is_leader c s = (case nodes c s of Some n \<Rightarrow> status n = LEADER | None \<Rightarrow> False)"

definition leads_to :: "'a cluster_scheme \<Rightarrow> string \<Rightarrow> string \<Rightarrow> bool" where
  "leads_to c l s \<longleftrightarrow>
     s = l \<or> (case nodes c s of Some n \<Rightarrow> status n = FOLLOWER \<and> leader n = Some l | None \<Rightarrow> False)"

definition leader_of :: "'a cluster_scheme \<Rightarrow> string list \<Rightarrow> string option" where
  "leader_of c g = find (is_leader c) g"

definition group_ok :: "'a cluster_scheme \<Rightarrow> string list \<Rightarrow> bool" where
  "group_ok c g \<longleftrightarrow>
     (case leader_of c g of None \<Rightarrow> False | Some l \<Rightarrow> (\<forall>s \<in> set g. leads_to c l s))"

text \<open>What a group stores under a key: the deletion marker counts as nothing.\<close>

definition stored :: "'a cluster_scheme \<Rightarrow> string list \<Rightarrow> string \<Rightarrow> string option" where
  "stored c g k =
     (case leader_of c g of
        None \<Rightarrow> None
      | Some l \<Rightarrow>
          (case nodes c l of
             None \<Rightarrow> None
           | Some n \<Rightarrow>
               (case DB n (JStr k) of
                  Some (JStr v) \<Rightarrow> (if v = DELETE_VALUE then None else Some v)
                | _ \<Rightarrow> None)))"

text \<open>A dictionary whose keys are all strings.\<close>

definition string_db :: "(string \<rightharpoonup> json) \<Rightarrow> (json \<rightharpoonup> json)" where
  "string_db m = (\<lambda>k. case k of JStr s \<Rightarrow> m s | _ \<Rightarrow> None)"

lemma string_db_JStr [simp]: "string_db m (JStr s) = m s"
  by (simp add: string_db_def)

section \<open>One request to a node\<close>

lemma request_suffix [simp]:
  "take (length (s @ ''/request'') - length ''/request'') (s @ ''/request'') = s"
  by simp

lemma py_item_obj [simp]: "py_item (obj kvs) k = map_of kvs k"
  by (simp add: py_item_def obj_def fmlookup_of_list)

lemma py_item_JObj [simp]: "py_item (JObj m) k = fmlookup m k"
  by (simp add: py_item_def)

lemma py_set_item_obj [simp]:
  "py_set_item (obj kvs) k v = JObj (fmupd k v (fmap_of_list kvs))"
  by (simp add: py_set_item_def obj_def)

lemma redirect_payload_obj:
  "leader n = Some l \<Longrightarrow>
     redirect_payload n (obj kvs) = Some (py_set_item (obj kvs) ''message'' (JStr l))"
  by (simp add: redirect_payload_def obj_def py_set_item_def)

lemma py_key_JStr [simp]: "py_key (JStr s) = Some (JStr s)"
  by (simp add: py_key_def)

lemma cluster_backedD:
  assumes "cluster_backed X"
  shows "codec_total X" "codec_ok X" "curl_init X c = (True, c)"
    "curl_perform X url method body c = cluster_perform X url method body c"
    "json_dump X j = Some (text_of X j)" "json_parse X (text_of X j) = Some j"
  using assms by (auto simp: cluster_backed_def codec_total_dump codec_total_parse codec_total_ok)

lemma cluster_shuffled:
  assumes "cluster_backed X"
  obtains ts where "shuffled X ss c = (ts, c)" and "set ts = set ss"
  using assms unfolding cluster_backed_def by metis

text \<open>A node that answers request \<open>m\<close> with reply \<open>r\<close>: what the library sees.\<close>

lemma send_get:
  assumes X: "cluster_backed X" and n: "nodes c s = Some n" and r: "value_get n m = Some r"
  shows "sendRequest X (s @ ''/request'') ''get'' m c = Ret (mk_response (text_of X r) [] True) c"
  using n r cluster_backedD [OF X]
  by (simp add: sendRequest_def request_method_def request_body_def cluster_perform_def Let_def
                http_reply_def)

lemma send_put:
  assumes X: "cluster_backed X" and n: "nodes c s = Some n"
    and r: "value_put (quorum c) n m = (Some r, n1)"
  shows "sendRequest X (s @ ''/request'') ''put'' m c
         = Ret (mk_response (text_of X r) [] True) (c\<lparr>nodes := (nodes c)(s \<mapsto> n1)\<rparr>)"
  using n r cluster_backedD [OF X]
  by (simp add: sendRequest_def request_method_def request_body_def cluster_perform_def Let_def
                http_reply_def)

lemma redirect_target_text [simp]:
  assumes "cluster_backed X"
  shows "redirect_target X (text_of X j) =
    (if contains j ''payload'' then
       (case subscript j ''payload'' of
          Inr p \<Rightarrow> (if contains p ''message'' then
                     (case subscript p ''message'' of Inr (JStr a) \<Rightarrow> Some a | _ \<Rightarrow> None)
                   else None)
        | Inl e \<Rightarrow> None)
     else None)"
  using cluster_backedD [OF assms]
  by (auto simp: redirect_target_def get_string_def split: sum.splits json.splits)

text \<open>
  A leader that replies without a \<open>message\<close> answers the request, whichever member of its group
  is asked: a follower redirects to it once.
\<close>

definition get_request :: "string \<Rightarrow> json" where
  "get_request key = obj [(''type'', JStr ''get''), (''payload'', obj [(''key'', JStr key)])]"

definition put_request :: "string \<Rightarrow> string \<Rightarrow> json" where
  "put_request key val =
     obj [(''type'', JStr ''put''),
          (''payload'', obj [(''key'', JStr key), (''value'', JStr val)])]"

lemma follower_get:
  assumes X: "cluster_backed X" and n: "nodes c s = Some n" "status n = FOLLOWER" "leader n = Some l"
  shows "redirectToLeader X (s @ ''/request'') ''get'' (get_request k) c
         = redirectToLeader X (l @ ''/request'') ''get'' (get_request k) c"
proof -
  let ?r = "obj [(''code'', JStr ''fail''),
     (''payload'', py_set_item (obj [(''key'', JStr k)]) ''message'' (JStr l))]"
  have "value_get n (get_request k) = Some ?r"
    using n by (simp add: value_get_def get_request_def redirect_payload_obj del: py_set_item_obj)
  from send_get [OF X n(1) this] show ?thesis
    by (rule redirect_loop_follow) (simp_all add: X)
qed

lemma follower_put:
  assumes X: "cluster_backed X" and n: "nodes c s = Some n" "status n = FOLLOWER" "leader n = Some l"
  shows "redirectToLeader X (s @ ''/request'') ''put'' (put_request k v) c
         = redirectToLeader X (l @ ''/request'') ''put'' (put_request k v) c"
proof -
  let ?r = "obj [(''code'', JStr ''fail''),
     (''payload'', py_set_item (obj [(''key'', JStr k), (''value'', JStr v)])
                     ''message'' (JStr l))]"
  have "value_put (quorum c) n (put_request k v) = (Some ?r, n)"
    using n by (simp add: value_put_def put_request_def redirect_payload_obj del: py_set_item_obj)
  from send_put [OF X n(1) this] have
    "sendRequest X (s @ ''/request'') ''put'' (put_request k v) c
     = Ret (mk_response (text_of X ?r) [] True) c"
    using n by (simp add: fun_upd_idem)
  then show ?thesis
    by (rule redirect_loop_follow) (simp_all add: X)
qed

section \<open>Requests to a group\<close>

lemma leader_ofD:
  assumes "leader_of c g = Some l"
  obtains n where "l \<in> set g" and "nodes c l = Some n" and "status n = LEADER"
  using assms by (auto simp: leader_of_def find_Some_iff is_leader_def in_set_conv_nth
                       split: option.splits)

lemma group_okE:
  assumes "group_ok c g"
  obtains l n where "leader_of c g = Some l" and "l \<in> set g" and "nodes c l = Some n"
    and "status n = LEADER" and "\<And>s. s \<in> set g \<Longrightarrow> leads_to c l s"
  using assms by (auto simp: group_ok_def split: option.splits elim: leader_ofD)

text \<open>The reply of the leader to a \<open>get\<close>.\<close>

definition leader_reply :: "node \<Rightarrow> string \<Rightarrow> json" where
  "leader_reply n k =
     (case DB n (JStr k) of
        Some v \<Rightarrow> obj [(''code'', JStr ''success''),
                       (''payload'', JObj (fmupd ''value'' v (fmap_of_list [(''key'', JStr k)])))]
      | None \<Rightarrow> obj [(''code'', JStr ''fail''), (''payload'', obj [(''key'', JStr k)])])"

lemma value_get_leader:
  "status n = LEADER \<Longrightarrow> value_get n (get_request k) = Some (leader_reply n k)"
  by (simp add: value_get_def get_request_def handle_get_def py_key_def leader_reply_def split: option.split)

lemma leader_reply_no_message:
  "cluster_backed X \<Longrightarrow> redirect_target X (text_of X (leader_reply n k)) = None"
  by (simp add: leader_reply_def split: option.split)

lemma leader_get:
  assumes X: "cluster_backed X" and n: "nodes c l = Some n" "status n = LEADER"
  shows "redirectToLeader X (l @ ''/request'') ''get'' (get_request k) c
         = Ret (mk_response (text_of X (leader_reply n k)) [] True) c"
  by (rule redirect_loop_final [OF send_get [OF X n(1) value_get_leader [OF n(2)]]])
     (simp add: leader_reply_no_message [OF X])

lemma member_get:
  assumes X: "cluster_backed X" and n: "nodes c l = Some n" "status n = LEADER"
    and s: "leads_to c l s"
  shows "redirectToLeader X (s @ ''/request'') ''get'' (get_request k) c
         = Ret (mk_response (text_of X (leader_reply n k)) [] True) c"
proof (cases "s = l")
  case True
  with leader_get [OF X n] show ?thesis by simp
next
  case False
  with s obtain m where m: "nodes c s = Some m" "status m = FOLLOWER" "leader m = Some l"
    by (auto simp: leads_to_def split: option.splits)
  from follower_get [OF X m] leader_get [OF X n] show ?thesis by simp
qed

lemma group_get:
  assumes X: "cluster_backed X" and g: "group_ok c g"
    and l: "leader_of c g = Some l" and n: "nodes c l = Some n"
  shows "tryServers X g ''get'' (get_request k) c
         = Ret (mk_response (text_of X (leader_reply n k)) [] True) c"
proof -
  from g obtain l' n' where "leader_of c g = Some l'" and mem: "l' \<in> set g"
    and "nodes c l' = Some n'" and st: "status n' = LEADER"
    and all: "\<And>s. s \<in> set g \<Longrightarrow> leads_to c l' s"
    by (rule group_okE) blast
  with l n have eq: "l' = l" "n' = n" by auto
  obtain ss where ss: "shuffled X g c = (ss, c)" "set ss = set g"
    by (rule cluster_shuffled [OF X])
  show ?thesis
  proof (rule tryServers_uniform [OF ss(1)])
    show "ss \<noteq> []" using ss(2) mem by auto
    show "set ss \<subseteq> set g" using ss(2) by simp
    show "redirectToLeader X (s @ ''/request'') ''get'' (get_request k) c
          = Ret (mk_response (text_of X (leader_reply n k)) [] True) c" if "s \<in> set g" for s
      by (rule member_get [OF X n]) (use st all that eq in auto)
  qed simp
qed

lemma dkv_get_request:
  "dkv_get X g k = bind (tryServers X g ''get'' (get_request k)) (\<lambda>res.
     if resp_success res then
       (case dkv_get_reply X res of
          Inl e \<Rightarrow> ret (mk_response [] (''JSON parsing error: '' @ what X e) False)
        | Inr r \<Rightarrow> ret r)
     else ret res)"
  by (simp add: dkv_get_def get_request_def dkv_defs Let_def)

lemma dkv_get_stored:
  assumes X: "cluster_backed X" and g: "group_ok c g" and v: "stored c g k = Some v"
  shows "dkv_get X g k c = Ret (mk_response v [] True) c"
proof -
  from v obtain l n where l: "leader_of c g = Some l" and n: "nodes c l = Some n"
    and db: "DB n (JStr k) = Some (JStr v)" and nd: "v \<noteq> DELETE_VALUE"
    by (auto simp: stored_def split: option.splits json.splits if_splits)
  from group_get [OF X g l n] show ?thesis
    using db nd cluster_backedD [OF X]
    by (simp add: dkv_get_request dkv_get_reply_def leader_reply_def)
qed

lemma dkv_get_not_stored:
  assumes X: "cluster_backed X" and g: "group_ok c g" and v: "stored c g k = None"
  shows "\<exists>r. dkv_get X g k c = Ret r c \<and> \<not> resp_success r"
proof -
  from g obtain l n where l: "leader_of c g = Some l" and n: "nodes c l = Some n"
    by (rule group_okE) blast
  have db: "DB n (JStr k) = None \<or> (\<exists>j. DB n (JStr k) = Some j \<and> (\<forall>u. j = JStr u \<longrightarrow> u = DELETE_VALUE))"
    using v l n by (auto simp: stored_def split: option.splits json.splits if_splits)
  from group_get [OF X g l n] show ?thesis
    using db cluster_backedD [OF X]
    by (auto simp: dkv_get_request dkv_get_reply_def leader_reply_def key_missing_def get_string_def
             split: json.splits)
qed

section \<open>Writing to a group\<close>

text \<open>The leader's state after a write that a majority confirmed, and after one it did not.\<close>

definition leader_after_put :: "bool \<Rightarrow> node \<Rightarrow> string \<Rightarrow> string \<Rightarrow> node" where
  "leader_after_put confirmed n k v =
     (let p = obj [(''key'', JStr k), (''value'', JStr v)]
      in if confirmed
         then n\<lparr>commitIdx := commitIdx n + 1, log := log n @ [p], DB := (DB n)(JStr k \<mapsto> JStr v),
                staged := None\<rparr>
         else n\<lparr>staged := Some p\<rparr>)"

lemma value_put_leader:
  assumes "status n = LEADER"
  shows "value_put confirmed n (put_request k v)
         = (Some (obj [(''code'', JStr (if confirmed then ''success'' else ''fail''))]),
                 leader_after_put confirmed n k v)"
  using assms
  by (simp add: value_put_def put_request_def handle_put_def commit_def py_key_def py_value_def leader_after_put_def obj_def Let_def)

lemma leader_after_put_simps [simp]:
  "status (leader_after_put b n k v) = status n"
  "leader (leader_after_put b n k v) = leader n"
  "DB (leader_after_put b n k v) = (if b then (DB n)(JStr k \<mapsto> JStr v) else DB n)"
  by (simp_all add: leader_after_put_def Let_def)

lemma member_put:
  assumes X: "cluster_backed X" and n: "nodes c l = Some n" "status n = LEADER"
    and s: "leads_to c l s"
  shows "redirectToLeader X (s @ ''/request'') ''put'' (put_request k v) c
         = Ret (mk_response (text_of X (obj [(''code'',
                   JStr (if quorum c then ''success'' else ''fail''))])) [] True)
               (c\<lparr>nodes := (nodes c)(l \<mapsto> leader_after_put (quorum c) n k v)\<rparr>)"
    (is "_ = ?out")
proof -
  from send_put [OF X n(1) value_put_leader [OF n(2)]]
  have at_leader: "redirectToLeader X (l @ ''/request'') ''put'' (put_request k v) c = ?out"
    by (rule redirect_loop_final) (simp add: X)
  show ?thesis
  proof (cases "s = l")
    case True
    with at_leader show ?thesis by simp
  next
    case False
    with s obtain m where m: "nodes c s = Some m" "status m = FOLLOWER" "leader m = Some l"
      by (auto simp: leads_to_def split: option.splits)
    from follower_put [OF X m] at_leader show ?thesis by simp
  qed
qed

lemma dkv_set_group:
  assumes X: "cluster_backed X" and g: "group_ok c g"
  obtains l n r where "leader_of c g = Some l" and "nodes c l = Some n" and "status n = LEADER"
    and "dkv_set X g k v c
         = Ret (mk_response r [] True)
               (c\<lparr>nodes := (nodes c)(l \<mapsto> leader_after_put (quorum c) n k v)\<rparr>)"
proof -
  from g obtain l n where l: "leader_of c g = Some l" and mem: "l \<in> set g"
    and n: "nodes c l = Some n" and st: "status n = LEADER"
    and all: "\<And>s. s \<in> set g \<Longrightarrow> leads_to c l s"
    by (rule group_okE) blast
  let ?r = "text_of X (obj [(''code'', JStr (if quorum c then ''success'' else ''fail''))])"
  obtain ss where ss: "shuffled X g c = (ss, c)" "set ss = set g"
    by (rule cluster_shuffled [OF X])
  have "tryServers X g ''put'' (put_request k v) c
        = Ret (mk_response ?r [] True)
              (c\<lparr>nodes := (nodes c)(l \<mapsto> leader_after_put (quorum c) n k v)\<rparr>)"
  proof (rule tryServers_uniform [OF ss(1)])
    show "ss \<noteq> []" using ss(2) mem by auto
    show "set ss \<subseteq> set g" using ss(2) by simp
  qed (use member_put [OF X n st] all in auto)
  then have "dkv_set X g k v c
        = Ret (mk_response ?r [] True)
              (c\<lparr>nodes := (nodes c)(l \<mapsto> leader_after_put (quorum c) n k v)\<rparr>)"
    by (simp add: dkv_set_def put_request_def dkv_defs Let_def)
  with l n st show ?thesis by (rule that)
qed

text \<open>A write to one node keeps every role, so it keeps leaders and groups.\<close>

lemma leader_of_write:
  assumes "nodes c l = Some n" and "status m = status n"
  shows "leader_of (c\<lparr>nodes := (nodes c)(l \<mapsto> m)\<rparr>) g = leader_of c g"
proof -
  have "is_leader (c\<lparr>nodes := (nodes c)(l \<mapsto> m)\<rparr>) = is_leader c"
    using assms by (auto simp: is_leader_def fun_eq_iff)
  then show ?thesis by (simp add: leader_of_def)
qed

lemma group_ok_write:
  assumes "nodes c l = Some n" and "status m = status n" and "leader m = leader n"
  shows "group_ok (c\<lparr>nodes := (nodes c)(l \<mapsto> m)\<rparr>) g = group_ok c g"
proof -
  have "leads_to (c\<lparr>nodes := (nodes c)(l \<mapsto> m)\<rparr>) = leads_to c"
    using assms by (auto simp: leads_to_def fun_eq_iff)
  then show ?thesis
    by (simp add: group_ok_def leader_of_write [OF assms(1,2)] split: option.split)
qed

lemma stored_write_other:
  assumes "nodes c l = Some n" and "status m = status n" and "DB m (JStr k') = DB n (JStr k')"
  shows "stored (c\<lparr>nodes := (nodes c)(l \<mapsto> m)\<rparr>) g k' = stored c g k'"
  using assms by (auto simp: stored_def leader_of_write split: option.split)

lemma stored_write_leader:
  assumes "nodes c l = Some n" and "status m = status n" and "leader_of c g = Some l"
    and "DB m (JStr k) = Some (JStr v)"
  shows "stored (c\<lparr>nodes := (nodes c)(l \<mapsto> m)\<rparr>) g k
         = (if v = DELETE_VALUE then None else Some v)"
  using assms by (simp add: stored_def leader_of_write)

section \<open>What a store promises\<close>

text \<open>
  The interface the metadata server relies on: reads see the current binding and change nothing,
  writes bind one key, and the deletion marker unbinds it.
\<close>

locale kv_store =
  fixes get :: "string \<Rightarrow> ('s, response) prog"
    and put :: "string \<Rightarrow> string \<Rightarrow> ('s, response) prog"
    and view :: "'s \<Rightarrow> string \<rightharpoonup> string"
    and ok :: "'s \<Rightarrow> bool"
  assumes get_Some: "ok s \<Longrightarrow> view s k = Some v \<Longrightarrow> get k s = Ret (mk_response v [] True) s"
    and get_None: "ok s \<Longrightarrow> view s k = None \<Longrightarrow> \<exists>r. get k s = Ret r s \<and> \<not> resp_success r"
    and put_ok: "ok s \<Longrightarrow> \<exists>r t. put k v s = Ret r t \<and> resp_success r \<and> ok t \<and>
                   view t = (view s)(k := if v = DELETE_VALUE then None else Some v)"
begin

lemma get_returns: "ok s \<Longrightarrow> \<exists>r. get k s = Ret r s \<and> (resp_success r \<longleftrightarrow> view s k \<noteq> None)"
  by (cases "view s k") (auto dest: get_Some get_None)

text \<open>Reading back a write, with any other key unaffected.\<close>

lemma put_then_get:
  assumes "ok s" and "v \<noteq> DELETE_VALUE" and "put k v s = Ret r t"
  shows "get k t = Ret (mk_response v [] True) t"
  using put_ok [OF assms(1), of k v] assms(2,3) by (auto intro!: get_Some)

lemma delete_then_get:
  assumes "ok s" and "put k DELETE_VALUE s = Ret r t"
  shows "\<exists>r. get k t = Ret r t \<and> \<not> resp_success r"
  using put_ok [OF assms(1), of k DELETE_VALUE] assms(2) by (auto intro!: get_None)

lemma put_get_other:
  assumes "ok s" and "put k v s = Ret r t" and "k' \<noteq> k" and "view s k' = Some u"
  shows "get k' t = Ret (mk_response u [] True) t"
  using put_ok [OF assms(1), of k v] assms(2-4) by (auto intro!: get_Some)

lemma putE:
  assumes "ok s"
  obtains r t where "put k v s = Ret r t" and "resp_success r" and "ok t"
    and "view t = (view s)(k := if v = DELETE_VALUE then None else Some v)"
  using put_ok [OF assms, of k v] by blast

lemma get_NoneE:
  assumes "ok s" and "view s k = None"
  obtains r where "get k s = Ret r s" and "\<not> resp_success r"
  using get_None [OF assms] by blast

text \<open>A store that started as a good one stays one, whatever is written.\<close>

lemma puts_ok:
  "ok s \<Longrightarrow> outcome_all ok (for_each kvs (\<lambda>(k, v). bind (put k v) (\<lambda>_. ret ())) s)"
proof (induction kvs arbitrary: s)
  case (Cons kv kvs)
  obtain k v where kv: "kv = (k, v)" by (cases kv)
  from Cons.prems obtain r t where "put k v s = Ret r t" "ok t" by (rule putE)
  with Cons.IH [of t] kv show ?case by simp
qed simp

end

end
