(* ===== verification/Database_Handler.thy ===== *)
theory Database_Handler
  imports Authentication Kv_Node
begin

text \<open>
  The metadata server's state and its access to the store,
  \<open>src/CODE/src/metaserver/database_handler/database_handler.cpp\<close>: a key is hashed to a
  group of storage servers and the key-value library talks to that group.  Over a cluster in good
  order (\<open>store_ok\<close>) this is a store in the sense of the interface
  \<open>kv_store\<close>.
\<close>

record 'w mstate =
  init :: initiation
  deletion_queue :: "string list"
  outbox :: "(server \<times> json) list"
  net :: 'w

definition on_net :: "('w, 'a) prog \<Rightarrow> ('w mstate, 'a) prog" where
  "on_net m = zoom net (\<lambda>w s. s\<lparr>net := w\<rparr>) m"

text \<open>The index is taken modulo the number of groups; without groups that divides by zero.\<close>

definition group_of :: "('w, 'x) meta_ext_scheme \<Rightarrow> string list list \<Rightarrow> string \<Rightarrow> string list" where
  "group_of X groups key = groups ! (hash X key mod length groups)"

definition select_metastorage_group ::
  "('w, 'x) meta_ext_scheme \<Rightarrow> string \<Rightarrow> ('w mstate, string list) prog" where
  "select_metastorage_group X key =
     bind (gets (\<lambda>s. metastorage_groups (init s))) (\<lambda>groups.
       if groups = [] then undef else ret (group_of X groups key))"

definition select_block_server_group ::
  "('w, 'x) meta_ext_scheme \<Rightarrow> string \<Rightarrow> ('w mstate, string list) prog" where
  "select_block_server_group X key =
     bind (gets (\<lambda>s. blockserver_lists (init s))) (\<lambda>groups.
       if groups = [] then undef else ret (group_of X groups key))"

definition get_directory_metadata ::
  "('w, 'x) meta_ext_scheme \<Rightarrow> string \<Rightarrow> ('w mstate, response) prog" where
  "get_directory_metadata X key =
     bind (select_metastorage_group X key) (\<lambda>servers. on_net (dkv_get X servers key))"

definition put_value ::
  "('w, 'x) meta_ext_scheme \<Rightarrow> string \<Rightarrow> string \<Rightarrow> ('w mstate, response) prog" where
  "put_value X key val =
     bind (select_metastorage_group X key) (\<lambda>servers. on_net (dkv_set X servers key val))"

definition set_directory_metadata ::
  "('w, 'x) meta_ext_scheme \<Rightarrow> string \<Rightarrow> json \<Rightarrow> ('w mstate, response) prog" where
  "set_directory_metadata X key metadata =
     bind (lift_exn (dump X metadata)) (\<lambda>val. put_value X key val)"

definition delete_directory_metadata ::
  "('w, 'x) meta_ext_scheme \<Rightarrow> string \<Rightarrow> ('w mstate, response) prog" where
  "delete_directory_metadata X key =
     bind (select_metastorage_group X key) (\<lambda>servers. on_net (dkv_del X servers key))"

definition delete_blockdata ::
  "('w, 'x) meta_ext_scheme \<Rightarrow> string \<Rightarrow> ('w mstate, response) prog" where
  "delete_blockdata X key =
     bind (select_block_server_group X key) (\<lambda>servers. on_net (dkv_del X servers key))"

section \<open>The store the metadata server sees\<close>

definition meta_view ::
  "(cluster, 'x) meta_ext_scheme \<Rightarrow> cluster mstate \<Rightarrow> string \<rightharpoonup> string" where
  "meta_view X s = (\<lambda>k. stored (net s) (group_of X (metastorage_groups (init s)) k) k)"

definition store_ok :: "(cluster, 'x) meta_ext_scheme \<Rightarrow> cluster mstate \<Rightarrow> bool" where
  "store_ok X s \<longleftrightarrow>
     cluster_backed X \<and> quorum (net s) \<and> metastorage_groups (init s) \<noteq> [] \<and>
     (\<forall>g \<in> set (metastorage_groups (init s)). group_ok (net s) g)"

lemma store_ok_group:
  assumes "store_ok X s"
  shows "group_ok (net s) (group_of X (metastorage_groups (init s)) k)"
proof -
  have "group_of X (metastorage_groups (init s)) k \<in> set (metastorage_groups (init s))"
    using assms by (auto simp: group_of_def store_ok_def)
  with assms show ?thesis by (simp add: store_ok_def)
qed

lemma get_directory_metadata_stored:
  assumes ok: "store_ok X s" and v: "meta_view X s k = Some v"
  shows "get_directory_metadata X k s = Ret (mk_response v [] True) s"
proof -
  have X: "cluster_backed X" and ne: "metastorage_groups (init s) \<noteq> []"
    using ok by (auto simp: store_ok_def)
  have "dkv_get X (group_of X (metastorage_groups (init s)) k) k (net s)
        = Ret (mk_response v [] True) (net s)"
    by (rule dkv_get_stored [OF X store_ok_group [OF ok]]) (use v in \<open>simp add: meta_view_def\<close>)
  with ne show ?thesis
    by (simp add: get_directory_metadata_def select_metastorage_group_def on_net_def)
qed

lemma get_directory_metadata_absent:
  assumes ok: "store_ok X s" and v: "meta_view X s k = None"
  shows "\<exists>r. get_directory_metadata X k s = Ret r s \<and> \<not> resp_success r"
proof -
  have X: "cluster_backed X" and ne: "metastorage_groups (init s) \<noteq> []"
    using ok by (auto simp: store_ok_def)
  from dkv_get_not_stored [OF X store_ok_group [OF ok], of k] v
  obtain r where "dkv_get X (group_of X (metastorage_groups (init s)) k) k (net s)
        = Ret r (net s)" and "\<not> resp_success r"
    by (auto simp: meta_view_def)
  with ne show ?thesis
    by (simp add: get_directory_metadata_def select_metastorage_group_def on_net_def)
qed

lemma put_value_stored:
  assumes ok: "store_ok X s"
  shows "\<exists>r c. put_value X k v s = Ret r (s\<lparr>net := c\<rparr>) \<and> resp_success r \<and>
     store_ok X (s\<lparr>net := c\<rparr>) \<and>
     meta_view X (s\<lparr>net := c\<rparr>) = (meta_view X s)(k := if v = DELETE_VALUE then None else Some v)"
proof -
  let ?gs = "metastorage_groups (init s)"
  have X: "cluster_backed X" and ne: "?gs \<noteq> []" and q: "quorum (net s)"
    and all: "\<forall>g \<in> set ?gs. group_ok (net s) g"
    using ok by (auto simp: store_ok_def)
  obtain l n r where l: "leader_of (net s) (group_of X ?gs k) = Some l"
    and n: "nodes (net s) l = Some n" "status n = LEADER"
    and eq: "dkv_set X (group_of X ?gs k) k v (net s) = Ret (mk_response r [] True)
      ((net s)\<lparr>nodes := (nodes (net s))(l \<mapsto> leader_after_put (quorum (net s)) n k v)\<rparr>)"
    by (rule dkv_set_group [OF X store_ok_group [OF ok]])
  let ?m = "leader_after_put (quorum (net s)) n k v"
  let ?c = "(net s)\<lparr>nodes := (nodes (net s))(l \<mapsto> ?m)\<rparr>"
  have run: "put_value X k v s = Ret (mk_response r [] True) (s\<lparr>net := ?c\<rparr>)"
    using ne eq by (simp add: put_value_def select_metastorage_group_def on_net_def)
  have good: "store_ok X (s\<lparr>net := ?c\<rparr>)"
    using X ne q all by (simp add: store_ok_def group_ok_write [OF n(1)])
  have at_k: "stored ?c (group_of X ?gs k) k = (if v = DELETE_VALUE then None else Some v)"
    by (rule stored_write_leader [OF n(1) _ l]) (simp_all add: q)
  have elsewhere: "stored ?c g k' = stored (net s) g k'" if "k' \<noteq> k" for g k'
    by (rule stored_write_other [OF n(1)]) (use that q in auto)
  have "meta_view X (s\<lparr>net := ?c\<rparr>) = (meta_view X s)(k := if v = DELETE_VALUE then None else Some v)"
    using at_k elsewhere by (auto simp: meta_view_def fun_eq_iff)
  with run good show ?thesis by (intro exI [of _ "mk_response r [] True"] exI [of _ ?c]) simp
qed

text \<open>The database handler is a store, for every choice of the libraries' behaviour.\<close>

interpretation meta_store: kv_store "get_directory_metadata X" "put_value X" "meta_view X" "store_ok X"
  for X :: "(cluster, 'x) meta_ext_scheme"
proof unfold_locales
  fix s k v
  assume "store_ok X s" and "meta_view X s k = Some v"
  then show "get_directory_metadata X k s = Ret (mk_response v [] True) s"
    by (rule get_directory_metadata_stored)
next
  fix s k
  assume "store_ok X s" and "meta_view X s k = None"
  then show "\<exists>r. get_directory_metadata X k s = Ret r s \<and> \<not> resp_success r"
    by (rule get_directory_metadata_absent)
next
  fix s k v
  assume "store_ok X s"
  then show "\<exists>r t. put_value X k v s = Ret r t \<and> resp_success r \<and> store_ok X t \<and>
      meta_view X t = (meta_view X s)(k := if v = DELETE_VALUE then None else Some v)"
    using put_value_stored by blast
qed

text \<open>
  The two writers in terms of the store.  The printed text of a value is never the deletion
  marker, since the marker is not JSON.
\<close>

definition marker_not_json :: "('x) codec_scheme \<Rightarrow> bool" where
  "marker_not_json X \<longleftrightarrow> json_parse X DELETE_VALUE = None"

lemma text_of_not_marker:
  "cluster_backed X \<Longrightarrow> marker_not_json X \<Longrightarrow> text_of X j \<noteq> DELETE_VALUE"
  using cluster_backedD(6) [of X j] by (auto simp: marker_not_json_def)

lemma set_directory_metadataE:
  assumes "store_ok X s" and "marker_not_json X"
  obtains r c where "set_directory_metadata X k j s = Ret r (s\<lparr>net := c\<rparr>)" and "resp_success r"
    and "store_ok X (s\<lparr>net := c\<rparr>)"
    and "meta_view X (s\<lparr>net := c\<rparr>) = (meta_view X s)(k \<mapsto> text_of X j)"
proof -
  have X: "cluster_backed X" using assms(1) by (simp add: store_ok_def)
  from put_value_stored [OF assms(1), of k "text_of X j"] text_of_not_marker [OF X assms(2), of j]
  obtain r c where "put_value X k (text_of X j) s = Ret r (s\<lparr>net := c\<rparr>)" "resp_success r"
    "store_ok X (s\<lparr>net := c\<rparr>)" "meta_view X (s\<lparr>net := c\<rparr>) = (meta_view X s)(k \<mapsto> text_of X j)"
    by auto
  with cluster_backedD(5) [OF X, of j] that show ?thesis
    by (simp add: set_directory_metadata_def)
qed

lemma delete_directory_metadataE:
  assumes "store_ok X s"
  obtains r c where "delete_directory_metadata X k s = Ret r (s\<lparr>net := c\<rparr>)" and "resp_success r"
    and "store_ok X (s\<lparr>net := c\<rparr>)"
    and "meta_view X (s\<lparr>net := c\<rparr>) = (meta_view X s)(k := None)"
proof -
  have "delete_directory_metadata X k = put_value X k DELETE_VALUE"
    by (simp add: delete_directory_metadata_def put_value_def dkv_del_def)
  with put_value_stored [OF assms, of k DELETE_VALUE] that show ?thesis by auto
qed

end
