(* ===== verification/Metaserver.thy ===== *)
theory Metaserver
  imports Database_Handler
begin

text \<open>
  The request handlers of the metadata server,
  \<open>src/CODE/src/metaserver/metadata_server_L1.cpp\<close>, branch by branch, and its routing table.
  A handler returns the response it leaves in \<open>res\<close>.
\<close>

definition user_key :: "string \<Rightarrow> string \<Rightarrow> string" where
  "user_key userID path = userID @ '':'' @ path"

text \<open>
  Stored metadata, unwrapped once when it is a string: the two ways to fail have their own
  responses.
\<close>

definition parse_parent :: "('x) codec_scheme \<Rightarrow> string \<Rightarrow> http_response + json" where
  "parse_parent X v =
     (case parse X v of
        Inl e \<Rightarrow> Inl (reply 500 (err ''Failed to parse parent directory metadata''))
      | Inr (JStr s) \<Rightarrow>
          (case parse X s of
             Inl e \<Rightarrow> Inl (reply 500 (err ''Failed to parse inner metadata''))
           | Inr j \<Rightarrow> Inr j)
      | Inr j \<Rightarrow> Inr j)"

definition notification :: "string \<Rightarrow> string \<Rightarrow> string \<Rightarrow> string \<Rightarrow> json" where
  "notification ty userID path device_id =
     obj [(''type'', JStr ty), (''user_id'', JStr userID), (''path'', JStr path),
          (''device_id'', JStr device_id)]"

text \<open>\<open>Initiation::broadcaster->broadcast(message)\<close>; the pointer is null before start-up.\<close>

definition broadcast :: "json \<Rightarrow> ('w mstate, unit) prog" where
  "broadcast message =
     bind (gets (\<lambda>s. broadcaster (init s))) (\<lambda>b.
       case b of
         None \<Rightarrow> undef
       | Some servers \<Rightarrow> modify (\<lambda>s. s\<lparr>outbox := outbox s @ broadcast_tasks servers message\<rparr>))"

definition authenticate :: "('w, 'x) meta_ext_scheme \<Rightarrow> http_request \<Rightarrow> ('w mstate, http_response + string) prog"
where
  "authenticate X req =
     gets (\<lambda>s. authenticate_request X (public_key (init s)) (time_now X (net s)) req)"

text \<open>The fallback of the handlers that check for an empty body after a rejection.\<close>

definition rejected :: "http_response \<Rightarrow> http_response" where
  "rejected res = (if res_body res = [] then reply 401 (err ''Authentication failed'') else res)"

definition internal_error :: http_response where
  "internal_error = reply 500 (err ''Internal server error'')"

definition dir_metadata :: "string \<Rightarrow> int \<Rightarrow> json" where
  "dir_metadata userID now =
     obj [(''owner'', JStr userID), (''timestamp'', JNum now),
          (''subdirectories'', JArr []), (''files'', JArr [])]"

definition file_metadata :: "string \<Rightarrow> int \<Rightarrow> string \<Rightarrow> string \<Rightarrow> json" where
  "file_metadata userID now parent_dir file_path =
     obj [(''owner'', JStr userID), (''timestamp'', JNum now), (''parent_dir'', JStr parent_dir),
          (''filename'', JStr file_path), (''size'', JNum 0), (''version'', JNum 1)]"

section \<open>create\_directory\<close>

definition create_directory_body ::
  "('w, 'x) meta_ext_scheme \<Rightarrow> string \<Rightarrow> http_request \<Rightarrow> ('w mstate, http_response) prog" where
  "create_directory_body X userID req =
     bind (lift_exn (parse X (req_body req))) (\<lambda>body_json.
     if \<not> contains body_json ''path'' then ret (reply 400 (err ''Missing path''))
     else if \<not> contains body_json ''device_id'' then ret (reply 400 (err ''Missing device_id''))
     else
     bind (lift_exn (string_at body_json ''device_id'')) (\<lambda>device_id.
     bind (lift_exn (string_at body_json ''path'')) (\<lambda>dir_id.
     let key = user_key userID dir_id in
     bind (get_directory_metadata X key) (\<lambda>get_result.
     if resp_success get_result then ret (reply 400 (err ''Directory already exists''))
     else
     (case find_last_of CHR ''/'' dir_id of
        None \<Rightarrow> ret (reply 400 (err ''Invalid file path''))
      | Some last_slash \<Rightarrow>
        let parent_dir = take last_slash dir_id;
            parent_key = user_key userID parent_dir in
        bind (get_directory_metadata X parent_key) (\<lambda>parent_get_result.
        if \<not> resp_success parent_get_result then
          ret (reply 404 (err ''Parent directory not found''))
        else
        (case parse_parent X (resp_value parent_get_result) of
           Inl r \<Rightarrow> ret r
         | Inr parent_metadata \<Rightarrow>
           bind (gets (\<lambda>s. time_now X (net s))) (\<lambda>now.
           let new_metadata = dir_metadata userID now in
           bind (set_directory_metadata X key new_metadata) (\<lambda>set_result.
           if \<not> resp_success set_result then
             ret (reply 500 (err ''Failed to create directory''))
           else
           bind (lift_exn (subscript parent_metadata ''subdirectories'')) (\<lambda>subdirs.
           if \<not> is_array subdirs then ret internal_error
           else
           bind (lift_exn (push_back subdirs (JStr dir_id))) (\<lambda>subdirs1.
           bind (lift_exn (set_key parent_metadata ''subdirectories'' subdirs1)) (\<lambda>parent1.
           bind (set_directory_metadata X parent_key parent1) (\<lambda>update_parent_result.
           bind (lift_exn (dump X new_metadata)) (\<lambda>text.
           seq (broadcast (notification ''DIR+'' userID dir_id device_id)) (
           ret (reply 200 (''{\"message\": \"Directory created\", \"metadata\": '' @ text @ ''}'')
           ))))))))))))))))"

definition create_directory ::
  "('w, 'x) meta_ext_scheme \<Rightarrow> http_request \<Rightarrow> ('w mstate, http_response) prog" where
  "create_directory X req =
     bind (authenticate X req) (\<lambda>auth.
       case auth of
         Inl res \<Rightarrow> ret (rejected res)
       | Inr userID \<Rightarrow> try_catch (create_directory_body X userID req) (\<lambda>e. ret internal_error))"

section \<open>list\_directory\<close>

definition list_directory_body ::
  "('w, 'x) meta_ext_scheme \<Rightarrow> string \<Rightarrow> http_request \<Rightarrow> ('w mstate, http_response) prog" where
  "list_directory_body X userID req =
     bind (lift_exn (parse X (req_body req))) (\<lambda>body_json.
     if \<not> contains body_json ''path'' then ret (reply 400 (err ''Missing path or version''))
     else
     bind (lift_exn (string_at body_json ''path'')) (\<lambda>dir_id.
     bind (get_directory_metadata X (user_key userID dir_id)) (\<lambda>kv_response.
     if \<not> resp_success kv_response then ret (reply 404 (err ''Directory not found''))
     else
     (case parse X (resp_value kv_response) of
        Inl e \<Rightarrow> ret (reply 500 (err ''Failed to parse metadata''))
      | Inr metadata \<Rightarrow>
        bind (lift_exn (dump X metadata)) (\<lambda>text. ret (reply 200 text))))))"

definition list_directory ::
  "('w, 'x) meta_ext_scheme \<Rightarrow> http_request \<Rightarrow> ('w mstate, http_response) prog" where
  "list_directory X req =
     bind (authenticate X req) (\<lambda>auth.
       case auth of
         Inl res \<Rightarrow> ret (rejected res)
       | Inr userID \<Rightarrow> try_catch (list_directory_body X userID req) (\<lambda>e. ret internal_error))"

section \<open>create\_file\<close>

text \<open>
  Unlike \<open>create_directory\<close>, this handler passes the printed text of the metadata to
  \<open>set_directory_metadata\<close>, which takes a JSON value: the text becomes a JSON string and is
  printed once more.  Both writes are attempted before either result is looked at.  The parent's
  metadata is also printed for the log, which can throw.
\<close>

definition create_file_body ::
  "('w, 'x) meta_ext_scheme \<Rightarrow> string \<Rightarrow> http_request \<Rightarrow> ('w mstate, http_response) prog" where
  "create_file_body X userID req =
     bind (lift_exn (parse X (req_body req))) (\<lambda>body_json.
     if \<not> contains body_json ''path'' then ret (reply 400 (err ''Missing path''))
     else if \<not> contains body_json ''device_id'' then ret (reply 400 (err ''Missing device_id''))
     else
     bind (lift_exn (string_at body_json ''device_id'')) (\<lambda>device_id.
     bind (lift_exn (string_at body_json ''path'')) (\<lambda>file_path.
     let key = user_key userID file_path in
     bind (get_directory_metadata X key) (\<lambda>get_result.
     if resp_success get_result then
       ret (reply 200 ''{\"success\": \"File already exists\"}'')
     else
     (case find_last_of CHR ''/'' file_path of
        None \<Rightarrow> ret (reply 400 (err ''Invalid file path''))
      | Some last_slash \<Rightarrow>
        let parent_dir = take last_slash file_path;
            parent_key = user_key userID parent_dir in
        bind (get_directory_metadata X parent_key) (\<lambda>parent_res.
        if \<not> resp_success parent_res then
          ret (reply 404 (err ''Parent directory not found''))
        else
        (case parse_parent X (resp_value parent_res) of
           Inl r \<Rightarrow> ret r
         | Inr parent_metadata \<Rightarrow>
           bind (lift_exn (dump X parent_metadata)) (\<lambda>_.
           bind (gets (\<lambda>s. time_now X (net s))) (\<lambda>now.
           let file_meta = file_metadata userID now parent_dir file_path in
           bind (lift_exn (subscript parent_metadata ''files'')) (\<lambda>files.
           bind (lift_exn (push_back files (JStr file_path))) (\<lambda>files1.
           bind (lift_exn (set_key parent_metadata ''files'' files1)) (\<lambda>parent1.
           bind (lift_exn (dump X file_meta)) (\<lambda>file_text.
           bind (set_directory_metadata X key (JStr file_text)) (\<lambda>file_ok.
           bind (lift_exn (dump X parent1)) (\<lambda>parent_text.
           bind (set_directory_metadata X parent_key (JStr parent_text)) (\<lambda>parent_ok.
           if \<not> resp_success file_ok \<or> \<not> resp_success parent_ok then
             ret (reply 500 (err ''Failed to store file metadata''))
           else
           seq (broadcast (notification ''FILE+'' userID file_path device_id)) (
           ret (reply 200 (''{\"message\": \"File created\", \"metadata\": '' @ file_text @ ''}'')
           ))))))))))))))))))"

definition create_file ::
  "('w, 'x) meta_ext_scheme \<Rightarrow> http_request \<Rightarrow> ('w mstate, http_response) prog" where
  "create_file X req =
     bind (authenticate X req) (\<lambda>auth.
       case auth of
         Inl res \<Rightarrow> ret (rejected res)
       | Inr userID \<Rightarrow> try_catch (create_file_body X userID req) (\<lambda>e. ret internal_error))"

section \<open>delete\_path\<close>

text \<open>
  \<open>files.erase(std::remove(files.begin(), files.end(), path), files.end())\<close> on an array.
\<close>

definition erase_all :: "json \<Rightarrow> string \<Rightarrow> json" where
  "erase_all j path = (case j of JArr js \<Rightarrow> JArr (removeAll (JStr path) js) | _ \<Rightarrow> j)"

definition enqueue :: "string \<Rightarrow> ('w mstate, unit) prog" where
  "enqueue key = modify (\<lambda>s. s\<lparr>deletion_queue := deletion_queue s @ [key]\<rparr>)"

text \<open>
  The update of the parent's metadata.  Reading \<open>files\<close> (for a path of a file) or
  \<open>subdirectories\<close> (for the others) on a parent without that member inserts it with the
  value null.
\<close>

definition delete_from_parent ::
  "('w, 'x) meta_ext_scheme \<Rightarrow> string \<Rightarrow> string \<Rightarrow> string \<Rightarrow> bool \<Rightarrow> json \<Rightarrow>
     ('w mstate, json) prog" where
  "delete_from_parent X userID path device_id is_file parent_meta =
     (if is_file then
        bind (lift_exn (subscript parent_meta ''files'')) (\<lambda>files.
        if is_array files then
          bind (lift_exn (set_key parent_meta ''files'' (erase_all files path))) (\<lambda>parent1.
          seq (enqueue (user_key userID path)) (
          seq (broadcast (notification ''FILE-'' userID path device_id)) (
          ret parent1)))
        else ret (subscripted parent_meta ''files''))
      else
        bind (lift_exn (subscript parent_meta ''subdirectories'')) (\<lambda>dirs.
        if is_array dirs then
          bind (lift_exn (set_key parent_meta ''subdirectories'' (erase_all dirs path))) (\<lambda>parent1.
          seq (broadcast (notification ''DIR-'' userID path device_id)) (
          ret parent1))
        else ret (subscripted parent_meta ''subdirectories'')))"

text \<open>\<open>path.substr(0, slash)\<close>, which is the whole path when there is no slash.\<close>

definition parent_dir_of :: "string \<Rightarrow> string" where
  "parent_dir_of path =
     (case find_last_of CHR ''/'' path of None \<Rightarrow> path | Some slash \<Rightarrow> take slash path)"

definition is_txt :: "string \<Rightarrow> bool" where
  "is_txt path = (4 \<le> length path \<and> drop (length path - 4) path = ''.txt'')"

definition delete_path_body ::
  "('w, 'x) meta_ext_scheme \<Rightarrow> string \<Rightarrow> http_request \<Rightarrow> ('w mstate, http_response) prog" where
  "delete_path_body X userID req =
     (case parse X (req_body req) of
        Inl e \<Rightarrow> ret (reply 400 (err ''Invalid JSON''))
      | Inr body \<Rightarrow>
        if \<not> contains body ''path'' then ret (reply 400 (err ''Missing path''))
        else if \<not> contains body ''device_id'' then ret (reply 400 (err ''Missing device_id''))
        else
        bind (lift_exn (string_at body ''device_id'')) (\<lambda>device_id.
        bind (lift_exn (string_at body ''path'')) (\<lambda>path.
        let key = user_key userID path;
            parent_key = user_key userID (parent_dir_of path);
            is_file = is_txt path in
        bind (get_directory_metadata X key) (\<lambda>meta.
        if \<not> resp_success meta then ret (reply 404 (err ''Path not found''))
        else
        bind (delete_directory_metadata X key) (\<lambda>_.
        bind (get_directory_metadata X parent_key) (\<lambda>parent_meta_res.
        seq (if resp_success parent_meta_res then
               bind (lift_exn (parse X (resp_value parent_meta_res))) (\<lambda>outer.
               bind (case outer of JStr t \<Rightarrow> lift_exn (parse X t) | _ \<Rightarrow> ret outer) (\<lambda>parent_meta.
               bind (delete_from_parent X userID path device_id is_file parent_meta) (\<lambda>parent1.
               bind (set_directory_metadata X parent_key parent1) (\<lambda>_. ret ()))))
             else if is_file then enqueue key
             else ret ()) (
        ret (reply (res_status fresh_response) ''{\"message\": \"Path deleted\"}'')
        )))))))"

definition delete_path ::
  "('w, 'x) meta_ext_scheme \<Rightarrow> http_request \<Rightarrow> ('w mstate, http_response) prog" where
  "delete_path X req =
     bind (authenticate X req) (\<lambda>auth.
       case auth of Inl res \<Rightarrow> ret res | Inr userID \<Rightarrow> delete_path_body X userID req)"

section \<open>get\_file\_endpoints and block\_server\_confirmation\<close>

definition get_file_endpoints_body ::
  "('w, 'x) meta_ext_scheme \<Rightarrow> string \<Rightarrow> http_request \<Rightarrow> ('w mstate, http_response) prog" where
  "get_file_endpoints_body X userID req =
     (case parse X (req_body req) of
        Inl e \<Rightarrow> ret (reply 400 (err ''Invalid JSON''))
      | Inr body \<Rightarrow>
        if \<not> contains body ''path'' then ret (reply 400 (err ''Missing file path parameter''))
        else
        bind (lift_exn (string_at body ''path'')) (\<lambda>file_path.
        let key = user_key userID file_path in
        bind (get_directory_metadata X key) (\<lambda>kv_response.
        if \<not> resp_success kv_response then ret (reply 404 (err ''File not found''))
        else
        (case (case parse X (resp_value kv_response) of
                 Inr (JStr t) \<Rightarrow> parse X t
               | r \<Rightarrow> r) of
           Inl e \<Rightarrow> ret (reply 500 (err ''Failed to parse file metadata''))
         | Inr metadata \<Rightarrow>
           bind (select_block_server_group X key) (\<lambda>block_servers.
           bind (lift_exn (dump X (obj [(''endpoints'', JArr (map JStr block_servers))]))) (\<lambda>text.
           ret (reply 200 text)))))))"

definition get_file_endpoints ::
  "('w, 'x) meta_ext_scheme \<Rightarrow> http_request \<Rightarrow> ('w mstate, http_response) prog" where
  "get_file_endpoints X req =
     bind (authenticate X req) (\<lambda>auth.
       case auth of Inl res \<Rightarrow> ret res | Inr userID \<Rightarrow> get_file_endpoints_body X userID req)"

definition block_server_confirmation ::
  "('w, 'x) meta_ext_scheme \<Rightarrow> http_request \<Rightarrow> ('w mstate, http_response) prog" where
  "block_server_confirmation X req =
     try_catch
       (bind (lift_exn (parse X (req_body req))) (\<lambda>body_json.
        if \<not> contains body_json ''path'' \<or> \<not> contains body_json ''user_id''
           \<or> \<not> contains body_json ''device_id''
        then ret (reply 400 (err ''Missing path or user_id''))
        else
        bind (lift_exn (string_at body_json ''path'')) (\<lambda>file_path.
        bind (lift_exn (string_at body_json ''user_id'')) (\<lambda>userID.
        bind (lift_exn (string_at body_json ''device_id'')) (\<lambda>device_id.
        seq (broadcast (notification ''FILE~'' userID file_path device_id)) (
        ret (reply 200 ''{\"message\": \"Block server confirmation received\"}''))))))) 
       (\<lambda>e. ret internal_error)"

section \<open>Routing\<close>

text \<open>
  The routing table of \<open>main\<close>.  The HTTP library answers 404 for other paths, turns an
  exception that leaves a handler into status 500, and 200 is the status of a response to which a
  handler gave none.
\<close>

definition route ::
  "('w, 'x) meta_ext_scheme \<Rightarrow> string \<Rightarrow> (http_request \<Rightarrow> ('w mstate, http_response) prog) option"
where
  "route X path =
     map_of [(''/create-directory'', create_directory X),
             (''/list-directory'', list_directory X),
             (''/create-file'', create_file X),
             (''/get-file-endpoints'', get_file_endpoints X),
             (''/block-server-confirmation'', block_server_confirmation X),
             (''/delete'', delete_path X)] path"

definition serve ::
  "('w, 'x) meta_ext_scheme \<Rightarrow> string \<Rightarrow> http_request \<Rightarrow> ('w mstate, http_response) prog" where
  "serve X path req =
     (case route X path of
        None \<Rightarrow> ret (reply 404 [])
      | Some handler \<Rightarrow>
          bind (try_catch (handler req) (\<lambda>e. ret (reply 500 []))) (\<lambda>res.
          ret (if res_status res = -1 then res\<lparr>res_status := 200\<rparr> else res)))"

end
