(* ===== verification/Metaserver_Tenancy.thy ===== *)
theory Metaserver_Tenancy
  imports Metaserver
begin

text \<open>
  What every request to the metadata server respects, whatever its branch: over a store in good
  order a request is answered, the store stays in good order, and the keys written, the files
  queued for deletion and the notifications sent are those of the authenticated user.
\<close>

definition ready :: "(cluster, 'x) meta_ext_scheme \<Rightarrow> cluster mstate \<Rightarrow> bool" where
  "ready X s \<longleftrightarrow>
     store_ok X s \<and> broadcaster (init s) \<noteq> None \<and> blockserver_lists (init s) \<noteq> []"

definition belongs_to :: "string \<Rightarrow> string \<Rightarrow> bool" where
  "belongs_to userID key \<longleftrightarrow> prefix (userID @ '':'') key"

definition names_user :: "string \<Rightarrow> json \<Rightarrow> bool" where
  "names_user userID message \<longleftrightarrow> subscript message ''user_id'' = Inr (JStr userID)"

text \<open>\<open>s\<close> is reachable from \<open>s0\<close> by touching what belongs to \<open>userID\<close> only.\<close>

definition within ::
  "(cluster, 'x) meta_ext_scheme \<Rightarrow> string \<Rightarrow> cluster mstate \<Rightarrow> cluster mstate \<Rightarrow> bool" where
  "within X userID s0 s \<longleftrightarrow>
     ready X s \<and> init s = init s0 \<and>
     (\<forall>k. \<not> belongs_to userID k \<longrightarrow> meta_view X s k = meta_view X s0 k) \<and>
     (\<exists>ks. deletion_queue s = deletion_queue s0 @ ks \<and> list_all (belongs_to userID) ks) \<and>
     (\<exists>ms. outbox s = outbox s0 @ ms \<and> list_all (\<lambda>m. names_user userID (snd m)) ms)"

lemma within_refl: "ready X s \<Longrightarrow> within X u s s"
  by (auto simp: within_def)

lemma within_ready: "within X u s0 s \<Longrightarrow> ready X s"
  by (simp add: within_def)

lemma within_store: "within X u s0 s \<Longrightarrow> store_ok X s"
  by (simp add: within_def ready_def)

lemma belongs_to_user_key [simp]: "belongs_to u (user_key u p)"
  by (simp add: belongs_to_def user_key_def)

text \<open>Users whose names have no colon own disjoint sets of keys.\<close>

lemma user_key_other:
  assumes "CHR '':'' \<notin> set u" and "CHR '':'' \<notin> set u'" and "u \<noteq> u'"
  shows "\<not> belongs_to u (user_key u' p)"
proof
  assume "belongs_to u (user_key u' p)"
  then obtain r where "u @ CHR '':'' # r = u' @ CHR '':'' # p"
    by (auto simp: belongs_to_def user_key_def prefix_def)
  then have "takeWhile (\<lambda>c. c \<noteq> CHR '':'') (u @ CHR '':'' # r) =
             takeWhile (\<lambda>c. c \<noteq> CHR '':'') (u' @ CHR '':'' # p)" by simp
  moreover have "takeWhile (\<lambda>c. c \<noteq> CHR '':'') (v @ CHR '':'' # w) = v" if "CHR '':'' \<notin> set v" for v w
    using that by (induction v) auto
  ultimately show False using assms by simp
qed

section \<open>The operations of the handlers\<close>

lemma within_net:
  assumes "within X u s0 s" and "store_ok X (s\<lparr>net := c\<rparr>)"
    and "meta_view X (s\<lparr>net := c\<rparr>) = (meta_view X s)(k := b)" and "belongs_to u k"
  shows "within X u s0 (s\<lparr>net := c\<rparr>)"
  using assms by (auto simp: within_def ready_def)

lemma answers_get [answers_intros]: "answers (within X u s0) (get_directory_metadata X k)"
proof (rule answersI)
  fix s assume w: "within X u s0 s"
  then have "store_ok X s" by (rule within_store)
  then obtain r where "get_directory_metadata X k s = Ret r s"
    using meta_store.get_returns by blast
  with w show "(\<exists>a t. get_directory_metadata X k s = Ret a t \<and> within X u s0 t) \<or>
               (\<exists>e t. get_directory_metadata X k s = Throw e t \<and> within X u s0 t)" by simp
qed

lemma answers_put:
  assumes "belongs_to u k" shows "answers (within X u s0) (put_value X k v)"
proof (rule answersI)
  fix s assume w: "within X u s0 s"
  then have "store_ok X s" by (rule within_store)
  then obtain r c where run: "put_value X k v s = Ret r (s\<lparr>net := c\<rparr>)"
    and ok: "store_ok X (s\<lparr>net := c\<rparr>)"
    and view: "meta_view X (s\<lparr>net := c\<rparr>) = (meta_view X s)(k := if v = DELETE_VALUE then None else Some v)"
    using put_value_stored by blast
  with within_net [OF w ok view assms] show "(\<exists>a t. put_value X k v s = Ret a t \<and> within X u s0 t) \<or>
               (\<exists>e t. put_value X k v s = Throw e t \<and> within X u s0 t)" by simp
qed

lemma answers_set [answers_intros]:
  "belongs_to u k \<Longrightarrow> answers (within X u s0) (set_directory_metadata X k j)"
  by (auto simp: set_directory_metadata_def intro!: answers_intros answers_put)

lemma answers_delete [answers_intros]:
  "belongs_to u k \<Longrightarrow> answers (within X u s0) (delete_directory_metadata X k)"
  using answers_put [of u k X s0 DELETE_VALUE]
  by (simp add: delete_directory_metadata_def put_value_def dkv_del_def)

lemma answers_select [answers_intros]:
  "answers (within X u s0) (select_block_server_group X k)"
  by (rule answersI) (auto simp: select_block_server_group_def within_def ready_def)

lemma answers_broadcast [answers_intros]:
  assumes "names_user u m" shows "answers (within X u s0) (broadcast m)"
proof (rule answersI)
  fix s assume w: "within X u s0 s"
  then obtain servers where b: "broadcaster (init s) = Some servers"
    by (auto simp: within_def ready_def)
  have "list_all (\<lambda>m. names_user u (snd m)) (broadcast_tasks servers m)"
    using assms by (simp add: broadcast_tasks_def list_all_iff)
  with w have "within X u s0 (s\<lparr>outbox := outbox s @ broadcast_tasks servers m\<rparr>)"
    by (auto simp: within_def ready_def store_ok_def meta_view_def)
  with b show "(\<exists>a t. broadcast m s = Ret a t \<and> within X u s0 t) \<or>
               (\<exists>e t. broadcast m s = Throw e t \<and> within X u s0 t)"
    by (simp add: broadcast_def)
qed

lemma names_user_notification [simp]: "names_user u (notification ty u p d)"
  by (simp add: names_user_def notification_def)

lemma answers_enqueue [answers_intros]:
  "belongs_to u k \<Longrightarrow> answers (within X u s0) (enqueue k)"
  by (auto simp: enqueue_def within_def ready_def store_ok_def meta_view_def intro!: answers_intros)

section \<open>The handlers\<close>

lemma answers_create_directory_body:
  "answers (within X u s0) (create_directory_body X u req)"
  unfolding create_directory_body_def Let_def
  by (intro answers_intros belongs_to_user_key names_user_notification)

lemma answers_list_directory_body:
  "answers (within X u s0) (list_directory_body X u req)"
  unfolding list_directory_body_def Let_def by (intro answers_intros)

lemma answers_create_file_body:
  "answers (within X u s0) (create_file_body X u req)"
  unfolding create_file_body_def Let_def
  by (intro answers_intros belongs_to_user_key names_user_notification)

lemma answers_delete_from_parent [answers_intros]:
  "answers (within X u s0) (delete_from_parent X u p d b j)"
  unfolding delete_from_parent_def Let_def
  by (intro answers_intros belongs_to_user_key names_user_notification)

lemma answers_unwrap [answers_intros]:
  "answers P (case j of JStr t \<Rightarrow> lift_exn (parse X t) | _ \<Rightarrow> ret j)"
  by (cases j) (auto intro: answers_intros)

lemma answers_delete_path_body:
  "answers (within X u s0) (delete_path_body X u req)"
  unfolding delete_path_body_def Let_def by (intro answers_intros belongs_to_user_key)

lemma answers_get_file_endpoints_body:
  "answers (within X u s0) (get_file_endpoints_body X u req)"
  unfolding get_file_endpoints_body_def Let_def by (intro answers_intros)

text \<open>The paths whose handlers authenticate, and the body each runs for the user.\<close>

definition handler_body ::
  "('w, 'x) meta_ext_scheme \<Rightarrow> string \<Rightarrow> (string \<Rightarrow> http_request \<Rightarrow> ('w mstate, http_response) prog) option"
where
  "handler_body X path =
     map_of [(''/create-directory'',
                \<lambda>u req. try_catch (create_directory_body X u req) (\<lambda>e. ret internal_error)),
             (''/list-directory'',
                \<lambda>u req. try_catch (list_directory_body X u req) (\<lambda>e. ret internal_error)),
             (''/create-file'',
                \<lambda>u req. try_catch (create_file_body X u req) (\<lambda>e. ret internal_error)),
             (''/get-file-endpoints'', get_file_endpoints_body X),
             (''/delete'', delete_path_body X)] path"

lemma handler_body_cases [consumes 1]:
  assumes "handler_body X path = Some h"
  obtains "path = ''/create-directory''"
      "h = (\<lambda>u req. try_catch (create_directory_body X u req) (\<lambda>e. ret internal_error))"
  | "path = ''/list-directory''"
      "h = (\<lambda>u req. try_catch (list_directory_body X u req) (\<lambda>e. ret internal_error))"
  | "path = ''/create-file''"
      "h = (\<lambda>u req. try_catch (create_file_body X u req) (\<lambda>e. ret internal_error))"
  | "path = ''/get-file-endpoints''" "h = get_file_endpoints_body X"
  | "path = ''/delete''" "h = delete_path_body X"
  using assms by (auto simp: handler_body_def split: if_splits)

lemma answers_handler_body:
  assumes "handler_body X path = Some h" shows "answers (within X u s0) (h u req)"
  using assms
  by (cases rule: handler_body_cases)
     (auto intro!: answers_intros answers_create_directory_body answers_list_directory_body
                   answers_create_file_body answers_delete_path_body answers_get_file_endpoints_body)

definition finish :: "http_response \<Rightarrow> http_response" where
  "finish res = (if res_status res = -1 then res\<lparr>res_status := 200\<rparr> else res)"

text \<open>An authenticated request runs the handler's body for the user.\<close>

lemma serve_authenticated:
  assumes "handler_body X path = Some h"
    and "authenticate_request X (public_key (init s)) (time_now X (net s)) req = Inr u"
  shows "serve X path req s =
    bind (try_catch (h u req) (\<lambda>e. ret (reply 500 []))) (\<lambda>res. ret (finish res)) s"
  using assms
  by (cases rule: handler_body_cases)
     (simp_all add: serve_def route_def create_directory_def list_directory_def create_file_def
        get_file_endpoints_def delete_path_def authenticate_def finish_def)

lemma serve_unauthenticated:
  assumes "handler_body X path = Some h"
    and rej: "authenticate_request X (public_key (init s)) (time_now X (net s)) req = Inl r"
  shows "serve X path req s = Ret r s"
proof -
  from authenticate_rejected [OF rej] have "res_status r \<noteq> -1" "rejected r = r"
    by (auto simp: rejected_def)
  with assms show ?thesis
    by (cases rule: handler_body_cases)
       (simp_all add: serve_def route_def create_directory_def list_directory_def create_file_def
        get_file_endpoints_def delete_path_def authenticate_def finish_def)
qed

text \<open>An authenticated request is answered, within what belongs to the user.\<close>

lemma serve_within:
  assumes ready: "ready X s" and h: "handler_body X path = Some h"
    and auth: "authenticate_request X (public_key (init s)) (time_now X (net s)) req = Inr u"
  obtains res t where "serve X path req s = Ret res t" and "within X u s t"
proof -
  let ?m = "bind (try_catch (h u req) (\<lambda>e. ret (reply 500 []))) (\<lambda>res. ret (finish res))"
  have "answers (within X u s) (h u req)" by (rule answers_handler_body [OF h])
  then have "answers (within X u s) ?m" by (intro answers_intros)
  from this within_refl [OF ready] show ?thesis
  proof (cases rule: answersE)
    case (Ret res t)
    with serve_authenticated [OF h auth] that show ?thesis by simp
  next
    case (Throw e t)
    then show ?thesis by (auto split: outcome.splits)
  qed
qed

end
