(* ===== verification/Metaserver_Spec.thy ===== *)
theory Metaserver_Spec
  imports Metaserver_Tenancy
begin

text \<open>
  The namespace the metadata server keeps, as a map from keys to documents, and what each handler
  does to it.  A document is the stored text parsed, and parsed once more when that gives a
  string: \<open>create_file\<close> stores printed text as a JSON string, the other writers store the
  value itself.  The handlers refine the operations on documents.
\<close>

type_synonym namespace = "string \<rightharpoonup> json"

definition doc_of :: "('x) codec_scheme \<Rightarrow> string \<Rightarrow> json option" where
  "doc_of X v = (case json_parse X v of Some (JStr t) \<Rightarrow> json_parse X t | j \<Rightarrow> j)"

definition docs :: "(cluster, 'x) meta_ext_scheme \<Rightarrow> cluster mstate \<Rightarrow> namespace" where
  "docs X s k = Option.bind (meta_view X s k) (doc_of X)"

text \<open>The entries of a directory's listing, and the listing with an entry added or removed.\<close>

definition entries :: "string \<Rightarrow> json \<Rightarrow> json list" where
  "entries f d = (case d of
       JObj m \<Rightarrow> (case fmlookup m f of Some (JArr js) \<Rightarrow> js | _ \<Rightarrow> [])
     | _ \<Rightarrow> [])"

definition with_entry :: "string \<Rightarrow> string \<Rightarrow> json \<Rightarrow> json" where
  "with_entry f p d = (case d of
       JObj m \<Rightarrow> JObj (fmupd f (JArr (entries f d @ [JStr p])) m) | _ \<Rightarrow> d)"

definition without_entry :: "string \<Rightarrow> string \<Rightarrow> json \<Rightarrow> json" where
  "without_entry f p d = (case d of
       JObj m \<Rightarrow> JObj (fmupd f (JArr (removeAll (JStr p) (entries f d))) m) | _ \<Rightarrow> d)"

definition lists_field :: "string \<Rightarrow> json \<Rightarrow> bool" where
  "lists_field f d = (case d of
       JObj m \<Rightarrow> (case fmlookup m f of Some v \<Rightarrow> is_array v | None \<Rightarrow> False) | _ \<Rightarrow> False)"

lemma lists_fieldE:
  assumes "lists_field f d"
  obtains m js where "d = JObj m" and "fmlookup m f = Some (JArr js)"
  using assms by (auto simp: lists_field_def split: json.splits option.splits elim: is_arrayE)

lemma entries_with_entry [simp]:
  "lists_field f d \<Longrightarrow> entries f (with_entry f p d) = entries f d @ [JStr p]"
  by (auto elim!: lists_fieldE simp: entries_def with_entry_def)

lemma entries_without_entry [simp]:
  "lists_field f d \<Longrightarrow> entries f (without_entry f p d) = removeAll (JStr p) (entries f d)"
  by (auto elim!: lists_fieldE simp: entries_def without_entry_def)

lemma entries_other_field [simp]:
  "f \<noteq> g \<Longrightarrow> entries f (with_entry g p d) = entries f d"
  "f \<noteq> g \<Longrightarrow> entries f (without_entry g p d) = entries f d"
  by (auto simp: entries_def with_entry_def without_entry_def split: json.split option.split)

lemma lists_field_update [simp]:
  "lists_field f d \<Longrightarrow> lists_field f (with_entry g p d)"
  "lists_field f d \<Longrightarrow> lists_field f (without_entry g p d)"
  by (erule lists_fieldE, simp add: lists_field_def with_entry_def without_entry_def)+

lemma is_string_with_entry [simp]:
  "lists_field f d \<Longrightarrow> \<not> is_string (with_entry f p d)"
  "lists_field f d \<Longrightarrow> \<not> is_string (without_entry f p d)"
  by (auto elim!: lists_fieldE simp: with_entry_def without_entry_def)

text \<open>
  A list that an entry can be appended to: it is there, or it is missing or null, in which case
  appending makes it a list.  A document that is an object without such a list is one the handlers
  cannot append to.
\<close>

definition is_object :: "json \<Rightarrow> bool" where
  "is_object d = (case d of JObj m \<Rightarrow> True | _ \<Rightarrow> False)"

definition appendable :: "string \<Rightarrow> json \<Rightarrow> bool" where
  "appendable f d = (case d of
       JObj m \<Rightarrow> (case fmlookup m f of Some v \<Rightarrow> v = JNull \<or> is_array v | None \<Rightarrow> True) | _ \<Rightarrow> False)"

lemma is_object_simps [simp]:
  "is_object (JObj m)" "is_object (obj kvs)" "is_object (with_entry f p d) = is_object d"
  "is_object (without_entry f p d) = is_object d" "is_object (subscripted d f) \<longleftrightarrow> is_object d \<or> d = JNull"
  by (auto simp: is_object_def obj_def with_entry_def without_entry_def subscripted_def
      split: json.split option.split)

lemma is_objectE: "is_object d \<Longrightarrow> (\<And>m. d = JObj m \<Longrightarrow> thesis) \<Longrightarrow> thesis"
  by (cases d) (auto simp: is_object_def)

lemma lists_field_appendable [simp]: "lists_field f d \<Longrightarrow> appendable f d"
  by (auto elim!: lists_fieldE simp: appendable_def)

lemma appendable_is_object: "appendable f d \<Longrightarrow> is_object d"
  by (cases d) (auto simp: appendable_def is_object_def)

lemma is_object_not_string: "is_object d \<Longrightarrow> \<not> is_string d"
  by (auto elim: is_objectE)

lemma append_entry:
  assumes "appendable f d"
  obtains v w where "subscript d f = Inr v" and "push_back v (JStr p) = Inr w"
    and "set_key d f w = Inr (with_entry f p d)"
  using assms that
  by (cases d) (auto simp: appendable_def subscript_def with_entry_def entries_def set_key_def push_back_def
      split: option.splits elim!: is_arrayE)

lemma append_refused:
  assumes "is_object d" and "\<not> appendable f d"
  obtains v e where "subscript d f = Inr v" and "push_back v (JStr p) = Inl e"
  using assms that
  by (cases d) (auto simp: appendable_def subscript_def is_array_def is_object_def push_back_def
      split: option.splits json.splits)

lemma no_list:
  assumes "is_object d \<or> d = JNull" and "\<not> lists_field f d"
  obtains v where "subscript d f = Inr v" and "\<not> is_array v"
  using assms that
  by (cases d) (auto simp: lists_field_def subscript_def is_object_def split: option.splits)

lemma no_member: "\<not> is_object d \<Longrightarrow> d \<noteq> JNull \<Longrightarrow> subscript d f = Inl Json_type_error"
  by (cases d) (auto simp: subscript_def is_object_def)

lemma entries_appended [simp]: "appendable f d \<Longrightarrow> entries f (with_entry f p d) = entries f d @ [JStr p]"
  by (cases d) (auto simp: appendable_def entries_def with_entry_def split: option.splits)

lemma entries_subscripted [simp]: "entries f (subscripted d g) = entries f d"
  by (auto simp: entries_def subscripted_def split: json.split option.split)

section \<open>Documents and their texts\<close>

lemma doc_of_text [simp]:
  "cluster_backed X \<Longrightarrow> \<not> is_string j \<Longrightarrow> doc_of X (text_of X j) = Some j"
  by (cases j) (simp_all add: doc_of_def cluster_backedD)

lemma doc_of_text_text [simp]:
  "cluster_backed X \<Longrightarrow> doc_of X (text_of X (JStr (text_of X j))) = Some j"
  by (simp add: doc_of_def cluster_backedD)

lemma parse_parent_doc:
  "parse_parent X v = Inr j \<longleftrightarrow> doc_of X v = Some j"
  by (auto simp: parse_parent_def doc_of_def parse_def split: option.splits json.splits)

lemma parse_then_unwrap:
  assumes "doc_of X v = Some j"
  obtains d where "json_parse X v = Some d"
    and "(case d of JStr t \<Rightarrow> lift_exn (parse X t) | _ \<Rightarrow> ret d) = (ret j :: ('w mstate, json) prog)"
proof (cases "json_parse X v")
  case None
  with assms show ?thesis by (simp add: doc_of_def)
next
  case (Some d)
  with assms that [of d] show ?thesis
    by (cases d) (auto simp: doc_of_def lift_exn_def)
qed

lemma docs_Some:
  assumes "docs X s k = Some j" obtains v where "meta_view X s k = Some v" and "doc_of X v = Some j"
  using assms by (auto simp: docs_def split: Option.bind_splits)

text \<open>A request body with the two members the writing handlers need.\<close>

lemma string_at_contains: "string_at j k = Inr v \<Longrightarrow> contains j k"
  by (cases j) (auto simp: string_at_def subscript_def get_string_def split: option.splits)

definition request_for :: "('x) codec_scheme \<Rightarrow> http_request \<Rightarrow> string \<Rightarrow> string \<Rightarrow> bool" where
  "request_for X req path device_id \<longleftrightarrow>
     (case json_parse X (req_body req) of
        None \<Rightarrow> False
      | Some j \<Rightarrow> string_at j ''path'' = Inr path \<and> string_at j ''device_id'' = Inr device_id)"

lemma request_forE:
  assumes "request_for X req p d"
  obtains j where "json_parse X (req_body req) = Some j" and "contains j ''path''"
    and "contains j ''device_id''" and "string_at j ''path'' = Inr p"
    and "string_at j ''device_id'' = Inr d"
  using assms by (auto simp: request_for_def split: option.splits dest: string_at_contains)

definition asks_as :: "('w, 'x) meta_ext_scheme \<Rightarrow> 'w mstate \<Rightarrow> http_request \<Rightarrow> string \<Rightarrow> bool" where
  "asks_as X s req userID \<longleftrightarrow>
     authenticate_request X (public_key (init s)) (time_now X (net s)) req = Inr userID"

lemma authenticate_asks [simp]: "asks_as X s req u \<Longrightarrow> authenticate X req s = Ret (Inr u) s"
  by (simp add: asks_as_def authenticate_def)

definition notified :: "'w mstate \<Rightarrow> json \<Rightarrow> (server \<times> json) list" where
  "notified s message = (case broadcaster (init s) of
       None \<Rightarrow> [] | Some servers \<Rightarrow> broadcast_tasks servers message)"

lemma broadcast_ready [simp]:
  "ready X s \<Longrightarrow> broadcast m (s\<lparr>net := c\<rparr>) = Ret () (s\<lparr>net := c, outbox := outbox s @ notified s m\<rparr>)"
  by (auto simp: ready_def broadcast_def notified_def)

lemma view_outbox [simp]:
  "meta_view X (s\<lparr>net := c, outbox := q\<rparr>) = meta_view X (s\<lparr>net := c\<rparr>)"
  "meta_view X (s\<lparr>net := c, deletion_queue := d\<rparr>) = meta_view X (s\<lparr>net := c\<rparr>)"
  "meta_view X (s\<lparr>net := c, deletion_queue := d, outbox := q\<rparr>) = meta_view X (s\<lparr>net := c\<rparr>)"
  by (simp_all add: meta_view_def)

lemma store_ok_outbox [simp]:
  "store_ok X (s\<lparr>net := c, outbox := q\<rparr>) = store_ok X (s\<lparr>net := c\<rparr>)"
  "store_ok X (s\<lparr>net := c, deletion_queue := d\<rparr>) = store_ok X (s\<lparr>net := c\<rparr>)"
  "store_ok X (s\<lparr>net := c, deletion_queue := d, outbox := q\<rparr>) = store_ok X (s\<lparr>net := c\<rparr>)"
  by (simp_all add: store_ok_def)

lemma parent_key_neq: "parent_of p = Some q \<Longrightarrow> user_key u q \<noteq> user_key u p"
  by (auto simp: user_key_def dest: parent_of_neq)

lemma get_absentE:
  assumes "ready X s" and "meta_view X s k = None"
  obtains r where "get_directory_metadata X k s = Ret r s" and "\<not> resp_success r"
  using assms meta_store.get_NoneE unfolding ready_def by blast

lemma get_present:
  "ready X s \<Longrightarrow> meta_view X s k = Some v \<Longrightarrow>
     get_directory_metadata X k s = Ret (mk_response v [] True) s"
  by (simp add: ready_def meta_store.get_Some)

lemma ready_net: "ready X s \<Longrightarrow> store_ok X (s\<lparr>net := c\<rparr>) \<Longrightarrow> ready X (s\<lparr>net := c\<rparr>)"
  by (simp add: ready_def)

lemma ready_backed: "ready X s \<Longrightarrow> cluster_backed X"
  by (simp add: ready_def store_ok_def)

lemma dump_backed: "cluster_backed X \<Longrightarrow> dump X j = Inr (text_of X j)"
  by (simp add: cluster_backedD)

section \<open>Creating\<close>

text \<open>Two writes in a row, of a new key and of its parent's.\<close>

lemma set_twiceE:
  assumes "ready X s" and "marker_not_json X"
  obtains r1 r2 c1 c2 where "set_directory_metadata X k1 j1 s = Ret r1 (s\<lparr>net := c1\<rparr>)"
    and "set_directory_metadata X k2 j2 (s\<lparr>net := c1\<rparr>) = Ret r2 (s\<lparr>net := c2\<rparr>)"
    and "resp_success r1" and "resp_success r2" and "store_ok X (s\<lparr>net := c1\<rparr>)"
    and "store_ok X (s\<lparr>net := c2\<rparr>)"
    and "meta_view X (s\<lparr>net := c2\<rparr>) = (meta_view X s)(k1 \<mapsto> text_of X j1, k2 \<mapsto> text_of X j2)"
proof -
  have "store_ok X s" using assms(1) by (simp add: ready_def)
  from set_directory_metadataE [OF this assms(2), of k1 j1] obtain r1 c1 where
    1: "set_directory_metadata X k1 j1 s = Ret r1 (s\<lparr>net := c1\<rparr>)" "resp_success r1"
       "store_ok X (s\<lparr>net := c1\<rparr>)" "meta_view X (s\<lparr>net := c1\<rparr>) = (meta_view X s)(k1 \<mapsto> text_of X j1)"
    by blast
  from set_directory_metadataE [OF 1(3) assms(2), of k2 j2] obtain r2 c2 where
    "set_directory_metadata X k2 j2 (s\<lparr>net := c1\<rparr>) = Ret r2 (s\<lparr>net := c2\<rparr>)" "resp_success r2"
    "store_ok X (s\<lparr>net := c2\<rparr>)"
    "meta_view X (s\<lparr>net := c2\<rparr>) = (meta_view X s)(k1 \<mapsto> text_of X j1, k2 \<mapsto> text_of X j2)"
    using 1(4) by auto
  with 1 that show ?thesis by blast
qed

lemma create_file_appends:
  assumes ready: "ready X s" and m: "marker_not_json X"
    and auth: "asks_as X s req u" and req: "request_for X req p dev"
    and new: "meta_view X s (user_key u p) = None"
    and par: "parent_of p = Some q" and D: "docs X s (user_key u q) = Some D"
    and fld: "appendable ''files'' D"
  defines "meta \<equiv> file_metadata u (time_now X (net s)) q p"
  shows "\<exists>c. create_file X req s
      = Ret (reply 200 (''{\"message\": \"File created\", \"metadata\": '' @ text_of X meta @ ''}''))
            (s\<lparr>net := c, outbox := outbox s @ notified s (notification ''FILE+'' u p dev)\<rparr>) \<and>
    store_ok X (s\<lparr>net := c\<rparr>) \<and>
    dom (meta_view X (s\<lparr>net := c\<rparr>)) = insert (user_key u p) (dom (meta_view X s)) \<and>
    docs X (s\<lparr>net := c\<rparr>) = (docs X s)(user_key u p \<mapsto> meta,
                                    user_key u q \<mapsto> with_entry ''files'' p D)"
proof -
  obtain j where j: "json_parse X (req_body req) = Some j" "contains j ''path''"
    "contains j ''device_id''" "string_at j ''path'' = Inr p" "string_at j ''device_id'' = Inr dev"
    using req by (rule request_forE)
  obtain r0 where r0: "get_directory_metadata X (user_key u p) s = Ret r0 s" "\<not> resp_success r0"
    using get_absentE [OF ready new] .
  obtain v where v: "meta_view X s (user_key u q) = Some v" "doc_of X v = Some D"
    using D by (rule docs_Some)
  from par obtain i where i: "find_last_of CHR ''/'' p = Some i" "q = take i p"
    by (auto simp: parent_of_def split: option.splits)
  obtain fs fs1 where fs: "subscript D ''files'' = Inr fs" "push_back fs (JStr p) = Inr fs1"
    "set_key D ''files'' fs1 = Inr (with_entry ''files'' p D)" using append_entry [OF fld] .
  have pp: "parse_parent X v = Inr D" using v(2) by (simp add: parse_parent_doc)
  have X: "cluster_backed X" using ready by (rule ready_backed)
  obtain r1 r2 c1 c2 where
    w: "set_directory_metadata X (user_key u p) (JStr (text_of X meta)) s = Ret r1 (s\<lparr>net := c1\<rparr>)"
       "set_directory_metadata X (user_key u q) (JStr (text_of X (with_entry ''files'' p D)))
          (s\<lparr>net := c1\<rparr>) = Ret r2 (s\<lparr>net := c2\<rparr>)"
       "resp_success r1" "resp_success r2" "store_ok X (s\<lparr>net := c2\<rparr>)"
       "meta_view X (s\<lparr>net := c2\<rparr>) = (meta_view X s)(user_key u p \<mapsto> text_of X (JStr (text_of X meta)),
          user_key u q \<mapsto> text_of X (JStr (text_of X (with_entry ''files'' p D))))"
    using set_twiceE [OF ready m] by metis
  have "create_file_body X u req s
      = Ret (reply 200 (''{\"message\": \"File created\", \"metadata\": '' @ text_of X meta @ ''}''))
            (s\<lparr>net := c2, outbox := outbox s @ notified s (notification ''FILE+'' u p dev)\<rparr>)"
    using j r0 i v fs ready w pp X get_present [OF ready v(1)]
    by (simp add: create_file_body_def Let_def meta_def cluster_backedD)
  moreover have "docs X (s\<lparr>net := c2\<rparr>) = (docs X s)(user_key u p \<mapsto> meta,
                                    user_key u q \<mapsto> with_entry ''files'' p D)"
    using w(6) X by (auto simp: docs_def fun_eq_iff)
  moreover have "dom (meta_view X (s\<lparr>net := c2\<rparr>)) = insert (user_key u p) (dom (meta_view X s))"
    using w(6) v(1) by (auto simp: dom_def)
  ultimately show ?thesis
    using auth w(5) by (intro exI [of _ c2]) (simp add: create_file_def)
qed

lemma create_file_runs:
  assumes ready: "ready X s" and m: "marker_not_json X"
    and auth: "asks_as X s req u" and req: "request_for X req p dev"
    and new: "meta_view X s (user_key u p) = None"
    and par: "parent_of p = Some q" and D: "docs X s (user_key u q) = Some D"
    and fld: "lists_field ''files'' D"
  shows "\<exists>c. create_file X req s
      = Ret (reply 200 (''{\"message\": \"File created\", \"metadata\": '' @ text_of X (file_metadata u (time_now X (net s)) q p) @ ''}''))
            (s\<lparr>net := c, outbox := outbox s @ notified s (notification ''FILE+'' u p dev)\<rparr>) \<and>
    store_ok X (s\<lparr>net := c\<rparr>) \<and>
    dom (meta_view X (s\<lparr>net := c\<rparr>)) = insert (user_key u p) (dom (meta_view X s)) \<and>
    docs X (s\<lparr>net := c\<rparr>) = (docs X s)(user_key u p \<mapsto> file_metadata u (time_now X (net s)) q p,
                                    user_key u q \<mapsto> with_entry ''files'' p D)"
  using create_file_appends [OF assms(1-7)] assms(8) by simp

lemma create_file_refused:
  assumes ready: "ready X s" and auth: "asks_as X s req u" and req: "request_for X req p dev"
    and new: "meta_view X s (user_key u p) = None"
    and par: "parent_of p = Some q" and D: "docs X s (user_key u q) = Some D"
    and fld: "is_object D" "\<not> appendable ''files'' D"
  shows "create_file X req s = Ret internal_error s"
proof -
  obtain j where j: "json_parse X (req_body req) = Some j" "contains j ''path''"
    "contains j ''device_id''" "string_at j ''path'' = Inr p" "string_at j ''device_id'' = Inr dev"
    using req by (rule request_forE)
  obtain r0 where r0: "get_directory_metadata X (user_key u p) s = Ret r0 s" "\<not> resp_success r0"
    using get_absentE [OF ready new] .
  obtain v where v: "meta_view X s (user_key u q) = Some v" "doc_of X v = Some D"
    using D by (rule docs_Some)
  from par obtain i where i: "find_last_of CHR ''/'' p = Some i" "q = take i p"
    by (auto simp: parent_of_def split: option.splits)
  obtain fs e where "subscript D ''files'' = Inr fs" "push_back fs (JStr p) = Inl e"
    using append_refused [OF fld] .
  moreover have "parse_parent X v = Inr D" using v(2) by (simp add: parse_parent_doc)
  ultimately show ?thesis
    using j r0 i v auth get_present [OF ready v(1)] ready_backed [OF ready]
    by (simp add: create_file_def create_file_body_def Let_def cluster_backedD)
qed

lemma create_directory_runs:
  assumes ready: "ready X s" and m: "marker_not_json X"
    and auth: "asks_as X s req u" and req: "request_for X req p dev"
    and new: "meta_view X s (user_key u p) = None"
    and par: "parent_of p = Some q" and D: "docs X s (user_key u q) = Some D"
    and fld: "lists_field ''subdirectories'' D"
  defines "meta \<equiv> dir_metadata u (time_now X (net s))"
  shows "\<exists>c. create_directory X req s
      = Ret (reply 200 (''{\"message\": \"Directory created\", \"metadata\": '' @ text_of X meta @ ''}''))
            (s\<lparr>net := c, outbox := outbox s @ notified s (notification ''DIR+'' u p dev)\<rparr>) \<and>
    store_ok X (s\<lparr>net := c\<rparr>) \<and>
    dom (meta_view X (s\<lparr>net := c\<rparr>)) = insert (user_key u p) (dom (meta_view X s)) \<and>
    docs X (s\<lparr>net := c\<rparr>) = (docs X s)(user_key u p \<mapsto> meta,
                                    user_key u q \<mapsto> with_entry ''subdirectories'' p D)"
proof -
  obtain j where j: "json_parse X (req_body req) = Some j" "contains j ''path''"
    "contains j ''device_id''" "string_at j ''path'' = Inr p" "string_at j ''device_id'' = Inr dev"
    using req by (rule request_forE)
  obtain r0 where r0: "get_directory_metadata X (user_key u p) s = Ret r0 s" "\<not> resp_success r0"
    using get_absentE [OF ready new] .
  obtain v where v: "meta_view X s (user_key u q) = Some v" "doc_of X v = Some D"
    using D by (rule docs_Some)
  from par obtain i where i: "find_last_of CHR ''/'' p = Some i" "q = take i p"
    by (auto simp: parent_of_def split: option.splits)
  obtain mm js where mm: "D = JObj mm" "fmlookup mm ''subdirectories'' = Some (JArr js)"
    using fld by (rule lists_fieldE)
  have D': "with_entry ''subdirectories'' p (JObj mm)
            = JObj (fmupd ''subdirectories'' (JArr (js @ [JStr p])) mm)"
    using mm by (simp add: with_entry_def entries_def)
  have pp: "parse_parent X v = Inr (JObj mm)"
    using v(2) mm(1) by (simp add: parse_parent_doc)
  have X: "cluster_backed X" using ready by (rule ready_backed)
  obtain r1 r2 c1 c2 where
    w: "set_directory_metadata X (user_key u p) meta s = Ret r1 (s\<lparr>net := c1\<rparr>)"
       "set_directory_metadata X (user_key u q) (with_entry ''subdirectories'' p D)
          (s\<lparr>net := c1\<rparr>) = Ret r2 (s\<lparr>net := c2\<rparr>)"
       "resp_success r1" "resp_success r2" "store_ok X (s\<lparr>net := c2\<rparr>)"
       "meta_view X (s\<lparr>net := c2\<rparr>) = (meta_view X s)(user_key u p \<mapsto> text_of X meta,
          user_key u q \<mapsto> text_of X (with_entry ''subdirectories'' p D))"
    using set_twiceE [OF ready m] by metis
  have "create_directory_body X u req s
      = Ret (reply 200 (''{\"message\": \"Directory created\", \"metadata\": '' @ text_of X meta @ ''}''))
            (s\<lparr>net := c2, outbox := outbox s @ notified s (notification ''DIR+'' u p dev)\<rparr>)"
    using j r0 i v mm ready w pp X get_present [OF ready v(1)]
    by (simp add: create_directory_body_def Let_def D' meta_def cluster_backedD)
  moreover have "docs X (s\<lparr>net := c2\<rparr>) = (docs X s)(user_key u p \<mapsto> meta,
                                    user_key u q \<mapsto> with_entry ''subdirectories'' p D)"
    using w(6) X fld by (auto simp: docs_def fun_eq_iff meta_def dir_metadata_def)
  moreover have "dom (meta_view X (s\<lparr>net := c2\<rparr>)) = insert (user_key u p) (dom (meta_view X s))"
    using w(6) v(1) by (auto simp: dom_def)
  ultimately show ?thesis
    using auth w(5) by (intro exI [of _ c2]) (simp add: create_directory_def)
qed

text \<open>Without a list in the parent, the directory is stored and its parent stays as it is.\<close>

lemma create_directory_unlisted:
  assumes ready: "ready X s" and m: "marker_not_json X"
    and auth: "asks_as X s req u" and req: "request_for X req p dev"
    and new: "meta_view X s (user_key u p) = None"
    and par: "parent_of p = Some q" and D: "docs X s (user_key u q) = Some D"
    and fld: "is_object D" "\<not> lists_field ''subdirectories'' D"
  shows "\<exists>c. create_directory X req s = Ret internal_error (s\<lparr>net := c\<rparr>) \<and>
    store_ok X (s\<lparr>net := c\<rparr>) \<and>
    dom (meta_view X (s\<lparr>net := c\<rparr>)) = insert (user_key u p) (dom (meta_view X s)) \<and>
    docs X (s\<lparr>net := c\<rparr>) = (docs X s)(user_key u p \<mapsto> dir_metadata u (time_now X (net s)))"
proof -
  let ?meta = "dir_metadata u (time_now X (net s))"
  obtain j where j: "json_parse X (req_body req) = Some j" "contains j ''path''"
    "contains j ''device_id''" "string_at j ''path'' = Inr p" "string_at j ''device_id'' = Inr dev"
    using req by (rule request_forE)
  obtain r0 where r0: "get_directory_metadata X (user_key u p) s = Ret r0 s" "\<not> resp_success r0"
    using get_absentE [OF ready new] .
  obtain v where v: "meta_view X s (user_key u q) = Some v" "doc_of X v = Some D"
    using D by (rule docs_Some)
  from par obtain i where i: "find_last_of CHR ''/'' p = Some i" "q = take i p"
    by (auto simp: parent_of_def split: option.splits)
  obtain sd where sd: "subscript D ''subdirectories'' = Inr sd" "\<not> is_array sd" using no_list [OF disjI1 [OF fld(1)] fld(2)] .
  have pp: "parse_parent X v = Inr D" using v(2) by (simp add: parse_parent_doc)
  have X: "cluster_backed X" using ready by (rule ready_backed)
  have "store_ok X s" using ready by (simp add: ready_def)
  then obtain r c where w: "set_directory_metadata X (user_key u p) ?meta s = Ret r (s\<lparr>net := c\<rparr>)"
    "resp_success r" "store_ok X (s\<lparr>net := c\<rparr>)" "meta_view X (s\<lparr>net := c\<rparr>) = (meta_view X s)(user_key u p \<mapsto> text_of X ?meta)"
    using set_directory_metadataE [OF _ m, of s "user_key u p" ?meta] by metis
  have "create_directory_body X u req s = Ret internal_error (s\<lparr>net := c\<rparr>)"
    using j r0 i v sd w pp get_present [OF ready v(1)]
    by (simp add: create_directory_body_def Let_def)
  moreover have "docs X (s\<lparr>net := c\<rparr>) = (docs X s)(user_key u p \<mapsto> ?meta)"
    using w(4) X by (auto simp: docs_def fun_eq_iff dir_metadata_def)
  ultimately show ?thesis using auth w(3,4) by (intro exI [of _ c]) (simp add: create_directory_def)
qed

section \<open>Deleting\<close>

lemma delete_thenE:
  assumes "ready X s"
  obtains r c where "delete_directory_metadata X k s = Ret r (s\<lparr>net := c\<rparr>)"
    and "ready X (s\<lparr>net := c\<rparr>)"
    and "meta_view X (s\<lparr>net := c\<rparr>) = (meta_view X s)(k := None)"
proof -
  have "store_ok X s" using assms by (simp add: ready_def)
  from delete_directory_metadataE [OF this, of k] assms show ?thesis
    by (metis that ready_net)
qed

lemma set_onceE:
  assumes "ready X s" and "marker_not_json X"
  obtains r c where "set_directory_metadata X k j s = Ret r (s\<lparr>net := c\<rparr>)"
    and "store_ok X (s\<lparr>net := c\<rparr>)"
    and "meta_view X (s\<lparr>net := c\<rparr>) = (meta_view X s)(k \<mapsto> text_of X j)"
  using set_directory_metadataE [of X s k j] assms unfolding ready_def by metis

text \<open>What the deletion of a listed path sends and queues.\<close>

definition deletion_kind :: "string \<Rightarrow> string \<times> string" where
  "deletion_kind p = (if is_txt p then (''files'', ''FILE-'') else (''subdirectories'', ''DIR-''))"

lemma delete_from_parent_listed:
  assumes "ready X s" and "lists_field (fst (deletion_kind p)) D"
  shows "delete_from_parent X u p dev (is_txt p) D (s\<lparr>net := c\<rparr>)
    = Ret (without_entry (fst (deletion_kind p)) p D)
          (s\<lparr>net := c,
             deletion_queue := deletion_queue s @ (if is_txt p then [user_key u p] else []),
             outbox := outbox s @ notified s (notification (snd (deletion_kind p)) u p dev)\<rparr>)"
proof -
  from assms(1) obtain servers where b: "broadcaster (init s) = Some servers"
    by (auto simp: ready_def)
  from assms(2) obtain m js where m: "D = JObj m" "fmlookup m (fst (deletion_kind p)) = Some (JArr js)"
    by (rule lists_fieldE)
  show ?thesis
  proof (cases "is_txt p")
    case True
    with b m show ?thesis
      by (simp add: delete_from_parent_def deletion_kind_def erase_all_def without_entry_def
            entries_def enqueue_def broadcast_def notified_def)
  next
    case False
    with b m show ?thesis
      by (simp add: delete_from_parent_def deletion_kind_def erase_all_def without_entry_def
            entries_def broadcast_def notified_def)
  qed
qed

lemma parent_dir_of_Some [simp]: "parent_of p = Some q \<Longrightarrow> parent_dir_of p = q"
  by (auto simp: parent_of_def parent_dir_of_def split: option.splits)

lemma delete_path_runs:
  assumes ready: "ready X s" and m: "marker_not_json X"
    and auth: "asks_as X s req u" and req: "request_for X req p dev"
    and old: "meta_view X s (user_key u p) \<noteq> None"
    and par: "parent_of p = Some q" and D: "docs X s (user_key u q) = Some D"
    and fld: "lists_field (fst (deletion_kind p)) D"
  shows "\<exists>c. delete_path X req s
      = Ret (reply (-1) ''{\"message\": \"Path deleted\"}'')
            (s\<lparr>net := c,
               deletion_queue := deletion_queue s @ (if is_txt p then [user_key u p] else []),
               outbox := outbox s @ notified s (notification (snd (deletion_kind p)) u p dev)\<rparr>) \<and>
    store_ok X (s\<lparr>net := c\<rparr>) \<and>
    dom (meta_view X (s\<lparr>net := c\<rparr>)) = dom (meta_view X s) - {user_key u p} \<and>
    docs X (s\<lparr>net := c\<rparr>) = (docs X s)(user_key u p := None,
                  user_key u q \<mapsto> without_entry (fst (deletion_kind p)) p D)"
proof -
  let ?D' = "without_entry (fst (deletion_kind p)) p D"
  let ?kq = "user_key u q"
  obtain j where j: "json_parse X (req_body req) = Some j" "contains j ''path''"
    "contains j ''device_id''" "string_at j ''path'' = Inr p" "string_at j ''device_id'' = Inr dev"
    using req by (rule request_forE)
  obtain w where w: "meta_view X s (user_key u p) = Some w" using old by blast
  obtain v where v: "meta_view X s ?kq = Some v" "doc_of X v = Some D"
    using D by (rule docs_Some)
  have X: "cluster_backed X" using ready by (rule ready_backed)
  obtain r1 c1 where d: "delete_directory_metadata X (user_key u p) s = Ret r1 (s\<lparr>net := c1\<rparr>)"
    "ready X (s\<lparr>net := c1\<rparr>)" "meta_view X (s\<lparr>net := c1\<rparr>) = (meta_view X s)(user_key u p := None)"
    using delete_thenE [OF ready] .
  have v1: "meta_view X (s\<lparr>net := c1\<rparr>) ?kq = Some v"
    using d(3) v(1) parent_key_neq [OF par] by simp
  obtain o1 where o1: "json_parse X v = Some o1"
    "(case o1 of JStr t \<Rightarrow> lift_exn (parse X t) | _ \<Rightarrow> ret o1) = (ret D :: (cluster mstate, json) prog)"
    using parse_then_unwrap [OF v(2)] .
  let ?s2 = "s\<lparr>net := c1,
      deletion_queue := deletion_queue s @ (if is_txt p then [user_key u p] else []),
      outbox := outbox s @ notified s (notification (snd (deletion_kind p)) u p dev)\<rparr>"
  have "ready X ?s2" using d(2) by (simp add: ready_def)
  then obtain r2 c2 where w2: "set_directory_metadata X ?kq ?D' ?s2 = Ret r2 (?s2\<lparr>net := c2\<rparr>)"
    "store_ok X (?s2\<lparr>net := c2\<rparr>)"
    "meta_view X (?s2\<lparr>net := c2\<rparr>) = (meta_view X ?s2)(?kq \<mapsto> text_of X ?D')"
    using set_onceE [OF _ m] by metis
  have run: "delete_path_body X u req s = Ret (reply (-1) ''{\"message\": \"Path deleted\"}'') (?s2\<lparr>net := c2\<rparr>)"
    using j w d(1) o1 w2(1) get_present [OF ready w] get_present [OF d(2) v1] par
      delete_from_parent_listed [OF ready fld, of u dev c1]
    by (simp add: delete_path_body_def Let_def fresh_response_def)
  have "meta_view X (s\<lparr>net := c2\<rparr>) = meta_view X (?s2\<lparr>net := c2\<rparr>)"
    "meta_view X ?s2 = meta_view X (s\<lparr>net := c1\<rparr>)"
    by (simp_all add: meta_view_def)
  then have view: "meta_view X (s\<lparr>net := c2\<rparr>) = (meta_view X s)(user_key u p := None, ?kq \<mapsto> text_of X ?D')"
    using w2(3) d(3) by simp
  then have "docs X (s\<lparr>net := c2\<rparr>) = (docs X s)(user_key u p := None, ?kq \<mapsto> ?D')"
    using X fld by (simp add: docs_def fun_eq_iff)
  moreover have "dom (meta_view X (s\<lparr>net := c2\<rparr>)) = dom (meta_view X s) - {user_key u p}"
    using view v(1) parent_key_neq [OF par, of u] by (auto simp: dom_def)
  moreover have "store_ok X (s\<lparr>net := c2\<rparr>)" using w2(2) by (simp add: store_ok_def)
  ultimately show ?thesis
    using run auth by (intro exI [of _ c2]) (simp add: delete_path_def)
qed

text \<open>A stored parent without the list gets null there; nothing is queued and no message sent.\<close>

lemma delete_path_unlisted:
  assumes ready: "ready X s" and m: "marker_not_json X"
    and auth: "asks_as X s req u" and req: "request_for X req p dev"
    and old: "meta_view X s (user_key u p) \<noteq> None"
    and par: "parent_of p = Some q" and D: "docs X s (user_key u q) = Some D"
    and fld: "is_object D \<or> D = JNull" "\<not> lists_field (fst (deletion_kind p)) D"
  shows "\<exists>c. delete_path X req s = Ret (reply (-1) ''{\"message\": \"Path deleted\"}'') (s\<lparr>net := c\<rparr>) \<and>
    store_ok X (s\<lparr>net := c\<rparr>) \<and>
    dom (meta_view X (s\<lparr>net := c\<rparr>)) = dom (meta_view X s) - {user_key u p} \<and>
    docs X (s\<lparr>net := c\<rparr>) = (docs X s)(user_key u p := None,
                  user_key u q \<mapsto> subscripted D (fst (deletion_kind p)))"
proof -
  let ?D' = "subscripted D (fst (deletion_kind p))"
  let ?kq = "user_key u q"
  obtain j where j: "json_parse X (req_body req) = Some j" "contains j ''path''"
    "contains j ''device_id''" "string_at j ''path'' = Inr p" "string_at j ''device_id'' = Inr dev"
    using req by (rule request_forE)
  obtain w where w: "meta_view X s (user_key u p) = Some w" using old by blast
  obtain v where v: "meta_view X s ?kq = Some v" "doc_of X v = Some D"
    using D by (rule docs_Some)
  have X: "cluster_backed X" using ready by (rule ready_backed)
  obtain r1 c1 where d: "delete_directory_metadata X (user_key u p) s = Ret r1 (s\<lparr>net := c1\<rparr>)"
    "ready X (s\<lparr>net := c1\<rparr>)" "meta_view X (s\<lparr>net := c1\<rparr>) = (meta_view X s)(user_key u p := None)"
    using delete_thenE [OF ready] .
  have v1: "meta_view X (s\<lparr>net := c1\<rparr>) ?kq = Some v"
    using d(3) v(1) parent_key_neq [OF par] by simp
  obtain o1 where o1: "json_parse X v = Some o1"
    "(case o1 of JStr t \<Rightarrow> lift_exn (parse X t) | _ \<Rightarrow> ret o1) = (ret D :: (cluster mstate, json) prog)"
    using parse_then_unwrap [OF v(2)] .
  obtain x where x: "subscript D (fst (deletion_kind p)) = Inr x" "\<not> is_array x" using no_list [OF fld] .
  have step: "delete_from_parent X u p dev (is_txt p) D (s\<lparr>net := c1\<rparr>) = Ret ?D' (s\<lparr>net := c1\<rparr>)"
    using x by (auto simp: delete_from_parent_def deletion_kind_def split: if_splits)
  obtain r2 c2 where w2: "set_directory_metadata X ?kq ?D' (s\<lparr>net := c1\<rparr>) = Ret r2 (s\<lparr>net := c2\<rparr>)"
    "store_ok X (s\<lparr>net := c2\<rparr>)"
    "meta_view X (s\<lparr>net := c2\<rparr>) = (meta_view X (s\<lparr>net := c1\<rparr>))(?kq \<mapsto> text_of X ?D')"
    using set_onceE [OF d(2) m, of ?kq ?D'] by auto
  have run: "delete_path_body X u req s = Ret (reply (-1) ''{\"message\": \"Path deleted\"}'') (s\<lparr>net := c2\<rparr>)"
    using j w d(1) o1 w2(1) get_present [OF ready w] get_present [OF d(2) v1] par step
    by (simp add: delete_path_body_def Let_def fresh_response_def)
  have view: "meta_view X (s\<lparr>net := c2\<rparr>) = (meta_view X s)(user_key u p := None, ?kq \<mapsto> text_of X ?D')"
    using w2(3) d(3) by simp
  then have "docs X (s\<lparr>net := c2\<rparr>) = (docs X s)(user_key u p := None, ?kq \<mapsto> ?D')"
    using X fld(1) is_object_not_string [of ?D'] by (simp add: docs_def fun_eq_iff)
  moreover have "dom (meta_view X (s\<lparr>net := c2\<rparr>)) = dom (meta_view X s) - {user_key u p}"
    using view v(1) parent_key_neq [OF par, of u] by (auto simp: dom_def)
  ultimately show ?thesis
    using run auth w2(2) by (intro exI [of _ c2]) (simp add: delete_path_def)
qed

text \<open>A stored parent that does not parse or has no members: the key is gone when the exception comes.\<close>

lemma delete_path_broken:
  assumes ready: "ready X s"
    and auth: "asks_as X s req u" and req: "request_for X req p dev"
    and old: "meta_view X s (user_key u p) \<noteq> None"
    and par: "parent_of p = Some q" and v: "meta_view X s (user_key u q) = Some v"
    and bad: "\<And>D. doc_of X v = Some D \<Longrightarrow> \<not> is_object D \<and> D \<noteq> JNull"
  shows "\<exists>c e. delete_path X req s = Throw e (s\<lparr>net := c\<rparr>) \<and> store_ok X (s\<lparr>net := c\<rparr>) \<and>
    meta_view X (s\<lparr>net := c\<rparr>) = (meta_view X s)(user_key u p := None)"
proof -
  obtain j where j: "json_parse X (req_body req) = Some j" "contains j ''path''"
    "contains j ''device_id''" "string_at j ''path'' = Inr p" "string_at j ''device_id'' = Inr dev"
    using req by (rule request_forE)
  obtain w where w: "meta_view X s (user_key u p) = Some w" using old by blast
  obtain r1 c1 where d: "delete_directory_metadata X (user_key u p) s = Ret r1 (s\<lparr>net := c1\<rparr>)"
    "ready X (s\<lparr>net := c1\<rparr>)" "meta_view X (s\<lparr>net := c1\<rparr>) = (meta_view X s)(user_key u p := None)"
    using delete_thenE [OF ready] .
  have v1: "meta_view X (s\<lparr>net := c1\<rparr>) (user_key u q) = Some v"
    using d(3) v parent_key_neq [OF par] by simp
  have throws: "delete_from_parent X u p dev b D s1 = Throw Json_type_error s1"
    if "doc_of X v = Some D" for D b and s1 :: "cluster mstate"
    using no_member bad [OF that] by (auto simp: delete_from_parent_def)
  have "\<exists>e. delete_path_body X u req s = Throw e (s\<lparr>net := c1\<rparr>)"
  proof (cases "doc_of X v")
    case None
    then have "json_parse X v = None \<or> (\<exists>t. json_parse X v = Some (JStr t) \<and> json_parse X t = None)"
      by (auto simp: doc_of_def split: option.splits json.splits)
    then show ?thesis
      using j w d(1) get_present [OF ready w] get_present [OF d(2) v1] par
      by (auto simp: delete_path_body_def Let_def parse_def)
  next
    case (Some D)
    obtain o1 where "json_parse X v = Some o1"
      "(case o1 of JStr t \<Rightarrow> lift_exn (parse X t) | _ \<Rightarrow> ret o1) = (ret D :: (cluster mstate, json) prog)"
      using parse_then_unwrap [OF Some] .
    then show ?thesis
      using j w d(1) get_present [OF ready w] get_present [OF d(2) v1] par throws [OF Some]
      by (simp add: delete_path_body_def Let_def)
  qed
  moreover have "store_ok X (s\<lparr>net := c1\<rparr>)" using d(2) by (simp add: ready_def)
  ultimately show ?thesis
    using auth d(3) by (auto simp: delete_path_def)
qed

text \<open>Without a parent, only the key goes, and a file's data is still queued.\<close>

lemma delete_path_orphan:
  assumes ready: "ready X s"
    and auth: "asks_as X s req u" and req: "request_for X req p dev"
    and old: "meta_view X s (user_key u p) \<noteq> None"
    and par: "\<And>q. parent_of p = Some q \<Longrightarrow> meta_view X s (user_key u q) = None"
  shows "\<exists>c. delete_path X req s
      = Ret (reply (-1) ''{\"message\": \"Path deleted\"}'')
            (s\<lparr>net := c,
               deletion_queue := deletion_queue s @ (if is_txt p then [user_key u p] else [])\<rparr>) \<and>
    store_ok X (s\<lparr>net := c\<rparr>) \<and>
    meta_view X (s\<lparr>net := c\<rparr>) = (meta_view X s)(user_key u p := None)"
proof -
  obtain j where j: "json_parse X (req_body req) = Some j" "contains j ''path''"
    "contains j ''device_id''" "string_at j ''path'' = Inr p" "string_at j ''device_id'' = Inr dev"
    using req by (rule request_forE)
  obtain w where w: "meta_view X s (user_key u p) = Some w" using old by blast
  obtain r1 c1 where d: "delete_directory_metadata X (user_key u p) s = Ret r1 (s\<lparr>net := c1\<rparr>)"
    "ready X (s\<lparr>net := c1\<rparr>)" "meta_view X (s\<lparr>net := c1\<rparr>) = (meta_view X s)(user_key u p := None)"
    using delete_thenE [OF ready] .
  have "meta_view X (s\<lparr>net := c1\<rparr>) (user_key u (parent_dir_of p)) = None"
  proof (cases "parent_of p")
    case None
    then have "parent_dir_of p = p" by (simp add: parent_of_def parent_dir_of_def)
    with d(3) show ?thesis by simp
  next
    case (Some q)
    with par d(3) show ?thesis by simp
  qed
  from get_absentE [OF d(2) this] obtain r where
    "get_directory_metadata X (user_key u (parent_dir_of p)) (s\<lparr>net := c1\<rparr>) = Ret r (s\<lparr>net := c1\<rparr>)"
    "\<not> resp_success r" .
  with j w d(1) get_present [OF ready w]
  have "delete_path_body X u req s = Ret (reply (-1) ''{\"message\": \"Path deleted\"}'')
            (s\<lparr>net := c1,
               deletion_queue := deletion_queue s @ (if is_txt p then [user_key u p] else [])\<rparr>)"
    by (simp add: delete_path_body_def Let_def fresh_response_def enqueue_def)
  moreover have "store_ok X (s\<lparr>net := c1\<rparr>)" using d(2) by (simp add: ready_def)
  ultimately show ?thesis
    using auth d(3) by (intro exI [of _ c1]) (simp add: delete_path_def)
qed

section \<open>Reading\<close>

lemma list_directory_runs:
  assumes ready: "ready X s" and auth: "asks_as X s req u"
    and body: "json_parse X (req_body req) = Some j" "string_at j ''path'' = Inr p"
  shows "list_directory X req s =
    Ret (case meta_view X s (user_key u p) of
           None \<Rightarrow> reply 404 (err ''Directory not found'')
         | Some v \<Rightarrow> (case json_parse X v of
                      None \<Rightarrow> reply 500 (err ''Failed to parse metadata'')
                    | Some d \<Rightarrow> reply 200 (text_of X d))) s"
proof (cases "meta_view X s (user_key u p)")
  case None
  from get_absentE [OF ready None] obtain r where
    "get_directory_metadata X (user_key u p) s = Ret r s" "\<not> resp_success r" .
  with None body auth string_at_contains [OF body(2)] show ?thesis
    by (simp add: list_directory_def list_directory_body_def)
next
  case (Some v)
  with get_present [OF ready Some] body auth string_at_contains [OF body(2)] ready_backed [OF ready]
  show ?thesis
    by (cases "json_parse X v") (simp_all add: list_directory_def list_directory_body_def cluster_backedD)
qed

lemma get_file_endpoints_runs:
  assumes ready: "ready X s" and auth: "asks_as X s req u"
    and body: "json_parse X (req_body req) = Some j" "string_at j ''path'' = Inr p"
    and D: "docs X s (user_key u p) = Some D"
  shows "get_file_endpoints X req s =
    Ret (reply 200 (text_of X (obj [(''endpoints'', JArr (map JStr
           (group_of X (blockserver_lists (init s)) (user_key u p))))]))) s"
proof -
  from D obtain v where v: "meta_view X s (user_key u p) = Some v" "doc_of X v = Some D"
    by (rule docs_Some)
  have "(case parse X v of Inr (JStr t) \<Rightarrow> parse X t | r \<Rightarrow> r) = Inr D"
    using v(2) by (auto simp: doc_of_def split: option.splits json.splits)
  with get_present [OF ready v(1)] body auth string_at_contains [OF body(2)] ready_backed [OF ready] ready
  show ?thesis
    by (simp add: get_file_endpoints_def get_file_endpoints_body_def Let_def cluster_backedD
          select_block_server_group_def ready_def)
qed

section \<open>Refusals\<close>

lemma create_file_exists:
  assumes ready: "ready X s" and auth: "asks_as X s req u" and req: "request_for X req p dev"
    and old: "meta_view X s (user_key u p) \<noteq> None"
  shows "create_file X req s = Ret (reply 200 ''{\"success\": \"File already exists\"}'') s"
proof -
  obtain v where v: "meta_view X s (user_key u p) = Some v" using old by blast
  from req obtain j where "json_parse X (req_body req) = Some j" "contains j ''path''"
    "contains j ''device_id''" "string_at j ''path'' = Inr p" "string_at j ''device_id'' = Inr dev"
    by (rule request_forE)
  with get_present [OF ready v] auth show ?thesis
    by (simp add: create_file_def create_file_body_def Let_def)
qed

lemma create_directory_exists:
  assumes ready: "ready X s" and auth: "asks_as X s req u" and req: "request_for X req p dev"
    and old: "meta_view X s (user_key u p) \<noteq> None"
  shows "create_directory X req s = Ret (reply 400 (err ''Directory already exists'')) s"
proof -
  obtain v where v: "meta_view X s (user_key u p) = Some v" using old by blast
  from req obtain j where "json_parse X (req_body req) = Some j" "contains j ''path''"
    "contains j ''device_id''" "string_at j ''path'' = Inr p" "string_at j ''device_id'' = Inr dev"
    by (rule request_forE)
  with get_present [OF ready v] auth show ?thesis
    by (simp add: create_directory_def create_directory_body_def Let_def)
qed

lemma delete_path_absent:
  assumes ready: "ready X s" and auth: "asks_as X s req u" and req: "request_for X req p dev"
    and new: "meta_view X s (user_key u p) = None"
  shows "delete_path X req s = Ret (reply 404 (err ''Path not found'')) s"
proof -
  from req obtain j where j: "json_parse X (req_body req) = Some j" "contains j ''path''"
    "contains j ''device_id''" "string_at j ''path'' = Inr p" "string_at j ''device_id'' = Inr dev"
    by (rule request_forE)
  from get_absentE [OF ready new] obtain r where
    "get_directory_metadata X (user_key u p) s = Ret r s" "\<not> resp_success r" .
  with j auth show ?thesis by (simp add: delete_path_def delete_path_body_def Let_def)
qed

text \<open>A parent that does not exist, or a path without a slash.\<close>

definition orphan_refusal :: "string \<Rightarrow> http_response" where
  "orphan_refusal p = (case parent_of p of
      None \<Rightarrow> reply 400 (err ''Invalid file path'')
    | Some q \<Rightarrow> reply 404 (err ''Parent directory not found''))"

lemma create_orphan:
  assumes ready: "ready X s" and auth: "asks_as X s req u" and req: "request_for X req p dev"
    and new: "meta_view X s (user_key u p) = None"
    and par: "\<And>q. parent_of p = Some q \<Longrightarrow> meta_view X s (user_key u q) = None"
  shows "create_file X req s = Ret (orphan_refusal p) s"
    and "create_directory X req s = Ret (orphan_refusal p) s"
proof -
  from req obtain j where j: "json_parse X (req_body req) = Some j" "contains j ''path''"
    "contains j ''device_id''" "string_at j ''path'' = Inr p" "string_at j ''device_id'' = Inr dev"
    by (rule request_forE)
  obtain r where r: "get_directory_metadata X (user_key u p) s = Ret r s" "\<not> resp_success r"
    using get_absentE [OF ready new] .
  have "create_file X req s = Ret (orphan_refusal p) s \<and>
        create_directory X req s = Ret (orphan_refusal p) s"
  proof (cases "find_last_of CHR ''/'' p")
    case None
    with j r auth show ?thesis
      by (simp add: create_file_def create_file_body_def create_directory_def
            create_directory_body_def Let_def orphan_refusal_def parent_of_def)
  next
    case (Some i)
    then have "meta_view X s (user_key u (take i p)) = None"
      by (intro par) (simp add: parent_of_def)
    from get_absentE [OF ready this] obtain r' where
      "get_directory_metadata X (user_key u (take i p)) s = Ret r' s" "\<not> resp_success r'" .
    with Some j r auth show ?thesis
      by (simp add: create_file_def create_file_body_def create_directory_def
            create_directory_body_def Let_def orphan_refusal_def parent_of_def)
  qed
  then show "create_file X req s = Ret (orphan_refusal p) s"
    "create_directory X req s = Ret (orphan_refusal p) s" by auto
qed

end
