(* ===== verification/Toy_Codec.thy ===== *)
theory Toy_Codec
  imports Json
begin

text \<open>
  A concrete JSON codec: a length-prefixed printer for every value and its parser, with the
  proof that the parser reads back what the printer wrote.  It shows that the documented
  behaviour of the JSON library that the theorems assume (\<open>codec_ok\<close>) can hold, and it is
  the codec of every witness.
\<close>

definition enc_nat :: "nat \<Rightarrow> string" where
  "enc_nat n = replicate n CHR ''1'' @ ''0''"

fun dec_nat :: "string \<Rightarrow> (nat \<times> string) option" where
  "dec_nat [] = None"
| "dec_nat (c # cs) =
     (if c = CHR ''0'' then Some (0, cs)
      else map_option (\<lambda>(n, r). (Suc n, r)) (dec_nat cs))"

definition enc_str :: "string \<Rightarrow> string" where
  "enc_str s = enc_nat (length s) @ s"

definition dec_str :: "string \<Rightarrow> (string \<times> string) option" where
  "dec_str t = (case dec_nat t of
       None \<Rightarrow> None
     | Some (n, r) \<Rightarrow> if n \<le> length r then Some (take n r, drop n r) else None)"

lemma dec_enc_nat [simp]: "dec_nat (enc_nat n @ r) = Some (n, r)"
  by (induction n) (simp_all add: enc_nat_def)

lemma dec_enc_str [simp]: "dec_str (enc_str s @ r) = Some (s, r)"
  by (simp add: dec_str_def enc_str_def)

primrec enc :: "json \<Rightarrow> string" where
  "enc JNull = ''n''"
| "enc (JBool b) = (if b then ''t'' else ''f'')"
| "enc (JNum i) = (if i < 0 then ''m'' @ enc_nat (nat (- i)) else ''p'' @ enc_nat (nat i))"
| "enc (JFloat s) = ''d'' @ enc_str s"
| "enc (JStr s) = ''s'' @ enc_str s"
| "enc (JArr js) = ''a'' @ enc_nat (length js) @ concat (map enc js)"
| "enc (JObj m) =
     (let kvs = sorted_list_of_fmap (fmmap enc m)
      in ''o'' @ enc_nat (length kvs) @ concat (map (\<lambda>(k, e). enc_str k @ e) kvs))"

text \<open>The parser: fuel bounds the nesting depth, and the lists are read by their length.\<close>

fun dec :: "nat \<Rightarrow> string \<Rightarrow> (json \<times> string) option"
  and dec_list :: "nat \<Rightarrow> nat \<Rightarrow> string \<Rightarrow> (json list \<times> string) option"
  and dec_members :: "nat \<Rightarrow> nat \<Rightarrow> string \<Rightarrow> ((string \<times> json) list \<times> string) option" where
  "dec 0 t = None"
| "dec (Suc f) [] = None"
| "dec (Suc f) (c # r) =
     (if c = CHR ''n'' then Some (JNull, r)
      else if c = CHR ''t'' then Some (JBool True, r)
      else if c = CHR ''f'' then Some (JBool False, r)
      else if c = CHR ''m'' then map_option (\<lambda>(n, u). (JNum (- int n), u)) (dec_nat r)
      else if c = CHR ''p'' then map_option (\<lambda>(n, u). (JNum (int n), u)) (dec_nat r)
      else if c = CHR ''d'' then map_option (\<lambda>(s, u). (JFloat s, u)) (dec_str r)
      else if c = CHR ''s'' then map_option (\<lambda>(s, u). (JStr s, u)) (dec_str r)
      else if c = CHR ''a'' then
        (case dec_nat r of None \<Rightarrow> None
         | Some (n, u) \<Rightarrow> map_option (\<lambda>(js, v). (JArr js, v)) (dec_list f n u))
      else if c = CHR ''o'' then
        (case dec_nat r of None \<Rightarrow> None
         | Some (n, u) \<Rightarrow>
             map_option (\<lambda>(kvs, v). (JObj (fmap_of_list kvs), v)) (dec_members f n u))
      else None)"
| "dec_list f 0 t = Some ([], t)"
| "dec_list f (Suc n) t =
     (case dec f t of None \<Rightarrow> None
      | Some (j, u) \<Rightarrow> map_option (\<lambda>(js, v). (j # js, v)) (dec_list f n u))"
| "dec_members f 0 t = Some ([], t)"
| "dec_members f (Suc n) t =
     (case dec_str t of None \<Rightarrow> None
      | Some (k, u) \<Rightarrow>
          (case dec f u of None \<Rightarrow> None
           | Some (j, v) \<Rightarrow> map_option (\<lambda>(kvs, w). ((k, j) # kvs, w)) (dec_members f n v)))"

lemma dec_list_enc:
  assumes "\<And>j r. j \<in> set js \<Longrightarrow> dec f (enc j @ r) = Some (j, r)"
  shows "dec_list f (length js) (concat (map enc js) @ r) = Some (js, r)"
  using assms by (induction js) auto

lemma dec_members_enc:
  assumes "\<And>k j r. (k, j) \<in> set kvs \<Longrightarrow> dec f (enc j @ r) = Some (j, r)"
  shows "dec_members f (length kvs) (concat (map (\<lambda>(k, j). enc_str k @ enc j) kvs) @ r)
         = Some (kvs, r)"
  using assms
proof (induction kvs)
  case (Cons p kvs)
  obtain k j where p: "p = (k, j)" by (cases p)
  have "dec f (enc j @ u) = Some (j, u)" for u by (rule Cons.prems [of k]) (simp add: p)
  moreover have "dec_members f (length kvs) (concat (map (\<lambda>(k, j). enc_str k @ enc j) kvs) @ r)
      = Some (kvs, r)"
    by (rule Cons.IH) (auto intro: Cons.prems)
  ultimately show ?case by (simp add: p)
qed simp

lemma length_concat_le: "x \<in> set xs \<Longrightarrow> length x \<le> length (concat xs)"
  by (induction xs) auto

lemma fmap_of_sorted_list [simp]: "fmap_of_list (sorted_list_of_fmap m) = m"
  by (rule fmap_ext) (simp add: fmlookup_of_list)

lemma sorted_list_of_fmmap:
  "sorted_list_of_fmap (fmmap g m) = map (\<lambda>(k, v). (k, g v)) (sorted_list_of_fmap m)"
  by (auto simp: sorted_list_of_fmap_def)

lemma dec_enc: "length (enc j) \<le> f \<Longrightarrow> dec f (enc j @ r) = Some (j, r)"
proof (induction j arbitrary: f r)
  case (JArr js)
  then obtain g where f: "f = Suc g" by (cases f) auto
  have "dec g (enc j @ u) = Some (j, u)" if "j \<in> set js" for j u
  proof (rule JArr.IH [OF that])
    have "length (enc j) \<le> length (concat (map enc js))"
      by (rule length_concat_le) (use that in auto)
    with JArr.prems f show "length (enc j) \<le> g" by simp
  qed
  then have "dec_list g (length js) (concat (map enc js) @ r) = Some (js, r)"
    by (rule dec_list_enc)
  with f show ?case by simp
next
  case (JObj m)
  then obtain g where f: "f = Suc g" by (cases f) (auto simp: Let_def)
  let ?kvs = "sorted_list_of_fmap m"
  let ?es = "map (\<lambda>(k, j). enc_str k @ enc j) ?kvs"
  have eo: "enc (JObj m) = ''o'' @ enc_nat (length ?kvs) @ concat ?es"
    by (simp add: Let_def sorted_list_of_fmmap comp_def case_prod_unfold)
  have "dec g (enc j @ u) = Some (j, u)" if "(k, j) \<in> set ?kvs" for k j u
  proof -
    have "fmlookup m k = Some j"
      using that by (auto simp: sorted_list_of_fmap_def)
    then have "j \<in> fmran' m" by (rule fmran'I)
    moreover have "length (enc_str k @ enc j) \<le> length (concat ?es)"
      by (rule length_concat_le) (use that in force)
    then have "length (enc j) \<le> g"
      using JObj.prems f by (simp add: eo del: enc.simps)
    ultimately show ?thesis by (rule JObj.IH)
  qed
  then have "dec_members g (length ?kvs) (concat ?es @ r) = Some (?kvs, r)"
    by (rule dec_members_enc)
  then show ?case by (simp add: f eo del: enc.simps)
next
  case (JNum i)
  then show ?case by (cases f) (auto split: if_splits)
next
  case (JFloat s)
  then show ?case by (cases f) auto
next
  case (JStr s)
  then show ?case by (cases f) auto
next
  case JNull
  then show ?case by (cases f) auto
next
  case (JBool b)
  then show ?case by (cases f) (auto split: if_splits)
qed

definition toy_dump :: "json \<Rightarrow> string option" where
  "toy_dump j = Some (enc j)"

definition toy_parse :: "string \<Rightarrow> json option" where
  "toy_parse s = (case dec (length s) s of Some (j, []) \<Rightarrow> Some j | _ \<Rightarrow> None)"

lemma toy_parse_enc [simp]: "toy_parse (enc j) = Some j"
  using dec_enc [of j "length (enc j)" "[]"] by (simp add: toy_parse_def)

definition toy_codec :: codec where
  "toy_codec = \<lparr>json_parse = toy_parse, json_dump = toy_dump, json_pretty = toy_dump,
                what = (\<lambda>_. ''what''), float_trunc = (\<lambda>_. 0), json_read = toy_parse\<rparr>"

lemma toy_codec_simps [simp]:
  "json_parse toy_codec = toy_parse" "json_dump toy_codec = toy_dump"
  "json_pretty toy_codec = toy_dump"
  by (simp_all add: toy_codec_def)

lemma toy_codec_total [simp]:
  "json_parse X = toy_parse \<Longrightarrow> json_dump X = toy_dump \<Longrightarrow> json_pretty X = toy_dump \<Longrightarrow>
     codec_total X"
  by (auto simp: codec_total_def toy_dump_def)

lemma toy_codec_ok [simp]: "json_parse X = toy_parse \<Longrightarrow> json_dump X = toy_dump \<Longrightarrow> json_pretty X = toy_dump \<Longrightarrow>
     codec_ok X"
  by (auto simp: codec_ok_def toy_dump_def)

section \<open>Codecs that work on UTF-8\<close>

text \<open>The well-formed byte sequences of UTF-8, as the Unicode standard tabulates them.\<close>

definition continuation :: "nat \<Rightarrow> bool" where
  "continuation b \<longleftrightarrow> 128 \<le> b \<and> b < 192"

fun utf8_bytes :: "nat list \<Rightarrow> bool" where
  "utf8_bytes [] = True"
| "utf8_bytes (b # bs) =
     (if b < 128 then utf8_bytes bs
      else (case bs of
          [] \<Rightarrow> False
        | c # cs \<Rightarrow>
            if 194 \<le> b \<and> b < 224 then continuation c \<and> utf8_bytes cs
            else (case cs of
                [] \<Rightarrow> False
              | d # ds \<Rightarrow>
                  if 224 \<le> b \<and> b < 240 then
                    continuation c \<and> continuation d \<and> (b = 224 \<longrightarrow> 160 \<le> c) \<and> (b = 237 \<longrightarrow> c < 160) \<and>
                    utf8_bytes ds
                  else (case ds of
                      [] \<Rightarrow> False
                    | e # es \<Rightarrow>
                        240 \<le> b \<and> b < 245 \<and> continuation c \<and> continuation d \<and> continuation e \<and>
                        (b = 240 \<longrightarrow> 144 \<le> c) \<and> (b = 244 \<longrightarrow> c < 144) \<and> utf8_bytes es))))"

definition utf8 :: "string \<Rightarrow> bool" where
  "utf8 s \<longleftrightarrow> utf8_bytes (map of_char s)"

primrec utf8_json :: "json \<Rightarrow> bool" where
  "utf8_json JNull \<longleftrightarrow> True"
| "utf8_json (JBool b) \<longleftrightarrow> True"
| "utf8_json (JNum i) \<longleftrightarrow> True"
| "utf8_json (JFloat s) \<longleftrightarrow> utf8 s"
| "utf8_json (JStr s) \<longleftrightarrow> utf8 s"
| "utf8_json (JArr js) \<longleftrightarrow> list_all id (map utf8_json js)"
| "utf8_json (JObj m) \<longleftrightarrow>
     list_all (\<lambda>(k, b). utf8 k \<and> b) (sorted_list_of_fmap (fmmap utf8_json m))"

lemma not_utf8: "\<not> utf8 (CHR 0xFF # s)"
  by (auto simp: utf8_def split: list.split)

text \<open>Outside UTF-8 the extended printer writes a text that no UTF-8 text is mistaken for.\<close>

definition totalize :: "'x codec_scheme \<Rightarrow> 'x codec_scheme" where
  "totalize X = X\<lparr>
     json_parse := (\<lambda>s. case s of
         [] \<Rightarrow> json_parse X []
       | c # r \<Rightarrow> if c = CHR 0xFF then toy_parse r else json_parse X s),
     json_dump := (\<lambda>j. if utf8_json j then json_dump X j else Some (CHR 0xFF # enc j)),
     json_pretty := (\<lambda>j. if utf8_json j then json_pretty X j else Some (CHR 0xFF # enc j))\<rparr>"

lemma totalize_parse [simp]: "utf8 s \<Longrightarrow> json_parse (totalize X) s = json_parse X s"
  using not_utf8 by (auto simp: totalize_def split: list.split)

lemma codec_on_utf8_extends:
  assumes "\<forall>j. utf8_json j \<longrightarrow> (\<exists>s. json_dump X j = Some s \<and> utf8 s \<and> json_parse X s = Some j)"
    and "\<forall>j. utf8_json j \<longrightarrow> (\<exists>s. json_pretty X j = Some s \<and> utf8 s \<and> json_parse X s = Some j)"
  shows "codec_total (totalize X)"
    and "utf8_json j \<Longrightarrow> json_dump (totalize X) j = json_dump X j \<and> json_pretty (totalize X) j = json_pretty X j"
    and "utf8 s \<Longrightarrow> json_parse (totalize X) s = json_parse X s"
proof -
  have other: "json_parse (totalize X) (CHR 0xFF # enc i) = Some i" for i
    by (simp add: totalize_def)
  have dumps: "\<exists>s. json_dump (totalize X) i = Some s \<and> json_parse (totalize X) s = Some i" for i
  proof (cases "utf8_json i")
    case True
    with assms(1) obtain s where "json_dump X i = Some s" "utf8 s" "json_parse X s = Some i" by blast
    moreover from this True have "json_dump (totalize X) i = Some s" by (simp add: totalize_def)
    ultimately show ?thesis by auto
  qed (use other in \<open>auto simp: totalize_def\<close>)
  have pretties: "\<exists>s. json_pretty (totalize X) i = Some s \<and> json_parse (totalize X) s = Some i" for i
  proof (cases "utf8_json i")
    case True
    with assms(2) obtain s where "json_pretty X i = Some s" "utf8 s" "json_parse X s = Some i" by blast
    moreover from this True have "json_pretty (totalize X) i = Some s" by (simp add: totalize_def)
    ultimately show ?thesis by auto
  qed (use other in \<open>auto simp: totalize_def\<close>)
  show "codec_total (totalize X)" using dumps pretties by (simp add: codec_total_def)
  show "json_dump (totalize X) j = json_dump X j \<and> json_pretty (totalize X) j = json_pretty X j" if "utf8_json j"
    using that by (simp add: totalize_def)
  show "json_parse (totalize X) s = json_parse X s" if "utf8 s" using that by simp
qed

end
