(* ===== verification/Metaserver_Demo.thy ===== *)
theory Metaserver_Demo
  imports Metaserver_Spec Toy_Codec
begin

text \<open>
  A small running system for the witnesses: one storage node that leads its group, one
  notification server, the codec of \<open>Toy_Codec\<close>, and one user whose token is
  \<open>a.b.c\<close>.  The database is a parameter, so that each witness starts from the namespace
  it needs.
\<close>

declare enc.simps [simp del]

definition demo_ext :: "cluster meta_ext" where
  "demo_ext = \<lparr>json_parse = toy_parse, json_dump = toy_dump, json_pretty = toy_dump,
     what = (\<lambda>_. ''what''), float_trunc = (\<lambda>_. 0), json_read = toy_parse, curl_init = (\<lambda>c. (True, c)),
     curl_perform = cluster_perform toy_codec, shuffled = (\<lambda>ss c. (ss, c)),
     jwt_user = (\<lambda>t k n. if t = ''a.b.c'' then Some ''ann'' else None),
     hash = length, time_now = (\<lambda>_. 7)\<rparr>"

lemma demo_ext_simps [simp]:
  "json_parse demo_ext = toy_parse" "json_dump demo_ext = toy_dump"
  "json_pretty demo_ext = toy_dump" "curl_init demo_ext c = (True, c)"
  "curl_perform demo_ext = cluster_perform toy_codec" "shuffled demo_ext ss c = (ss, c)"
  "jwt_user demo_ext t k n = (if t = ''a.b.c'' then Some ''ann'' else None)"
  "hash demo_ext = length" "time_now demo_ext w = 7"
  by (simp_all add: demo_ext_def)

definition demo_node :: "(string \<rightharpoonup> json) \<Rightarrow> node" where
  "demo_node db = \<lparr>status = LEADER, leader = Some ''n1'', DB = string_db db, log = [], commitIdx = 0, staged = None\<rparr>"

definition demo_state :: "(string \<rightharpoonup> json) \<Rightarrow> cluster mstate" where
  "demo_state db =
     \<lparr>init = \<lparr>public_key = ''key'', server_ip = ''ip'', server_port = 1,
              notification_servers = [''u''], metastorage_groups = [[''n1'']],
              blockserver_lists = [[''b1'']], broadcaster = Some [\<lparr>ip = ''n'', port = 9\<rparr>]\<rparr>,
      deletion_queue = [], outbox = [],
      net = \<lparr>nodes = [''n1'' \<mapsto> demo_node db], quorum = True\<rparr>\<rparr>"

text \<open>A request of that user for a path.\<close>

definition demo_request :: "string \<Rightarrow> http_request" where
  "demo_request p = \<lparr>req_header = [''Authorization'' \<mapsto> ''Bearer a.b.c''],
     req_body = enc (obj [(''path'', JStr p), (''device_id'', JStr ''d1'')])\<rparr>"

lemma cluster_perform_codec:
  assumes "json_parse X = json_parse Y" and "json_dump X = json_dump Y"
  shows "cluster_perform X = cluster_perform Y"
proof -
  have reply: "http_reply X = http_reply Y" unfolding http_reply_def assms(2) by (rule refl)
  show ?thesis unfolding cluster_perform_def assms(1) reply by (rule refl)
qed

lemma demo_backed [simp]: "cluster_backed demo_ext"
  unfolding cluster_backed_def
  by (simp add: cluster_perform_codec [of demo_ext toy_codec])

lemma demo_marker [simp]: "marker_not_json demo_ext"
  by (simp add: marker_not_json_def DELETE_VALUE_def toy_parse_def)

lemma demo_text [simp]: "text_of demo_ext j = enc j"
  by (simp add: text_of_def toy_dump_def)

lemma demo_ready [simp]: "ready demo_ext (demo_state db)"
  by (simp add: ready_def store_ok_def demo_state_def group_ok_def leader_of_def is_leader_def
      demo_node_def leads_to_def)

lemma demo_state_simps [simp]:
  "deletion_queue (demo_state db) = []" "outbox (demo_state db) = []"
  by (simp_all add: demo_state_def)

lemma demo_view: "meta_view demo_ext (demo_state db) k =
    (case db k of Some (JStr v) \<Rightarrow> if v = DELETE_VALUE then None else Some v | _ \<Rightarrow> None)"
  by (simp add: meta_view_def demo_state_def group_of_def stored_def leader_of_def is_leader_def
      demo_node_def)

lemma enc_not_marker [simp]: "enc j \<noteq> DELETE_VALUE"
  using demo_marker by (auto simp: marker_not_json_def dest: arg_cong [where f = toy_parse])

lemma demo_asks [simp]: "asks_as demo_ext t (demo_request p) ''ann''"
  by (simp add: asks_as_def demo_request_def authenticate_request_def verify_jwt_def bearer_token_def)

lemma demo_request_for [simp]: "request_for demo_ext (demo_request p) p ''d1''"
  by (simp add: request_for_def demo_request_def)

lemma demo_body:
  "json_parse demo_ext (req_body (demo_request p)) = Some (obj [(''path'', JStr p), (''device_id'', JStr ''d1'')])"
  by (simp add: demo_request_def)

text \<open>A home directory with one file and one directory in it.\<close>

definition demo_dir :: "string list \<Rightarrow> string list \<Rightarrow> json" where
  "demo_dir dirs files =
     obj [(''owner'', JStr ''ann''), (''timestamp'', JNum 1),
          (''subdirectories'', JArr (map JStr dirs)), (''files'', JArr (map JStr files))]"

lemma demo_dir_simps [simp]:
  "lists_field ''files'' (demo_dir ds fs)" "lists_field ''subdirectories'' (demo_dir ds fs)"
  "entries ''files'' (demo_dir ds fs) = map JStr fs"
  "entries ''subdirectories'' (demo_dir ds fs) = map JStr ds" "\<not> is_string (demo_dir ds fs)"
  by (simp_all add: demo_dir_def lists_field_def entries_def obj_def)

definition demo_db :: "string \<rightharpoonup> json" where
  "demo_db = [''ann:h'' \<mapsto> JStr (enc (demo_dir [''h/d''] [''h/f.txt''])),
              ''ann:h/d'' \<mapsto> JStr (enc (demo_dir [] [''h/d/g.txt''])),
              ''ann:h/f.txt'' \<mapsto> JStr (enc (JStr (enc (file_metadata ''ann'' 1 ''h'' ''h/f.txt'')))),
              ''ann:h/d/g.txt'' \<mapsto> JStr (enc (JStr (enc (file_metadata ''ann'' 1 ''h/d'' ''h/d/g.txt''))))]"

lemma demo_user_key: "user_key ''ann'' p = ''ann:'' @ p"
  by (simp add: user_key_def)

lemma demo_view_db: "meta_view demo_ext (demo_state demo_db) =
    [''ann:h'' \<mapsto> enc (demo_dir [''h/d''] [''h/f.txt'']),
     ''ann:h/d'' \<mapsto> enc (demo_dir [] [''h/d/g.txt'']),
     ''ann:h/f.txt'' \<mapsto> enc (JStr (enc (file_metadata ''ann'' 1 ''h'' ''h/f.txt''))),
     ''ann:h/d/g.txt'' \<mapsto> enc (JStr (enc (file_metadata ''ann'' 1 ''h/d'' ''h/d/g.txt'')))]"
  by (rule ext) (simp add: demo_view demo_db_def)

lemma doc_of_demo [simp]:
  "\<not> is_string j \<Longrightarrow> doc_of demo_ext (enc j) = Some j"
  "doc_of demo_ext (enc (JStr (enc j))) = Some j"
  using doc_of_text [of demo_ext j] doc_of_text_text [of demo_ext j] by simp_all

lemma demo_docs_db: "docs demo_ext (demo_state demo_db) =
    [''ann:h'' \<mapsto> demo_dir [''h/d''] [''h/f.txt''],
     ''ann:h/d'' \<mapsto> demo_dir [] [''h/d/g.txt''],
     ''ann:h/f.txt'' \<mapsto> file_metadata ''ann'' 1 ''h'' ''h/f.txt'',
     ''ann:h/d/g.txt'' \<mapsto> file_metadata ''ann'' 1 ''h/d'' ''h/d/g.txt'']"
  by (rule ext) (simp add: docs_def demo_view_db)

lemma demo_parents [simp]:
  "parent_of ''h/f.txt'' = Some ''h''" "parent_of ''h/d'' = Some ''h''"
  "parent_of ''h/n.txt'' = Some ''h''" "parent_of ''h/e'' = Some ''h''"
  "parent_of ''h/d/g.txt'' = Some ''h/d''"
  by (simp_all add: parent_of_def)

end
