(* ===== verification/Metaserver_Props.thy ===== *)
theory Metaserver_Props
  imports Metaserver_Demo
begin

text \<open>
  The properties of the metadata server: who may do what, the refinement of the namespace
  operations, what a client sees after an operation, and the invariant of the namespace.
\<close>

section \<open>Access\<close>

text \<open>C11: A request for one of the five authenticated paths whose token is missing or does not
  verify is answered with status 401 or 403, and nothing changes: no write to the store, no
  notification, nothing queued for deletion.\<close>

theorem unauthenticated_is_refused:
  assumes "handler_body X path = Some h"
    and "authenticate_request X (public_key (init s)) (time_now X (net s)) req = Inl r"
  shows "serve X path req s = Ret r s \<and> (res_status r = 401 \<or> res_status r = 403)"
  using serve_unauthenticated [OF assms] authenticate_rejected [OF assms(2)] by blast

theorem unauthenticated_is_refused_witness:
  "serve demo_ext ''/delete'' \<lparr>req_header = Map.empty, req_body = ''x''\<rparr> (demo_state demo_db)
     = Ret (reply 401 (err ''Missing authentication token'')) (demo_state demo_db)"
proof -
  have "handler_body demo_ext ''/delete'' = Some (delete_path_body demo_ext)"
    by (simp add: handler_body_def)
  from unauthenticated_is_refused [OF this, of "demo_state demo_db"
      "\<lparr>req_header = Map.empty, req_body = ''x''\<rparr>" "reply 401 (err ''Missing authentication token'')"]
  show ?thesis by (simp add: authenticate_request_def)
qed

text \<open>C2: Over a store in good order every authenticated request is answered, leaves the store in
  good order, and touches the authenticated user's keys, deletions and notifications only; in
  particular the files of any other user, names without a colon, are as before.\<close>

theorem request_stays_within_user:
  assumes "ready X s" and "handler_body X path = Some h" and "asks_as X s req u"
  shows "\<exists>res t. serve X path req s = Ret res t \<and> within X u s t \<and>
    (\<forall>u' p. CHR '':'' \<notin> set u \<and> CHR '':'' \<notin> set u' \<and> u' \<noteq> u \<longrightarrow>
        meta_view X t (user_key u' p) = meta_view X s (user_key u' p))"
proof -
  obtain res t where "serve X path req s = Ret res t" "within X u s t"
    using serve_within [OF assms(1,2)] assms(3) unfolding asks_as_def .
  then show ?thesis
    using user_key_other by (intro exI [of _ res] exI [of _ t]) (auto simp: within_def)
qed

theorem request_stays_within_user_witness:
  "\<exists>res t. serve demo_ext ''/create-file'' (demo_request ''h/n.txt'') (demo_state demo_db) = Ret res t \<and>
     within demo_ext ''ann'' (demo_state demo_db) t"
  using request_stays_within_user [of demo_ext "demo_state demo_db" "''/create-file''" _
      "demo_request ''h/n.txt''" "''ann''"]
  by (simp add: handler_body_def) blast

section \<open>Creating and deleting\<close>

text \<open>C8: Creating a file that does not exist, in a directory that does, succeeds: afterwards the
  namespace has the file's metadata (version 1, the user as owner) under its key and the path at the
  end of the directory's list of files, every other document is as before, and each notification
  server gets one FILE+ message naming the user, the path and the device.\<close>

theorem create_file_refines:
  assumes "ready X s" and "marker_not_json X" and "asks_as X s req u" and "request_for X req p dev"
    and "meta_view X s (user_key u p) = None"
    and "parent_of p = Some q" and "docs X s (user_key u q) = Some D" and "lists_field ''files'' D"
  shows "\<exists>b t. create_file X req s = Ret (reply 200 b) t \<and> ready X t \<and>
    docs X t = (docs X s)(user_key u p \<mapsto> file_metadata u (time_now X (net s)) q p,
                          user_key u q \<mapsto> with_entry ''files'' p D) \<and>
    outbox t = outbox s @ notified s (notification ''FILE+'' u p dev) \<and>
    deletion_queue t = deletion_queue s"
proof -
  from create_file_runs [OF assms] obtain b c where
    "create_file X req s = Ret (reply 200 b)
       (s\<lparr>net := c, outbox := outbox s @ notified s (notification ''FILE+'' u p dev)\<rparr>)"
    "store_ok X (s\<lparr>net := c\<rparr>)"
    "docs X (s\<lparr>net := c\<rparr>) = (docs X s)(user_key u p \<mapsto> file_metadata u (time_now X (net s)) q p,
                          user_key u q \<mapsto> with_entry ''files'' p D)" by blast
  with assms(1) show ?thesis by (auto simp: ready_def docs_def fun_eq_iff)
qed

theorem create_file_refines_witness:
  "\<exists>b t. create_file demo_ext (demo_request ''h/n.txt'') (demo_state demo_db) = Ret (reply 200 b) t \<and>
     docs demo_ext t ''ann:h/n.txt'' = Some (file_metadata ''ann'' 7 ''h'' ''h/n.txt'')"
proof -
  have "lists_field ''files'' (demo_dir [''h/d''] [''h/f.txt''])" by simp
  from create_file_refines [OF demo_ready demo_marker demo_asks demo_request_for _ _ _ this,
      of demo_db "''h/n.txt''" "''h''"]
  show ?thesis
    by (auto simp: demo_user_key demo_view_db demo_docs_db)
qed

text \<open>C9: Creating a directory that does not exist, in a directory that does, succeeds: the
  namespace gets an empty directory under the key and the path at the end of the parent's list of
  subdirectories, every other document is as before, and each notification server gets one DIR+
  message.\<close>

theorem create_directory_refines:
  assumes "ready X s" and "marker_not_json X" and "asks_as X s req u" and "request_for X req p dev"
    and "meta_view X s (user_key u p) = None"
    and "parent_of p = Some q" and "docs X s (user_key u q) = Some D"
    and "lists_field ''subdirectories'' D"
  shows "\<exists>b t. create_directory X req s = Ret (reply 200 b) t \<and> ready X t \<and>
    docs X t = (docs X s)(user_key u p \<mapsto> dir_metadata u (time_now X (net s)),
                          user_key u q \<mapsto> with_entry ''subdirectories'' p D) \<and>
    outbox t = outbox s @ notified s (notification ''DIR+'' u p dev) \<and>
    deletion_queue t = deletion_queue s"
proof -
  from create_directory_runs [OF assms] obtain b c where
    "create_directory X req s = Ret (reply 200 b)
       (s\<lparr>net := c, outbox := outbox s @ notified s (notification ''DIR+'' u p dev)\<rparr>)"
    "store_ok X (s\<lparr>net := c\<rparr>)"
    "docs X (s\<lparr>net := c\<rparr>) = (docs X s)(user_key u p \<mapsto> dir_metadata u (time_now X (net s)),
                          user_key u q \<mapsto> with_entry ''subdirectories'' p D)" by blast
  with assms(1) show ?thesis by (auto simp: ready_def docs_def fun_eq_iff)
qed

theorem create_directory_refines_witness:
  "\<exists>b t. create_directory demo_ext (demo_request ''h/e'') (demo_state demo_db) = Ret (reply 200 b) t \<and>
     docs demo_ext t ''ann:h'' = Some (with_entry ''subdirectories'' ''h/e'' (demo_dir [''h/d''] [''h/f.txt'']))"
proof -
  have "lists_field ''subdirectories'' (demo_dir [''h/d''] [''h/f.txt''])" by simp
  from create_directory_refines [OF demo_ready demo_marker demo_asks demo_request_for _ _ _ this,
      of demo_db "''h/e''" "''h''"]
  show ?thesis
    by (auto simp: demo_user_key demo_view_db demo_docs_db)
qed

text \<open>C10: Deleting a path that exists removes its document, whatever becomes of its parent, and leaves the
  documents of all other paths but the parent alone.  When the parent is stored with the list of the
  path's kind (the files for a path ending in .txt, the subdirectories otherwise), every occurrence of
  the path leaves that list, the block data is queued for deletion exactly when the path ends in .txt,
  and one FILE- or DIR- message goes to each notification server.  When no parent is stored, the block
  data is queued as before but nobody is told.  When the parent is stored without that list, it gets a
  member with the value null instead, and nothing is queued or sent.  In these three cases the answer is
  200.  When the stored parent cannot be read, the answer is 500, and nothing is queued or sent.\<close>

theorem delete_path_refines:
  assumes "ready X s" and "marker_not_json X" and "asks_as X s req u" and "request_for X req p dev"
    and "meta_view X s (user_key u p) \<noteq> None"
  shows "\<exists>r t. serve X ''/delete'' req s = Ret r t \<and> ready X t \<and>
    (\<forall>q D. parent_of p = Some q \<and> docs X s (user_key u q) = Some D \<and> lists_field (fst (deletion_kind p)) D \<longrightarrow>
       r = reply 200 ''{\"message\": \"Path deleted\"}'' \<and>
       docs X t = (docs X s)(user_key u p := None,
                             user_key u q \<mapsto> without_entry (fst (deletion_kind p)) p D) \<and>
       outbox t = outbox s @ notified s (notification (snd (deletion_kind p)) u p dev) \<and>
       deletion_queue t = deletion_queue s @ (if is_txt p then [user_key u p] else [])) \<and>
    ((\<forall>q. parent_of p = Some q \<longrightarrow> meta_view X s (user_key u q) = None) \<longrightarrow>
       r = reply 200 ''{\"message\": \"Path deleted\"}'' \<and>
       docs X t = (docs X s)(user_key u p := None) \<and> outbox t = outbox s \<and>
       deletion_queue t = deletion_queue s @ (if is_txt p then [user_key u p] else [])) \<and>
    (\<forall>q D. parent_of p = Some q \<and> docs X s (user_key u q) = Some D \<and>
         \<not> lists_field (fst (deletion_kind p)) D \<and> (is_object D \<or> D = JNull) \<longrightarrow>
       r = reply 200 ''{\"message\": \"Path deleted\"}'' \<and>
       docs X t = (docs X s)(user_key u p := None, user_key u q \<mapsto> subscripted D (fst (deletion_kind p))) \<and>
       outbox t = outbox s \<and> deletion_queue t = deletion_queue s) \<and>
    (\<forall>q. parent_of p = Some q \<and> meta_view X s (user_key u q) \<noteq> None \<and>
         (\<forall>D. docs X s (user_key u q) = Some D \<longrightarrow> \<not> is_object D \<and> D \<noteq> JNull) \<longrightarrow>
       r = reply 500 [] \<and> docs X t = (docs X s)(user_key u p := None) \<and>
       outbox t = outbox s \<and> deletion_queue t = deletion_queue s)"
proof -
  consider (orphan) "\<And>q. parent_of p = Some q \<Longrightarrow> meta_view X s (user_key u q) = None"
    | (listed) q D where "parent_of p = Some q" "docs X s (user_key u q) = Some D"
        "lists_field (fst (deletion_kind p)) D"
    | (unlisted) q D where "parent_of p = Some q" "docs X s (user_key u q) = Some D"
        "\<not> lists_field (fst (deletion_kind p)) D" "is_object D \<or> D = JNull"
    | (broken) q v where "parent_of p = Some q" "meta_view X s (user_key u q) = Some v"
        "\<And>D. doc_of X v = Some D \<Longrightarrow> \<not> is_object D \<and> D \<noteq> JNull"
  proof (cases "\<exists>q v. parent_of p = Some q \<and> meta_view X s (user_key u q) = Some v")
    case True
    then obtain q v where q: "parent_of p = Some q" "meta_view X s (user_key u q) = Some v" by blast
    show thesis
    proof (cases "doc_of X v")
      case None
      with broken [OF q] show thesis by simp
    next
      case (Some D)
      with q have "docs X s (user_key u q) = Some D" by (simp add: docs_def)
      with listed [OF q(1)] unlisted [OF q(1)] broken [OF q] Some show thesis by auto
    qed
  next
    case False
    with orphan show thesis by auto
  qed
  then show ?thesis
  proof cases
    case orphan
    from delete_path_orphan [OF assms(1,3-5) orphan] obtain c where
      "delete_path X req s = Ret (reply (-1) ''{\"message\": \"Path deleted\"}'')
        (s\<lparr>net := c, deletion_queue := deletion_queue s @ (if is_txt p then [user_key u p] else [])\<rparr>)"
      "store_ok X (s\<lparr>net := c\<rparr>)" "meta_view X (s\<lparr>net := c\<rparr>) = (meta_view X s)(user_key u p := None)" by blast
    with assms(1) orphan show ?thesis
      by (auto simp: serve_def route_def ready_def docs_def fun_eq_iff)
  next
    case listed
    from delete_path_runs [OF assms listed] obtain c where
      "delete_path X req s = Ret (reply (-1) ''{\"message\": \"Path deleted\"}'')
              (s\<lparr>net := c,
                 deletion_queue := deletion_queue s @ (if is_txt p then [user_key u p] else []),
                 outbox := outbox s @ notified s (notification (snd (deletion_kind p)) u p dev)\<rparr>)"
      "store_ok X (s\<lparr>net := c\<rparr>)"
      "docs X (s\<lparr>net := c\<rparr>) = (docs X s)(user_key u p := None,
                    user_key u q \<mapsto> without_entry (fst (deletion_kind p)) p D)" by blast
    moreover have "meta_view X s (user_key u q) \<noteq> None" using listed(2) by (auto elim: docs_Some)
    moreover have "is_object D" using appendable_is_object [OF lists_field_appendable [OF listed(3)]] .
    moreover have "docs X (s\<lparr>net := c, deletion_queue := dq, outbox := ob\<rparr>) = docs X (s\<lparr>net := c\<rparr>)" for dq ob
      by (simp add: docs_def fun_eq_iff)
    ultimately show ?thesis
      using assms(1) listed by (auto simp: serve_def route_def ready_def)
  next
    case unlisted
    from delete_path_unlisted [OF assms unlisted(1,2,4,3)] obtain c where
      "delete_path X req s = Ret (reply (-1) ''{\"message\": \"Path deleted\"}'') (s\<lparr>net := c\<rparr>)"
      "store_ok X (s\<lparr>net := c\<rparr>)"
      "docs X (s\<lparr>net := c\<rparr>) = (docs X s)(user_key u p := None,
                    user_key u q \<mapsto> subscripted D (fst (deletion_kind p)))" by blast
    moreover have "meta_view X s (user_key u q) \<noteq> None" using unlisted(2) by (auto elim: docs_Some)
    ultimately show ?thesis
      using assms(1) unlisted by (auto simp: serve_def route_def ready_def)
  next
    case broken
    from delete_path_broken [OF assms(1,3-5) broken] obtain c e where
      "delete_path X req s = Throw e (s\<lparr>net := c\<rparr>)" "store_ok X (s\<lparr>net := c\<rparr>)"
      "meta_view X (s\<lparr>net := c\<rparr>) = (meta_view X s)(user_key u p := None)" by blast
    moreover have "lists_field f D \<Longrightarrow> is_object D" for f D
      using appendable_is_object [OF lists_field_appendable] .
    ultimately show ?thesis using assms(1) broken
      by (auto simp: serve_def route_def ready_def docs_def fun_eq_iff)
  qed
qed

theorem delete_path_refines_witness:
  "\<exists>t. serve demo_ext ''/delete'' (demo_request ''h/f.txt'') (demo_state demo_db)
         = Ret (reply 200 ''{\"message\": \"Path deleted\"}'') t \<and>
       docs demo_ext t ''ann:h/f.txt'' = None \<and> deletion_queue t = [''ann:h/f.txt'']"
proof -
  have k: "deletion_kind ''h/f.txt'' = (''files'', ''FILE-'')" "is_txt ''h/f.txt''"
    by (simp_all add: deletion_kind_def is_txt_def)
  have par: "parent_of ''h/f.txt'' = Some ''h''" by (simp add: parent_of_def)
  have "lists_field (fst (deletion_kind ''h/f.txt'')) (demo_dir [''h/d''] [''h/f.txt''])" using k by simp
  with delete_path_refines [OF demo_ready demo_marker demo_asks demo_request_for, of demo_db "''h/f.txt''"] par
  show ?thesis
    using k by (auto simp: demo_user_key demo_view_db demo_docs_db)
qed

section \<open>What a client sees\<close>

text \<open>After a file has been created, listing its directory answers with the text of the
  directory's new metadata, whose list of files ends with the path; asking for the file's endpoints
  answers with the block servers of the group the user's key hashes to; and creating the file again
  answers that it exists and changes nothing.\<close>

lemma created_file_is_visible:
  assumes "ready X s" and "marker_not_json X" and "asks_as X s req u" and "request_for X req p dev"
    and "meta_view X s (user_key u p) = None"
    and "parent_of p = Some q" and "docs X s (user_key u q) = Some D" and "lists_field ''files'' D"
  shows "\<exists>b t. create_file X req s = Ret (reply 200 b) t \<and>
    (\<forall>req'. asks_as X t req' u \<and> request_for X req' q dev' \<longrightarrow>
      (\<exists>v. list_directory X req' t = Ret (reply 200 v) t \<and>
           doc_of X v = Some (with_entry ''files'' p D))) \<and>
    (\<forall>req'. asks_as X t req' u \<and> request_for X req' p dev' \<longrightarrow>
      get_file_endpoints X req' t = Ret (reply 200 (text_of X (obj [(''endpoints'', JArr (map JStr
           (group_of X (blockserver_lists (init s)) (user_key u p))))]))) t \<and>
      create_file X req' t = Ret (reply 200 ''{\"success\": \"File already exists\"}'') t)"
proof -
  have X: "cluster_backed X" using assms(1) by (rule ready_backed)
  from create_file_runs [OF assms] obtain b c where
    run: "create_file X req s = Ret (reply 200 b)
       (s\<lparr>net := c, outbox := outbox s @ notified s (notification ''FILE+'' u p dev)\<rparr>)"
      (is "_ = Ret _ ?t")
    and ok: "store_ok X (s\<lparr>net := c\<rparr>)"
    and N: "docs X (s\<lparr>net := c\<rparr>) = (docs X s)(user_key u p \<mapsto> file_metadata u (time_now X (net s)) q p,
                          user_key u q \<mapsto> with_entry ''files'' p D)" by blast
  have ready': "ready X ?t" and same: "init ?t = init s"
    using assms(1) ok by (simp_all add: ready_def)
  have docs_t: "docs X ?t = docs X (s\<lparr>net := c\<rparr>)" by (simp add: docs_def fun_eq_iff)
  have Np: "docs X ?t (user_key u p) = Some (file_metadata u (time_now X (net s)) q p)"
    and Nq: "docs X ?t (user_key u q) = Some (with_entry ''files'' p D)"
    using N docs_t parent_key_neq [OF assms(6), of u] by auto
  from Np have pres: "meta_view X ?t (user_key u p) \<noteq> None"
    by (auto elim: docs_Some)
  have listing: "\<exists>v. list_directory X req' ?t = Ret (reply 200 v) ?t \<and>
          doc_of X v = Some (with_entry ''files'' p D)"
    if a: "asks_as X ?t req' u" "request_for X req' q dev'" for req'
  proof -
    from a(2) obtain j where j: "json_parse X (req_body req') = Some j" "string_at j ''path'' = Inr q"
      by (rule request_forE)
    from Nq obtain v where v: "meta_view X ?t (user_key u q) = Some v"
      "doc_of X v = Some (with_entry ''files'' p D)" by (rule docs_Some)
    from v(2) obtain d where d: "json_parse X v = Some d"
      by (cases "json_parse X v") (auto simp: doc_of_def)
    have "doc_of X (text_of X d) = doc_of X v"
      using d X by (simp add: doc_of_def cluster_backedD)
    with list_directory_runs [OF ready' a(1) j] v d show ?thesis by simp
  qed
  have endpoints: "get_file_endpoints X req' ?t = Ret (reply 200 (text_of X (obj [(''endpoints'',
      JArr (map JStr (group_of X (blockserver_lists (init s)) (user_key u p))))]))) ?t"
    if a: "asks_as X ?t req' u" "request_for X req' p dev'" for req'
  proof -
    from a(2) obtain j where "json_parse X (req_body req') = Some j" "string_at j ''path'' = Inr p"
      by (rule request_forE)
    from get_file_endpoints_runs [OF ready' a(1) this Np] same show ?thesis by simp
  qed
  show ?thesis
    using run listing endpoints create_file_exists [OF ready' _ _ pres] by blast
qed

lemma created_file_is_visible_witness:
  "\<exists>b t v. create_file demo_ext (demo_request ''h/n.txt'') (demo_state demo_db) = Ret (reply 200 b) t \<and>
     list_directory demo_ext (demo_request ''h'') t = Ret (reply 200 v) t"
proof -
  have "lists_field ''files'' (demo_dir [''h/d''] [''h/f.txt''])" by simp
  from created_file_is_visible [OF demo_ready demo_marker demo_asks demo_request_for _ _ _ this,
      of demo_db "''h/n.txt''" "''h''" "''d1''"]
  obtain b t where "create_file demo_ext (demo_request ''h/n.txt'') (demo_state demo_db) = Ret (reply 200 b) t"
    and "\<forall>req'. asks_as demo_ext t req' ''ann'' \<and> request_for demo_ext req' ''h'' ''d1'' \<longrightarrow>
      (\<exists>v. list_directory demo_ext req' t = Ret (reply 200 v) t \<and>
           doc_of demo_ext v = Some (with_entry ''files'' ''h/n.txt'' (demo_dir [''h/d''] [''h/f.txt''])))"
    by (auto simp: demo_user_key demo_view_db demo_docs_db)
  then show ?thesis using demo_asks [of t "''h''"] demo_request_for [of "''h''"] by blast
qed

end
