(* ===== verification/Metaserver_Tree.thy ===== *)
theory Metaserver_Tree
  imports Metaserver_Props
begin

text \<open>
  The invariant of a user's namespace.  The three operations that write preserve \<open>namespace_ok\<close>
  whatever the paths are: what is stored parses to an object, and every list holds only children of
  the path it belongs to, which exist where the suffix of the child fits the list.  For requests that
  follow the client's convention (files, and only files, end in .txt, and a parent is never such a
  path) they also preserve \<open>tree_ok\<close>: directories have both lists and no list has a dangling
  entry.  The last section shows what happens outside that convention, and what deletion of a
  directory leaves behind.
\<close>

definition no_dangling :: "string \<Rightarrow> namespace \<Rightarrow> bool" where
  "no_dangling u N \<longleftrightarrow>
     (\<forall>q d. N (user_key u q) = Some d \<longrightarrow>
        (\<forall>p. JStr p \<in> set (entries ''files'' d) \<longrightarrow>
               parent_of p = Some q \<and> is_txt p \<and> N (user_key u p) \<noteq> None) \<and>
        (\<forall>p. JStr p \<in> set (entries ''subdirectories'' d) \<longrightarrow>
               parent_of p = Some q \<and> \<not> is_txt p \<and> N (user_key u p) \<noteq> None))"

definition directories_listed :: "string \<Rightarrow> namespace \<Rightarrow> bool" where
  "directories_listed u N \<longleftrightarrow>
     (\<forall>q d. N (user_key u q) = Some d \<and> \<not> is_txt q \<longrightarrow>
        lists_field ''files'' d \<and> lists_field ''subdirectories'' d)"

definition tree_ok :: "(cluster, 'x) meta_ext_scheme \<Rightarrow> string \<Rightarrow> cluster mstate \<Rightarrow> bool" where
  "tree_ok X u s \<longleftrightarrow>
     dom (docs X s) = dom (meta_view X s) \<and> directories_listed u (docs X s) \<and> no_dangling u (docs X s)"

lemma user_key_inj [simp]: "user_key u p = user_key u q \<longleftrightarrow> p = q"
  by (simp add: user_key_def)

lemma entries_metadata [simp]:
  "entries f (file_metadata u n q p) = []"
  "entries f (dir_metadata u n) = []"
  by (auto simp: entries_def file_metadata_def dir_metadata_def obj_def fmlookup_of_list
           split: option.splits json.splits if_splits)

lemma dir_metadata_listed [simp]:
  "lists_field ''files'' (dir_metadata u n)" "lists_field ''subdirectories'' (dir_metadata u n)"
  by (simp_all add: lists_field_def dir_metadata_def obj_def)

section \<open>The invariant on namespaces\<close>



text \<open>The list a path belongs to.\<close>

definition kind :: "string \<Rightarrow> string" where
  "kind p = fst (deletion_kind p)"





section \<open>The invariant on states\<close>




lemma tree_ok_outbox [simp]:
  "tree_ok X u (s\<lparr>net := c, outbox := q\<rparr>) = tree_ok X u (s\<lparr>net := c\<rparr>)"
  "tree_ok X u (s\<lparr>net := c, deletion_queue := d\<rparr>) = tree_ok X u (s\<lparr>net := c\<rparr>)"
  "tree_ok X u (s\<lparr>net := c, deletion_queue := d, outbox := q\<rparr>) = tree_ok X u (s\<lparr>net := c\<rparr>)"
  by (simp_all add: tree_ok_def docs_def [abs_def])




section \<open>Preservation\<close>




section \<open>Preservation for every path\<close>

text \<open>
  The paths that deletion takes out of a list of files end in .txt, and those it takes out of a list of
  subdirectories do not; these are the entries that cannot dangle.
\<close>

definition children_only :: "string \<Rightarrow> namespace \<Rightarrow> bool" where
  "children_only u N \<longleftrightarrow>
     (\<forall>q d p f. N (user_key u q) = Some d \<and> JStr p \<in> set (entries f d) \<and>
        (f = ''files'' \<or> f = ''subdirectories'') \<longrightarrow>
        parent_of p = Some q \<and> (f = kind p \<longrightarrow> N (user_key u p) \<noteq> None))"

definition namespace_ok :: "(cluster, 'x) meta_ext_scheme \<Rightarrow> string \<Rightarrow> cluster mstate \<Rightarrow> bool" where
  "namespace_ok X u s \<longleftrightarrow>
     dom (docs X s) = dom (meta_view X s) \<and> (\<forall>p d. docs X s (user_key u p) = Some d \<longrightarrow> is_object d) \<and>
     children_only u (docs X s)"







lemma namespace_ok_outbox [simp]:
  "namespace_ok X u (s\<lparr>net := c, outbox := q\<rparr>) = namespace_ok X u (s\<lparr>net := c\<rparr>)"
  "namespace_ok X u (s\<lparr>net := c, deletion_queue := d\<rparr>) = namespace_ok X u (s\<lparr>net := c\<rparr>)"
  "namespace_ok X u (s\<lparr>net := c, deletion_queue := d, outbox := q\<rparr>) = namespace_ok X u (s\<lparr>net := c\<rparr>)"
  by (simp_all add: namespace_ok_def docs_def [abs_def])

lemma is_object_metadata [simp]: "is_object (file_metadata u n q p)" "is_object (dir_metadata u n)"
  by (simp_all add: file_metadata_def dir_metadata_def)









section \<open>What deletion leaves behind\<close>

text \<open>C16: Deleting a directory deletes its own document only: the files and directories inside it
  stay stored and none of their block data is queued for deletion.  When the directory is created again
  it is listed as empty, and a file that was in it stays out of the listing for good: creating it again
  is answered that it already exists and changes nothing.\<close>

theorem delete_directory_keeps_descendants:
  assumes "ready X s" and "marker_not_json X" and "asks_as X s req u" and "request_for X req p dev"
    and "meta_view X s (user_key u p) \<noteq> None"
    and "parent_of p = Some q" and "docs X s (user_key u q) = Some D"
    and "lists_field ''subdirectories'' D" and "\<not> is_txt p"
    and "parent_of r = Some p" and "docs X s (user_key u r) = Some F"
  shows "\<exists>res t. delete_path X req s = Ret res t \<and> docs X t (user_key u p) = None \<and>
    docs X t (user_key u r) = Some F \<and> deletion_queue t = deletion_queue s \<and>
    (\<forall>req'. asks_as X t req' u \<and> request_for X req' p dev' \<longrightarrow>
       (\<exists>b t' P. create_directory X req' t = Ret (reply 200 b) t' \<and> docs X t' (user_key u p) = Some P \<and>
          entries ''files'' P = [] \<and> entries ''subdirectories'' P = [] \<and>
          (\<forall>req''. asks_as X t' req'' u \<and> request_for X req'' r dev' \<longrightarrow>
             create_file X req'' t' = Ret (reply 200 ''{\"success\": \"File already exists\"}'') t')))"
proof -
  have k: "deletion_kind p = (''subdirectories'', ''DIR-'')"
    using assms(9) by (simp add: deletion_kind_def)
  with assms(8) have "lists_field (fst (deletion_kind p)) D" by simp
  from delete_path_runs [OF assms(1-7) this] assms(9) k obtain res c ob where
    run: "delete_path X req s = Ret res (s\<lparr>net := c, deletion_queue := deletion_queue s @ [], outbox := ob\<rparr>)"
      (is "_ = Ret _ ?t")
    and ok: "store_ok X (s\<lparr>net := c\<rparr>)" and dom: "dom (meta_view X (s\<lparr>net := c\<rparr>)) = dom (meta_view X s) - {user_key u p}"
    and N: "docs X (s\<lparr>net := c\<rparr>) = (docs X s)(user_key u p := None,
                  user_key u q \<mapsto> without_entry ''subdirectories'' p D)"
    by (simp only: if_False fst_conv) blast
  have len: "length q < length p" "length p < length r"
    using parent_of_shorter assms(6,10) by blast+
  have "meta_view X ?t = meta_view X (s\<lparr>net := c\<rparr>)" "docs X ?t = docs X (s\<lparr>net := c\<rparr>)"
    by (simp_all add: docs_def fun_eq_iff)
  with N len assms(11) dom have t: "docs X ?t (user_key u p) = None" "docs X ?t (user_key u r) = Some F"
    "docs X ?t (user_key u q) = Some (without_entry ''subdirectories'' p D)" "meta_view X ?t (user_key u p) = None"
    by (auto simp: dom_def)
  have ready': "ready X ?t" using assms(1) ok by (simp add: ready_def)
  have lists: "lists_field ''subdirectories'' (without_entry ''subdirectories'' p D)" using assms(8) by simp
  have again: "\<exists>b t' P. create_directory X req' ?t = Ret (reply 200 b) t' \<and> docs X t' (user_key u p) = Some P \<and>
      entries ''files'' P = [] \<and> entries ''subdirectories'' P = [] \<and>
      (\<forall>req''. asks_as X t' req'' u \<and> request_for X req'' r dev' \<longrightarrow>
         create_file X req'' t' = Ret (reply 200 ''{\"success\": \"File already exists\"}'') t')"
    if "asks_as X ?t req' u \<and> request_for X req' p dev'" for req'
  proof -
    let ?P = "dir_metadata u (time_now X (net ?t))"
    from create_directory_runs [OF ready' assms(2) _ _ t(4) assms(6) t(3) lists] that obtain b c' where
      again: "create_directory X req' ?t = Ret (reply 200 b)
        (?t\<lparr>net := c', outbox := outbox ?t @ notified ?t (notification ''DIR+'' u p dev')\<rparr>)"
        (is "_ = Ret _ ?t'")
      and ok': "store_ok X (?t\<lparr>net := c'\<rparr>)"
      and N': "docs X (?t\<lparr>net := c'\<rparr>) = (docs X ?t)(user_key u p \<mapsto> ?P,
           user_key u q \<mapsto> with_entry ''subdirectories'' p (without_entry ''subdirectories'' p D))" by blast
    have "docs X ?t' = docs X (?t\<lparr>net := c'\<rparr>)" by (simp add: docs_def meta_view_def fun_eq_iff)
    with N' len t(2) have t': "docs X ?t' (user_key u p) = Some ?P" "docs X ?t' (user_key u r) = Some F" by auto
    have ready'': "ready X ?t'" using ready' ok' by (simp add: ready_def store_ok_def)
    have "meta_view X ?t' (user_key u r) \<noteq> None" using t'(2) by (auto elim: docs_Some)
    from create_file_exists [OF ready'' _ _ this] have "\<forall>req''. asks_as X ?t' req'' u \<and> request_for X req'' r dev' \<longrightarrow>
        create_file X req'' ?t' = Ret (reply 200 ''{\"success\": \"File already exists\"}'') ?t'" by blast
    with again t'(1) show ?thesis
      by (intro exI [of _ b] exI [of _ ?t'] exI [of _ ?P] conjI entries_metadata) assumption+
  qed
  then have "\<forall>req'. asks_as X ?t req' u \<and> request_for X req' p dev' \<longrightarrow>
       (\<exists>b t' P. create_directory X req' ?t = Ret (reply 200 b) t' \<and> docs X t' (user_key u p) = Some P \<and>
          entries ''files'' P = [] \<and> entries ''subdirectories'' P = [] \<and>
          (\<forall>req''. asks_as X t' req'' u \<and> request_for X req'' r dev' \<longrightarrow>
             create_file X req'' t' = Ret (reply 200 ''{\"success\": \"File already exists\"}'') t'))" by blast
  with run t(1,2) show ?thesis
    by (intro exI [of _ res] exI [of _ ?t] conjI) (assumption | simp)+
qed

theorem delete_directory_keeps_descendants_witness:
  "\<exists>res t b t' P. delete_path demo_ext (demo_request ''h/d'') (demo_state demo_db) = Ret res t \<and>
     docs demo_ext t ''ann:h/d/g.txt'' \<noteq> None \<and> docs demo_ext t ''ann:h/d'' = None \<and>
     create_directory demo_ext (demo_request ''h/d'') t = Ret (reply 200 b) t' \<and>
     docs demo_ext t' ''ann:h/d'' = Some P \<and> entries ''files'' P = [] \<and>
     create_file demo_ext (demo_request ''h/d/g.txt'') t' = Ret (reply 200 ''{\"success\": \"File already exists\"}'') t'"
proof -
  have "lists_field ''subdirectories'' (demo_dir [''h/d''] [''h/f.txt''])" by simp
  from delete_directory_keeps_descendants [OF demo_ready demo_marker demo_asks demo_request_for _ _ _ this,
      of demo_db "''h/d''" "''h''" "''h/d/g.txt''"
         "file_metadata ''ann'' 1 ''h/d'' ''h/d/g.txt''" "''d1''"]
  obtain res t where t: "delete_path demo_ext (demo_request ''h/d'') (demo_state demo_db) = Ret res t"
    "docs demo_ext t ''ann:h/d/g.txt'' \<noteq> None" "docs demo_ext t ''ann:h/d'' = None"
    "\<forall>req'. asks_as demo_ext t req' ''ann'' \<and> request_for demo_ext req' ''h/d'' ''d1'' \<longrightarrow>
       (\<exists>b t' P. create_directory demo_ext req' t = Ret (reply 200 b) t' \<and> docs demo_ext t' ''ann:h/d'' = Some P \<and>
          entries ''files'' P = [] \<and> entries ''subdirectories'' P = [] \<and>
          (\<forall>req''. asks_as demo_ext t' req'' ''ann'' \<and> request_for demo_ext req'' ''h/d/g.txt'' ''d1'' \<longrightarrow>
             create_file demo_ext req'' t' = Ret (reply 200 ''{\"success\": \"File already exists\"}'') t'))"
    by (auto simp: demo_user_key demo_view_db demo_docs_db is_txt_def)
  from t(4) demo_asks demo_request_for obtain b t' P where
    "create_directory demo_ext (demo_request ''h/d'') t = Ret (reply 200 b) t'" "docs demo_ext t' ''ann:h/d'' = Some P"
    "entries ''files'' P = []"
    "create_file demo_ext (demo_request ''h/d/g.txt'') t' = Ret (reply 200 ''{\"success\": \"File already exists\"}'') t'"
    by meson
  with t(1-3) show ?thesis by blast
qed

text \<open>C17: Deleting a file whose name does not end in .txt removes its document but not its entry:
  the path is taken for a directory, so it stays in its parent's list of files, its block data is
  not queued, and the message sent is DIR-.\<close>

theorem delete_other_file_stays_listed:
  assumes "ready X s" and "marker_not_json X" and "asks_as X s req u" and "request_for X req p dev"
    and "meta_view X s (user_key u p) \<noteq> None"
    and "parent_of p = Some q" and "docs X s (user_key u q) = Some D"
    and "lists_field ''subdirectories'' D" and "\<not> is_txt p"
    and "JStr p \<in> set (entries ''files'' D)"
  shows "\<exists>res t D'. delete_path X req s = Ret res t \<and> docs X t (user_key u p) = None \<and>
    docs X t (user_key u q) = Some D' \<and> JStr p \<in> set (entries ''files'' D') \<and>
    deletion_queue t = deletion_queue s \<and>
    outbox t = outbox s @ notified s (notification ''DIR-'' u p dev)"
proof -
  have k: "deletion_kind p = (''subdirectories'', ''DIR-'')"
    using assms(9) by (simp add: deletion_kind_def)
  with assms(8) have "lists_field (fst (deletion_kind p)) D" by simp
  from delete_path_runs [OF assms(1-7) this] assms(9) k obtain res c where
    run: "delete_path X req s = Ret res (s\<lparr>net := c, deletion_queue := deletion_queue s @ [],
            outbox := outbox s @ notified s (notification ''DIR-'' u p dev)\<rparr>)"
      (is "_ = Ret _ ?t")
    and N: "docs X (s\<lparr>net := c\<rparr>) = (docs X s)(user_key u p := None,
                  user_key u q \<mapsto> without_entry ''subdirectories'' p D)"
    by (simp only: if_False fst_conv snd_conv) blast
  have "docs X ?t = docs X (s\<lparr>net := c\<rparr>)" by (simp add: docs_def fun_eq_iff)
  with N run assms(10) parent_of_neq [OF assms(6)] show ?thesis
    by (intro exI [of _ res] exI [of _ ?t] exI [of _ "without_entry ''subdirectories'' p D"]) auto
qed

definition demo_db2 :: "string \<rightharpoonup> json" where
  "demo_db2 = [''ann:h'' \<mapsto> JStr (enc (demo_dir [] [''h/x''])),
               ''ann:h/x'' \<mapsto> JStr (enc (JStr (enc (file_metadata ''ann'' 1 ''h'' ''h/x''))))]"

theorem delete_other_file_stays_listed_witness:
  "\<exists>res t D'. delete_path demo_ext (demo_request ''h/x'') (demo_state demo_db2) = Ret res t \<and>
     docs demo_ext t ''ann:h/x'' = None \<and> docs demo_ext t ''ann:h'' = Some D' \<and>
     JStr ''h/x'' \<in> set (entries ''files'' D')"
proof -
  have v: "meta_view demo_ext (demo_state demo_db2) ''ann:h/x'' \<noteq> None"
    "docs demo_ext (demo_state demo_db2) ''ann:h'' = Some (demo_dir [] [''h/x''])"
    by (simp_all add: demo_view docs_def demo_db2_def)
  have par: "parent_of ''h/x'' = Some ''h''" by (simp add: parent_of_def)
  have "lists_field ''subdirectories'' (demo_dir [] [''h/x''])" by simp
  from delete_other_file_stays_listed [OF demo_ready demo_marker demo_asks demo_request_for _ par _ this,
      of demo_db2] v
  show ?thesis by (auto simp: demo_user_key is_txt_def)
qed

end
