(* ===== verification/Deletion_Manager.thy ===== *)
theory Deletion_Manager
  imports Database_Handler Toy_Codec
begin

text \<open>
  The deletion manager, \<open>src/CODE/src/metaserver/deletion_manager/deletion_manager.cpp\<close>: request
  handlers append keys to a queue under a mutex, and one worker thread takes the whole queue as a
  batch and asks the block servers to delete the data of each key.  The threads interleave at the
  critical sections, which are the steps of a transition system; \<open>wait_for\<close> may time out at any
  moment, so a waiting worker may always wake up.
\<close>

datatype worker = Waiting | Processing "string list" | Finished | Crashed

text \<open>
  \<open>asked\<close> and \<open>attempted\<close> are the history: all keys ever enqueued, and all keys whose
  deletion has been requested from the block servers.
\<close>

record 'w dm =
  shared :: "'w mstate"
  stop_thread :: bool
  worker :: worker
  asked :: "string list"
  attempted :: "string list"

definition dm_init :: "'w mstate \<Rightarrow> 'w dm" where
  "dm_init s = \<lparr>shared = s\<lparr>deletion_queue := []\<rparr>, stop_thread = False, worker = Waiting,
                asked = [], attempted = []\<rparr>"

text \<open>\<open>enqueue\<close>, called by any handler.\<close>

definition dm_enqueue :: "string \<Rightarrow> 'w dm \<Rightarrow> 'w dm" where
  "dm_enqueue key d =
     d\<lparr>shared := (shared d)\<lparr>deletion_queue := deletion_queue (shared d) @ [key]\<rparr>,
       asked := asked d @ [key]\<rparr>"

text \<open>One critical section of \<open>process\<close>: the worker leaves, or moves the queue to its batch.\<close>

definition dm_wake :: "'w dm \<Rightarrow> 'w dm" where
  "dm_wake d =
     (if stop_thread d \<and> deletion_queue (shared d) = [] then d\<lparr>worker := Finished\<rparr>
      else d\<lparr>worker := Processing (deletion_queue (shared d)),
             shared := (shared d)\<lparr>deletion_queue := []\<rparr>\<rparr>)"

text \<open>
  One turn of the loop over the batch.  A failed deletion is only logged; an exception leaves the
  thread's function, which ends the process, and so does undefined behaviour or a loop in the
  library for the purposes of this thread.
\<close>

definition dm_delete :: "('w, 'x) meta_ext_scheme \<Rightarrow> string \<Rightarrow> string list \<Rightarrow> 'w dm \<Rightarrow> 'w dm" where
  "dm_delete X key rest d =
     (case delete_blockdata X key (shared d) of
        Ret r s \<Rightarrow> d\<lparr>shared := s, worker := Processing rest, attempted := attempted d @ [key]\<rparr>
      | _ \<Rightarrow> d\<lparr>worker := Crashed\<rparr>)"

inductive dm_step :: "('w, 'x) meta_ext_scheme \<Rightarrow> 'w dm \<Rightarrow> 'w dm \<Rightarrow> bool" for X where
  enqueue: "dm_step X d (dm_enqueue key d)"
| wake: "worker d = Waiting \<Longrightarrow> dm_step X d (dm_wake d)"
| delete: "worker d = Processing (key # rest) \<Longrightarrow> dm_step X d (dm_delete X key rest d)"
| batch_done: "worker d = Processing [] \<Longrightarrow> dm_step X d (d\<lparr>worker := Waiting\<rparr>)"
| stop: "dm_step X d (d\<lparr>stop_thread := True\<rparr>)"

inductive_cases dm_stepE: "dm_step X d d'"

abbreviation dm_steps :: "('w, 'x) meta_ext_scheme \<Rightarrow> 'w dm \<Rightarrow> 'w dm \<Rightarrow> bool" where
  "dm_steps X \<equiv> (dm_step X)\<^sup>*\<^sup>*"

section \<open>Every key is deleted once, in order\<close>

definition in_hand :: "'w dm \<Rightarrow> string list" where
  "in_hand d = (case worker d of Processing ks \<Rightarrow> ks | _ \<Rightarrow> [])"

definition dm_inv :: "'w dm \<Rightarrow> bool" where
  "dm_inv d \<longleftrightarrow>
     (worker d \<noteq> Crashed \<longrightarrow> asked d = attempted d @ in_hand d @ deletion_queue (shared d))"

text \<open>Deleting the data of a key does not touch the queue.\<close>

lemma delete_blockdata_queue:
  "delete_blockdata X key s = Ret r t \<Longrightarrow> deletion_queue t = deletion_queue s"
  by (auto simp: delete_blockdata_def select_block_server_group_def on_net_def
           split: if_splits outcome.splits)

lemma dm_inv_step: "dm_step X d d' \<Longrightarrow> dm_inv d \<Longrightarrow> dm_inv d'"
proof (induction rule: dm_step.induct)
  case (enqueue d key)
  then show ?case by (simp add: dm_inv_def in_hand_def dm_enqueue_def)
next
  case (wake d)
  then show ?case by (simp add: dm_inv_def in_hand_def dm_wake_def)
next
  case (delete d key rest)
  then show ?case
    by (auto simp: dm_inv_def in_hand_def dm_delete_def delete_blockdata_queue
             split: outcome.split)
next
  case (batch_done d)
  then show ?case by (simp add: dm_inv_def in_hand_def)
next
  case (stop d)
  then show ?case by (simp add: dm_inv_def in_hand_def)
qed

lemma dm_inv_init: "dm_inv (dm_init s)"
  by (simp add: dm_inv_def dm_init_def in_hand_def)

lemma dm_inv_steps: "dm_steps X d d' \<Longrightarrow> dm_inv d \<Longrightarrow> dm_inv d'"
  by (induction rule: rtranclp_induct) (auto intro: dm_inv_step)

text \<open>C12: At every moment the keys enqueued so far are, in the order in which they were enqueued, the
  keys whose block data has been requested to be deleted, then the rest of the worker's batch, then
  the queue: no key is lost, reordered or deleted twice.  When the worker leaves its loop, every key
  enqueued by then has been dealt with.\<close>

theorem deletions_exactly_once_in_order:
  assumes "dm_steps X (dm_init s) d" and "worker d \<noteq> Crashed"
  shows "asked d = attempted d @ in_hand d @ deletion_queue (shared d) \<and>
    (worker d = Waiting \<and> worker (dm_wake d) = Finished \<longrightarrow> attempted d = asked d)"
  using dm_inv_steps [OF assms(1) dm_inv_init] assms(2)
  by (auto simp: dm_inv_def dm_wake_def in_hand_def split: if_splits)

section \<open>The worker drains the queue\<close>

text \<open>The steps of the worker alone.\<close>

definition dm_work :: "('w, 'x) meta_ext_scheme \<Rightarrow> 'w dm \<Rightarrow> 'w dm" where
  "dm_work X d = (case worker d of
       Waiting \<Rightarrow> dm_wake d
     | Processing [] \<Rightarrow> d\<lparr>worker := Waiting\<rparr>
     | Processing (key # rest) \<Rightarrow> dm_delete X key rest d
     | _ \<Rightarrow> d)"

lemma dm_work_steps: "dm_steps X d ((dm_work X ^^ n) d)"
proof (induction n)
  case (Suc n)
  have "dm_step X e (dm_work X e) \<or> dm_work X e = e" for e
    by (cases "worker e") (auto simp: dm_work_def intro: dm_step.intros split: list.split)
  with Suc show ?case by (auto intro: rtranclp.rtrancl_into_rtrancl) (metis rtranclp.rtrancl_into_rtrancl)
qed simp

text \<open>The block servers answer: each deletion request returns, whatever it returns.\<close>

definition deletions_return :: "('w, 'x) meta_ext_scheme \<Rightarrow> initiation \<Rightarrow> bool" where
  "deletions_return X conf \<longleftrightarrow>
     (\<forall>key s. init s = conf \<longrightarrow> (\<exists>r t. delete_blockdata X key s = Ret r t \<and> init t = conf))"

lemma dm_work_batch:
  assumes X: "deletions_return X (init (shared d))" and w: "worker d = Processing ks"
  shows "\<exists>d'. (dm_work X ^^ length ks) d = d' \<and> worker d' = Processing [] \<and>
    attempted d' = attempted d @ ks \<and> deletion_queue (shared d') = deletion_queue (shared d) \<and>
    asked d' = asked d \<and> init (shared d') = init (shared d) \<and> stop_thread d' = stop_thread d"
  using X w
proof (induction ks arbitrary: d)
  case (Cons k ks)
  from Cons.prems(1) obtain r t where
    t: "delete_blockdata X k (shared d) = Ret r t" "init t = init (shared d)"
    unfolding deletions_return_def by blast
  let ?e = "d\<lparr>shared := t, worker := Processing ks, attempted := attempted d @ [k]\<rparr>"
  have step: "dm_work X d = ?e"
    using Cons.prems(2) t(1) by (simp add: dm_work_def dm_delete_def)
  have "(dm_work X ^^ length (k # ks)) d = (dm_work X ^^ length ks) ?e"
    by (simp add: funpow_Suc_right step del: funpow.simps)
  with Cons.IH [of ?e] Cons.prems(1) t delete_blockdata_queue [OF t(1)] show ?case by auto
qed simp

lemma dm_work_drains:
  assumes X: "deletions_return X (init (shared d))" and w: "worker d = Waiting" and run: "\<not> stop_thread d" and inv: "dm_inv d"
  shows "\<exists>d'. (dm_work X ^^ (2 + length (deletion_queue (shared d)))) d = d' \<and> worker d' = Waiting \<and>
    deletion_queue (shared d') = [] \<and> attempted d' = asked d"
proof -
  let ?q = "deletion_queue (shared d)"
  let ?e = "d\<lparr>worker := Processing ?q, shared := (shared d)\<lparr>deletion_queue := []\<rparr>\<rparr>"
  have first: "dm_work X d = ?e" using w run by (simp add: dm_work_def dm_wake_def)
  obtain f where f: "(dm_work X ^^ length ?q) ?e = f" "worker f = Processing []"
    "attempted f = attempted d @ ?q" "deletion_queue (shared f) = []"
    using dm_work_batch [of X ?e ?q] X by auto
  have "(dm_work X ^^ (2 + length ?q)) d = dm_work X ((dm_work X ^^ length ?q) (dm_work X d))"
    by (simp add: funpow_swap1)
  also have "\<dots> = f\<lparr>worker := Waiting\<rparr>" using f(1,2) first by (simp add: dm_work_def)
  finally show ?thesis
    using f inv w by (auto simp: dm_inv_def in_hand_def)
qed

text \<open>C13: While the manager runs and the block servers answer, a waiting worker deals with every key
  in its queue in as many steps as there are keys and two more: afterwards the queue is empty and
  each key enqueued has been deleted.\<close>

theorem worker_drains_queue:
  assumes "dm_steps X (dm_init s) d" and "worker d = Waiting" and "\<not> stop_thread d"
    and "deletions_return X (init (shared d))"
  shows "\<exists>d'. (dm_work X ^^ (2 + length (deletion_queue (shared d)))) d = d' \<and> dm_steps X d d' \<and>
    worker d' = Waiting \<and> deletion_queue (shared d') = [] \<and> attempted d' = asked d"
proof -
  have "dm_inv d" by (rule dm_inv_steps [OF assms(1) dm_inv_init])
  from dm_work_drains [OF assms(4,2,3) this] show ?thesis
    using dm_work_steps [of X d] by blast
qed

section \<open>Witnesses\<close>

text \<open>Block servers that always fail: each request still returns.\<close>

definition down_ext :: "unit meta_ext" where
  "down_ext = \<lparr>json_parse = toy_parse, json_dump = toy_dump, json_pretty = toy_dump,
     what = (\<lambda>_. ''what''), float_trunc = (\<lambda>_. 0), json_read = toy_parse, curl_init = (\<lambda>c. (True, c)),
     curl_perform = (\<lambda>_ _ _ w. (Curl_error ''down'', w)), shuffled = (\<lambda>ss c. (ss, c)),
     jwt_user = (\<lambda>t k n. None), hash = length, time_now = (\<lambda>_. 7)\<rparr>"

definition down_state :: "unit mstate" where
  "down_state = \<lparr>init = initial_initiation\<lparr>blockserver_lists := [[''b1'']]\<rparr>, deletion_queue = [],
                 outbox = [], net = ()\<rparr>"

lemma down_send: "sendRequest down_ext url ty m () = Ret (mk_response [] ''down'' False) ()"
  by (simp add: sendRequest_def down_ext_def toy_dump_def dump_def)

lemma down_redirect [simp]:
  "redirectToLeader down_ext url ty m () = Ret (mk_response [] ''down'' False) ()"
  by (rule redirect_loop_final [OF down_send]) simp

lemma down_returns: "deletions_return down_ext (init down_state)"
proof -
  have "shuffled down_ext ss () = (ss, ())" for ss by (simp add: down_ext_def)
  then show ?thesis
    by (auto simp: deletions_return_def delete_blockdata_def select_block_server_group_def on_net_def
        dkv_del_def dkv_set_def dkv_defs tryServers_def down_state_def group_of_def Let_def)
qed

definition down_dm :: "unit dm" where
  "down_dm = dm_enqueue ''ann:g'' (dm_enqueue ''ann:f'' (dm_init down_state))"

lemma down_dm_steps: "dm_steps down_ext (dm_init down_state) down_dm"
  unfolding down_dm_def
  by (rule rtranclp.rtrancl_into_rtrancl [OF rtranclp.rtrancl_into_rtrancl [OF rtranclp.rtrancl_refl]])
     (rule dm_step.enqueue)+

theorem deletions_exactly_once_in_order_witness:
  "asked down_dm = attempted down_dm @ in_hand down_dm @ deletion_queue (shared down_dm) \<and>
   asked down_dm = [''ann:f'', ''ann:g'']"
  using deletions_exactly_once_in_order [OF down_dm_steps]
  by (simp add: down_dm_def dm_enqueue_def dm_init_def)

theorem worker_drains_queue_witness:
  "\<exists>d'. (dm_work down_ext ^^ 4) down_dm = d' \<and> attempted d' = [''ann:f'', ''ann:g'']"
proof -
  have "deletions_return down_ext (init (shared down_dm))"
    using down_returns by (simp add: down_dm_def dm_enqueue_def dm_init_def)
  from worker_drains_queue [OF down_dm_steps _ _ this]
  show ?thesis by (simp add: down_dm_def dm_enqueue_def dm_init_def)
qed

end
