(* ===== verification/Cache.thy ===== *)
theory Cache
  imports Prelude "HOL-Library.Word"
begin

text \<open>
  The client's LRU cache with expiry, \<open>src/CODE/src/client/cache/cache.cpp\<close>: the hash map is
  an association list (its bucket order is irrelevant and unspecified), the list of keys has nodes
  with addresses so that an iterator is the address of a node, sizes are 64-bit words, and times are
  milliseconds handed in by the caller.  Every public operation runs under the cache's mutex, so each
  is one step.  The last part states what a cache promises its users (locale \<open>lossy_cache\<close>).
\<close>

record cache_entry =
  entry_value :: "string list"
  expireTime :: int
  lruIterator :: nat

record cache =
  cache_map :: "(string \<times> cache_entry) list"
  lru_list :: "(nat \<times> string) list"
  fresh_node :: nat
  defaultTTL :: int
  maxSize :: "64 word"
  currentSize :: "64 word"
  stopCleaner :: bool

definition new_cache :: "int \<Rightarrow> 64 word \<Rightarrow> cache" where
  "new_cache ttl mx = \<lparr>cache_map = [], lru_list = [], fresh_node = 0, defaultTTL = ttl, maxSize = mx,
                       currentSize = 0, stopCleaner = False\<rparr>"

definition computeValueSize :: "string list \<Rightarrow> 64 word" where
  "computeValueSize vec = foldl (\<lambda>total s. total + of_nat (length s)) 0 vec"

definition entrySize :: "string \<Rightarrow> string list \<Rightarrow> 64 word" where
  "entrySize key vec = of_nat (length key) + computeValueSize vec"

definition lru_erase :: "nat \<Rightarrow> (nat \<times> string) list \<Rightarrow> (nat \<times> string) list" where
  "lru_erase i xs = filter (\<lambda>n. fst n \<noteq> i) xs"

definition cache_erase :: "string \<Rightarrow> (string \<times> cache_entry) list \<Rightarrow> (string \<times> cache_entry) list" where
  "cache_erase key xs = filter (\<lambda>kv. fst kv \<noteq> key) xs"

text \<open>Removing one entry that was found: size, list node and map entry.\<close>

definition drop_entry :: "string \<Rightarrow> cache_entry \<Rightarrow> cache \<Rightarrow> cache" where
  "drop_entry key e c =
     c\<lparr>currentSize := currentSize c - entrySize key (entry_value e),
       lru_list := lru_erase (lruIterator e) (lru_list c),
       cache_map := cache_erase key (cache_map c)\<rparr>"

text \<open>
  The eviction loop.  A key at the back of the list that is not in the map would make the loop run
  forever (\<open>None\<close>).
\<close>

partial_function (option) evict :: "64 word \<Rightarrow> cache \<Rightarrow> cache option" where
  "evict need c =
     (if currentSize c + need > maxSize c then
        (if lru_list c = [] then Some c
         else
           (case map_of (cache_map c) (snd (last (lru_list c))) of
              None \<Rightarrow> evict need c
            | Some e \<Rightarrow>
                evict need
                  (c\<lparr>currentSize := currentSize c - entrySize (snd (last (lru_list c))) (entry_value e),
                     lru_list := butlast (lru_list c),
                     cache_map := cache_erase (snd (last (lru_list c))) (cache_map c)\<rparr>)))
      else Some c)"

definition cache_set :: "int \<Rightarrow> string \<Rightarrow> string list \<Rightarrow> int \<Rightarrow> cache \<Rightarrow> cache option" where
  "cache_set now key val ttl c =
     (let c1 = (case map_of (cache_map c) key of None \<Rightarrow> c | Some e \<Rightarrow> drop_entry key e c);
          expire = now + (if ttl > 0 then ttl else defaultTTL c);
          need = entrySize key val
      in if need > maxSize c then Some c1
         else
           (case evict need c1 of
              None \<Rightarrow> None
            | Some c2 \<Rightarrow>
                Some (c2\<lparr>lru_list := (fresh_node c2, key) # lru_list c2, fresh_node := fresh_node c2 + 1,
                         cache_map := (key, \<lparr>entry_value = val, expireTime = expire,
                                          lruIterator = fresh_node c2\<rparr>) # cache_erase key (cache_map c2),
                         currentSize := currentSize c2 + need\<rparr>)))"

definition cache_get :: "int \<Rightarrow> string \<Rightarrow> cache \<Rightarrow> string list \<times> cache" where
  "cache_get now key c =
     (case map_of (cache_map c) key of
        None \<Rightarrow> ([], c)
      | Some e \<Rightarrow>
          if now \<ge> expireTime e then ([], drop_entry key e c)
          else (entry_value e,
                c\<lparr>lru_list := (fresh_node c, key) # lru_erase (lruIterator e) (lru_list c),
                  fresh_node := fresh_node c + 1,
                  cache_map := map (\<lambda>(k, v). (k, if k = key then v\<lparr>lruIterator := fresh_node c\<rparr> else v))
                              (cache_map c)\<rparr>))"

text \<open>
  One turn of the cleaner thread after its sleep; \<open>None\<close> is the end of the thread.  The loop
  visits the entries the map had when the turn began.
\<close>

fun clean :: "int \<Rightarrow> (string \<times> cache_entry) list \<Rightarrow> cache \<Rightarrow> cache" where
  "clean now [] c = c"
| "clean now ((key, e) # rest) c =
     clean now rest (if now \<ge> expireTime e then drop_entry key e c else c)"

definition cleaner :: "int \<Rightarrow> cache \<Rightarrow> cache option" where
  "cleaner now c = (if stopCleaner c then None else Some (clean now (cache_map c) c))"

section \<open>The invariant\<close>

definition total :: "(string \<times> cache_entry) list \<Rightarrow> nat" where
  "total xs = (\<Sum>(k, e) \<leftarrow> xs. length k + sum_list (map length (entry_value e)))"

definition list_size :: "string \<Rightarrow> string list \<Rightarrow> nat" where
  "list_size k v = length k + sum_list (map length v)"

text \<open>
  Map and list hold the same keys, each entry's iterator is the address of its key's node, and the
  running size is the sum of the sizes of the entries and does not exceed the limit.  Half of the
  address space bounds the limit, so the loop's sum does not wrap.
\<close>

definition cache_inv :: "cache \<Rightarrow> bool" where
  "cache_inv c \<longleftrightarrow>
     distinct (map fst (cache_map c)) \<and> distinct (map fst (lru_list c)) \<and>
     set (lru_list c) = (\<lambda>(k, e). (lruIterator e, k)) ` set (cache_map c) \<and>
     (\<forall>n \<in> set (lru_list c). fst n < fresh_node c) \<and>
     currentSize c = of_nat (total (cache_map c)) \<and> total (cache_map c) \<le> unat (maxSize c) \<and>
     maxSize c < 2 ^ 63"

lemma computeValueSize_eq: "computeValueSize vec = of_nat (sum_list (map length vec))"
proof -
  have "foldl (\<lambda>total s. total + of_nat (length s)) a vec = a + of_nat (sum_list (map length vec))"
    for a :: "64 word"
    by (induction vec arbitrary: a) simp_all
  then show ?thesis by (simp add: computeValueSize_def)
qed

lemma entrySize_eq: "entrySize k v = of_nat (list_size k v)"
  by (simp add: entrySize_def list_size_def computeValueSize_eq)

lemma total_simps [simp]:
  "total [] = 0" "total ((k, e) # xs) = list_size k (entry_value e) + total xs"
  by (simp_all add: total_def list_size_def)

lemma total_erase:
  "distinct (map fst xs) \<Longrightarrow> map_of xs k = Some e \<Longrightarrow>
     total xs = list_size k (entry_value e) + total (cache_erase k xs)"
proof (induction xs)
  case (Cons x xs)
  obtain k' e' where x: "x = (k', e')" by (cases x)
  show ?case
  proof (cases "k' = k")
    case True
    with Cons.prems have "k \<notin> set (map fst xs)" by (simp add: x)
    then have "cache_erase k xs = xs" by (auto simp: cache_erase_def filter_id_conv)
    with Cons.prems True x show ?thesis by (simp add: cache_erase_def)
  next
    case False
    with Cons x show ?thesis by (simp add: cache_erase_def)
  qed
qed simp

lemma set_cache_erase [simp]: "set (cache_erase k xs) = {kv \<in> set xs. fst kv \<noteq> k}"
  by (simp add: cache_erase_def)

lemma set_lru_erase [simp]: "set (lru_erase i xs) = {n \<in> set xs. fst n \<noteq> i}"
  by (simp add: lru_erase_def)

lemma distinct_erase [simp]:
  "distinct (map fst xs) \<Longrightarrow> distinct (map fst (cache_erase k xs))"
  "distinct (map fst ys) \<Longrightarrow> distinct (map fst (lru_erase i ys))"
  by (simp_all add: cache_erase_def lru_erase_def distinct_map_filter)

lemma map_of_erase: "map_of (cache_erase k xs) = (map_of xs)(k := None)"
  by (induction xs) (auto simp: cache_erase_def fun_eq_iff)

text \<open>Iterators identify entries.\<close>

lemma iterator_eq:
  assumes "cache_inv c" and "(k, e) \<in> set (cache_map c)" and "(k', e') \<in> set (cache_map c)"
    and "lruIterator e = lruIterator e'"
  shows "k = k' \<and> e = e'"
proof -
  have img: "set (lru_list c) = (\<lambda>(k, e). (lruIterator e, k)) ` set (cache_map c)"
    using assms(1) by (simp add: cache_inv_def)
  have "(lruIterator e, k) \<in> set (lru_list c)" "(lruIterator e', k') \<in> set (lru_list c)"
    unfolding img using assms(2,3) by force+
  moreover have "distinct (map fst (lru_list c))" using assms(1) by (simp add: cache_inv_def)
  ultimately have "k = k'" using assms(4) by (auto dest: eq_key_imp_eq_value)
  moreover have "distinct (map fst (cache_map c))" using assms(1) by (simp add: cache_inv_def)
  ultimately show ?thesis using assms(2,3) by (auto dest: eq_key_imp_eq_value)
qed

lemma lru_after_erase:
  assumes inv: "cache_inv c" and e: "(k, e) \<in> set (cache_map c)"
  shows "{n \<in> set (lru_list c). fst n \<noteq> lruIterator e} =
         (\<lambda>(k, e). (lruIterator e, k)) ` {kv \<in> set (cache_map c). fst kv \<noteq> k}"
proof -
  have img: "set (lru_list c) = (\<lambda>(k, e). (lruIterator e, k)) ` set (cache_map c)"
    using inv by (simp add: cache_inv_def)
  have uniq: "distinct (map fst (cache_map c))" using inv by (simp add: cache_inv_def)
  let ?f = "\<lambda>(k, e). (lruIterator e, k)"
  have same: "fst (?f kv) \<noteq> lruIterator e \<longleftrightarrow> fst kv \<noteq> k" if kv: "kv \<in> set (cache_map c)" for kv
  proof -
    obtain k' e' where kv': "kv = (k', e')" by (cases kv)
    show ?thesis
      using iterator_eq [OF inv _ e, of k' e'] eq_key_imp_eq_value [OF uniq _ e, of e'] kv kv' by auto
  qed
  have "{n \<in> ?f ` set (cache_map c). fst n \<noteq> lruIterator e} =
        ?f ` {kv \<in> set (cache_map c). fst (?f kv) \<noteq> lruIterator e}" by auto
  also have "\<dots> = ?f ` {kv \<in> set (cache_map c). fst kv \<noteq> k}"
    using same by (intro arg_cong [where f = "image ?f"] Collect_cong) blast
  finally show ?thesis by (simp add: img)
qed

lemma size_minus:
  "(of_nat (a + b) :: 64 word) - of_nat a = of_nat b"
  by simp

lemma cache_inv_drop:
  assumes inv: "cache_inv c" and e: "map_of (cache_map c) k = Some e"
  shows "cache_inv (drop_entry k e c)"
proof -
  have mem: "(k, e) \<in> set (cache_map c)" using e by (rule map_of_SomeD)
  have uniq: "distinct (map fst (cache_map c))" using inv by (simp add: cache_inv_def)
  note tot = total_erase [OF uniq e]
  have "currentSize c - entrySize k (entry_value e) = of_nat (total (cache_erase k (cache_map c)))"
    using inv by (simp add: cache_inv_def entrySize_eq tot)
  moreover have "total (cache_erase k (cache_map c)) \<le> unat (maxSize c)"
    using inv tot by (simp add: cache_inv_def)
  ultimately show ?thesis
    using inv lru_after_erase [OF inv mem] by (auto simp: cache_inv_def drop_entry_def)
qed

section \<open>Eviction\<close>

lemma over_limit_iff:
  fixes need mx :: "64 word"
  assumes "t \<le> unat mx" and "need \<le> mx" and "mx < 2 ^ 63"
  shows "of_nat t + need > mx \<longleftrightarrow> unat mx < t + unat need"
    and "t + unat need < 2 ^ 64"
proof -
  have m: "unat mx < 2 ^ 63" using assms(3) by (simp add: word_less_nat_alt)
  have n: "unat need \<le> unat mx" using assms(2) by (simp add: word_le_nat_alt)
  from m n assms(1) show le: "t + unat need < 2 ^ 64" by simp
  have "unat (of_nat t + need :: 64 word) = t + unat need"
    using le by (simp add: unat_word_ariths unat_of_nat take_bit_eq_mod)
  then show "of_nat t + need > mx \<longleftrightarrow> unat mx < t + unat need"
    by (simp add: word_less_nat_alt)
qed

lemma evict_body:
  assumes inv: "cache_inv c" and ne: "lru_list c \<noteq> []"
  obtains k e where "map_of (cache_map c) k = Some e" and "snd (last (lru_list c)) = k"
    and "butlast (lru_list c) = lru_erase (lruIterator e) (lru_list c)"
proof -
  obtain i k where l: "last (lru_list c) = (i, k)" by (cases "last (lru_list c)")
  with ne have "(i, k) \<in> set (lru_list c)" by (metis last_in_set)
  then obtain e where e: "(k, e) \<in> set (cache_map c)" "lruIterator e = i"
    using inv by (auto simp: cache_inv_def)
  have split: "lru_list c = butlast (lru_list c) @ [(i, k)]"
    using ne l by (metis append_butlast_last_id)
  have "distinct (map fst (lru_list c))" using inv by (simp add: cache_inv_def)
  then have "distinct (map fst (butlast (lru_list c) @ [(i, k)]))" using split by simp
  then have "\<forall>n \<in> set (butlast (lru_list c)). fst n \<noteq> i" by auto
  then have "lru_erase i (butlast (lru_list c) @ [(i, k)]) = butlast (lru_list c)"
    by (simp add: lru_erase_def filter_id_conv)
  moreover have "map_of (cache_map c) k = Some e"
    using e inv by (simp add: cache_inv_def)
  ultimately show ?thesis using that l e(2) split by auto
qed

lemma drop_entry_simps [simp]:
  "fresh_node (drop_entry k e c) = fresh_node c" "defaultTTL (drop_entry k e c) = defaultTTL c"
  "maxSize (drop_entry k e c) = maxSize c" "stopCleaner (drop_entry k e c) = stopCleaner c"
  "cache_map (drop_entry k e c) = cache_erase k (cache_map c)"
  "lru_list (drop_entry k e c) = lru_erase (lruIterator e) (lru_list c)"
  by (simp_all add: drop_entry_def)

definition same_limits :: "cache \<Rightarrow> cache \<Rightarrow> bool" where
  "same_limits c d \<longleftrightarrow> fresh_node d = fresh_node c \<and> defaultTTL d = defaultTTL c \<and>
     maxSize d = maxSize c \<and> stopCleaner d = stopCleaner c"

text \<open>
  The loop ends; it keeps the most recently used entries, as many as leave room for the new one, and
  forgets the rest.
\<close>

lemma evict_spec:
  assumes "cache_inv c" and "need \<le> maxSize c"
  shows "\<exists>d n. evict need c = Some d \<and> cache_inv d \<and> same_limits c d \<and>
    lru_list d = take n (lru_list c) \<and>
    (\<forall>k. map_of (cache_map d) k = (if k \<in> snd ` set (lru_list d) then map_of (cache_map c) k else None)) \<and>
    total (cache_map d) + unat need \<le> unat (maxSize c) \<and>
    (n < length (lru_list c) \<longrightarrow>
      unat (maxSize c) < total (filter (\<lambda>kv. fst kv \<in> snd ` set (take (Suc n) (lru_list c))) (cache_map c))
                         + unat need)"
  using assms
proof (induction "length (lru_list c)" arbitrary: c rule: less_induct)
  case less
  note inv = less.prems(1)
  have keys: "snd ` set (lru_list c) = fst ` set (cache_map c)"
    using inv by (force simp: cache_inv_def)
  have lim: "total (cache_map c) \<le> unat (maxSize c)" "maxSize c < 2 ^ 63"
    "currentSize c = of_nat (total (cache_map c))" using inv by (simp_all add: cache_inv_def)
  note cmp = over_limit_iff(1) [OF lim(1) less.prems(2) lim(2)]
  have whole: "map_of (cache_map c) k =
      (if k \<in> snd ` set (lru_list c) then map_of (cache_map c) k else None)" for k
    unfolding keys by (auto simp: map_of_eq_None_iff)
  show ?case
  proof (cases "unat (maxSize c) < total (cache_map c) + unat need")
    case False
    then have "evict need c = Some c" using cmp lim(3) by (simp add: evict.simps)
    with False inv whole show ?thesis
      by (intro exI [of _ c] exI [of _ "length (lru_list c)"]) (auto simp: same_limits_def)
  next
    case True
    have ne: "lru_list c \<noteq> []"
    proof
      assume "lru_list c = []"
      with keys have "cache_map c = []" by simp
      with True less.prems(2) show False by (simp add: word_le_nat_alt)
    qed
    from inv ne obtain k e where b: "map_of (cache_map c) k = Some e" "snd (last (lru_list c)) = k"
      "butlast (lru_list c) = lru_erase (lruIterator e) (lru_list c)" by (rule evict_body)
    let ?c1 = "drop_entry k e c"
    have step: "evict need c = evict need ?c1"
      using True cmp lim(3) ne b by (subst evict.simps) (simp add: drop_entry_def)
    have short: "length (lru_list ?c1) < length (lru_list c)"
      using ne b(3) [symmetric] by (cases "lru_list c") auto
    have need1: "need \<le> maxSize ?c1" using less.prems(2) by simp
    from less.hyps [OF short cache_inv_drop [OF inv b(1)] need1] obtain d n where
      d: "evict need ?c1 = Some d" "cache_inv d" "same_limits ?c1 d"
        "lru_list d = take n (lru_list ?c1)"
        "\<And>j. map_of (cache_map d) j = (if j \<in> snd ` set (lru_list d) then map_of (cache_map ?c1) j else None)"
        "total (cache_map d) + unat need \<le> unat (maxSize ?c1)"
      and min: "n < length (lru_list ?c1) \<longrightarrow>
        unat (maxSize ?c1) < total (filter (\<lambda>kv. fst kv \<in> snd ` set (take (Suc n) (lru_list ?c1))) (cache_map ?c1))
                         + unat need"
      by blast
    have lru1: "lru_list ?c1 = butlast (lru_list c)" using b(3) by simp
    define m where "m = min n (length (butlast (lru_list c)))"
    have tk: "lru_list d = take m (lru_list c)"
      unfolding d(4) lru1 m_def by (simp add: butlast_conv_take)
    have knot: "k \<notin> snd ` set (butlast (lru_list c))"
      unfolding b(3) using lru_after_erase [OF inv map_of_SomeD [OF b(1)]] by auto
    have sub: "set (lru_list d) \<subseteq> set (butlast (lru_list c))"
      using d(4) lru1 by (simp add: set_take_subset)
    have mp: "map_of (cache_map d) j = (if j \<in> snd ` set (lru_list d) then map_of (cache_map c) j else None)" for j
      using d(5) [of j] sub knot by (auto simp: map_of_erase)
    have len: "m < length (lru_list c)"
    proof -
      have "length (butlast (lru_list c)) < length (lru_list c)" using ne by simp
      then show ?thesis unfolding m_def by linarith
    qed
    have minimal: "unat (maxSize c) <
        total (filter (\<lambda>kv. fst kv \<in> snd ` set (take (Suc m) (lru_list c))) (cache_map c)) + unat need"
    proof (cases "n < length (butlast (lru_list c))")
      case True
      then have m: "m = n" and t: "take (Suc n) (lru_list c) = take (Suc n) (butlast (lru_list c))"
        by (simp_all add: m_def take_butlast)
      have "filter (\<lambda>kv. fst kv \<in> snd ` set (take (Suc n) (butlast (lru_list c)))) (cache_erase k (cache_map c))
          = filter (\<lambda>kv. fst kv \<in> snd ` set (take (Suc n) (butlast (lru_list c)))) (cache_map c)"
        using knot set_take_subset [of "Suc n" "butlast (lru_list c)"]
        by (auto simp: cache_erase_def intro!: filter_cong)
      with min True lru1 t m show ?thesis by simp
    next
      case False
      then have "Suc m = length (lru_list c)" using ne by (simp add: m_def)
      then have "filter (\<lambda>kv. fst kv \<in> snd ` set (take (Suc m) (lru_list c))) (cache_map c) = cache_map c"
        using keys by (auto simp: filter_id_conv)
      with True show ?thesis by simp
    qed
    have "same_limits c d" using d(3) by (simp add: same_limits_def)
    with step d(1,2,6) tk mp minimal show ?thesis
      by (intro exI [of _ d] exI [of _ m]) simp
  qed
qed

section \<open>The operations\<close>

text \<open>Strings and vectors that fit the address space.\<close>

definition fits :: "string \<Rightarrow> string list \<Rightarrow> bool" where
  "fits k v \<longleftrightarrow> list_size k v < 2 ^ 64"

lemma entrySize_unat: "fits k v \<Longrightarrow> unat (entrySize k v) = list_size k v"
  by (simp add: fits_def entrySize_eq unat_of_nat take_bit_eq_mod)

definition cached :: "cache \<Rightarrow> string \<rightharpoonup> string list" where
  "cached c k = map_option entry_value (map_of (cache_map c) k)"

definition keys_by_use :: "cache \<Rightarrow> string list" where
  "keys_by_use c = map snd (lru_list c)"

lemma cache_inv_keys:
  assumes "cache_inv c"
  shows "set (keys_by_use c) = dom (cached c)" and "distinct (keys_by_use c)"
proof -
  have img: "set (lru_list c) = (\<lambda>(k, e). (lruIterator e, k)) ` set (cache_map c)"
    using assms by (simp add: cache_inv_def)
  have "snd ` set (lru_list c) = fst ` set (cache_map c)"
    unfolding img by force
  moreover have "dom (cached c) = dom (map_of (cache_map c))"
    by (auto simp: cached_def dom_def)
  ultimately show "set (keys_by_use c) = dom (cached c)"
    by (simp add: keys_by_use_def dom_map_of_conv_image_fst)
  have "inj_on snd (set (lru_list c))"
  proof (rule inj_onI)
    fix n m assume n: "n \<in> set (lru_list c)" "m \<in> set (lru_list c)" and eq: "snd n = snd m"
    from n(1) obtain e where e: "n = (lruIterator e, snd n)" "(snd n, e) \<in> set (cache_map c)"
      unfolding img by auto
    from n(2) obtain f where f: "m = (lruIterator f, snd m)" "(snd m, f) \<in> set (cache_map c)"
      unfolding img by auto
    have "distinct (map fst (cache_map c))" using assms by (simp add: cache_inv_def)
    then have "e = f" using e(2) f(2) eq by (auto dest: eq_key_imp_eq_value)
    with e(1) f(1) eq show "n = m" by metis
  qed
  moreover have "distinct (lru_list c)" using assms by (auto simp: cache_inv_def distinct_map)
  ultimately show "distinct (keys_by_use c)" by (simp add: keys_by_use_def distinct_map)
qed

text \<open>Taking a key out, if it is there.\<close>

definition without :: "string \<Rightarrow> cache \<Rightarrow> cache" where
  "without key c = (case map_of (cache_map c) key of None \<Rightarrow> c | Some e \<Rightarrow> drop_entry key e c)"

lemma without_facts:
  assumes inv: "cache_inv c"
  shows "cache_inv (without key c)" and "same_limits c (without key c)"
    and "cached (without key c) = (cached c)(key := None)"
    and "keys_by_use (without key c) = filter (\<lambda>k. k \<noteq> key) (keys_by_use c)"
proof -
  show "cache_inv (without key c)"
    using cache_inv_drop [OF inv] inv by (simp add: without_def split: option.split)
  show "same_limits c (without key c)"
    by (simp add: without_def same_limits_def split: option.split)
  show "cached (without key c) = (cached c)(key := None)"
    by (auto simp: without_def cached_def map_of_erase fun_eq_iff split: option.split)
  show "keys_by_use (without key c) = filter (\<lambda>k. k \<noteq> key) (keys_by_use c)"
  proof (cases "map_of (cache_map c) key")
    case None
    then have "key \<notin> set (keys_by_use c)"
      using cache_inv_keys(1) [OF inv] by (auto simp: cached_def)
    then have "filter (\<lambda>k. k \<noteq> key) (keys_by_use c) = keys_by_use c"
      by (auto simp: filter_id_conv)
    with None show ?thesis by (simp add: without_def)
  next
    case (Some e)
    have "lru_erase (lruIterator e) (lru_list c) = filter (\<lambda>n. snd n \<noteq> key) (lru_list c)"
      unfolding lru_erase_def
    proof (rule filter_cong [OF refl])
      fix n assume n: "n \<in> set (lru_list c)"
      then obtain k' e' where k': "n = (lruIterator e', k')" "(k', e') \<in> set (cache_map c)"
        using inv by (auto simp: cache_inv_def)
      show "(fst n \<noteq> lruIterator e) = (snd n \<noteq> key)"
        using iterator_eq [OF inv k'(2) map_of_SomeD [OF Some]] k'
          eq_key_imp_eq_value [of "cache_map c" key e' e] map_of_SomeD [OF Some] inv
        by (auto simp: cache_inv_def)
    qed
    with Some show ?thesis
      by (simp add: without_def keys_by_use_def filter_map comp_def)
  qed
qed

text \<open>\<open>set\<close>: an entry too large for the cache only removes the old one.\<close>

lemma cache_set_large:
  assumes "\<not> list_size key val \<le> unat (maxSize c)" and "fits key val"
  shows "cache_set now key val ttl c = Some (without key c)"
proof -
  have "entrySize key val > maxSize c"
    using assms by (simp add: word_less_nat_alt entrySize_unat)
  then show ?thesis by (simp add: cache_set_def without_def Let_def)
qed

lemma cache_set_spec:
  assumes inv: "cache_inv c" and f: "fits key val" and small: "list_size key val \<le> unat (maxSize c)"
  shows "\<exists>d n. cache_set now key val ttl c = Some d \<and> cache_inv d \<and>
    keys_by_use d = key # take n (filter (\<lambda>k. k \<noteq> key) (keys_by_use c)) \<and>
    (\<forall>k. cached d k = (if k = key then Some val
                        else if k \<in> set (keys_by_use d) then cached c k else None)) \<and>
    map_option expireTime (map_of (cache_map d) key) = Some (now + (if ttl > 0 then ttl else defaultTTL c)) \<and>
    (n < length (filter (\<lambda>k. k \<noteq> key) (keys_by_use c)) \<longrightarrow>
       unat (maxSize c) < total (filter (\<lambda>kv. fst kv \<noteq> key \<and>
          fst kv \<in> set (take (Suc n) (filter (\<lambda>k. k \<noteq> key) (keys_by_use c)))) (cache_map c))
          + list_size key val)"
proof -
  let ?c1 = "without key c" and ?need = "entrySize key val"
  note w = without_facts [OF inv, of key]
  have need: "?need \<le> maxSize ?c1"
    using small f w(2) by (simp add: word_le_nat_alt entrySize_unat same_limits_def)
  from evict_spec [OF w(1) need] obtain c2 n where
    ev: "evict ?need ?c1 = Some c2" "cache_inv c2" "same_limits ?c1 c2"
      "lru_list c2 = take n (lru_list ?c1)"
      "\<And>k. map_of (cache_map c2) k = (if k \<in> snd ` set (lru_list c2) then map_of (cache_map ?c1) k else None)"
      "total (cache_map c2) + unat ?need \<le> unat (maxSize ?c1)"
    and min: "n < length (lru_list ?c1) \<longrightarrow>
      unat (maxSize ?c1) < total (filter (\<lambda>kv. fst kv \<in> snd ` set (take (Suc n) (lru_list ?c1))) (cache_map ?c1))
                         + unat ?need" by blast
  let ?e = "\<lparr>entry_value = val, expireTime = now + (if ttl > 0 then ttl else defaultTTL c),
              lruIterator = fresh_node c2\<rparr>"
  let ?d = "c2\<lparr>lru_list := (fresh_node c2, key) # lru_list c2, fresh_node := fresh_node c2 + 1,
     cache_map := (key, ?e) # cache_erase key (cache_map c2), currentSize := currentSize c2 + ?need\<rparr>"
  have run: "cache_set now key val ttl c = Some ?d"
    using need ev(1) w(2) by (simp add: cache_set_def without_def Let_def same_limits_def)
  have ku2: "keys_by_use c2 = take n (filter (\<lambda>k. k \<noteq> key) (keys_by_use c))"
    using ev(4) w(4) by (simp add: keys_by_use_def take_map [symmetric])
  have out: "key \<notin> set (keys_by_use c2)"
    unfolding ku2 using set_take_subset by fastforce
  then have "map_of (cache_map c2) key = None"
    using ev(5) [of key] by (simp add: keys_by_use_def)
  then have gone: "cache_erase key (cache_map c2) = cache_map c2"
    by (auto simp: cache_erase_def filter_id_conv map_of_eq_None_iff)
  have "key \<notin> fst ` set (cache_map c2)"
    using \<open>map_of (cache_map c2) key = None\<close> by (simp add: map_of_eq_None_iff)
  moreover have "fresh_node c2 \<notin> fst ` set (lru_list c2)"
  proof -
    have "\<forall>n \<in> set (lru_list c2). fst n < fresh_node c2" using ev(2) by (simp add: cache_inv_def)
    then show ?thesis by auto
  qed
  moreover have "maxSize c2 = maxSize c" using ev(3) w(2) by (simp add: same_limits_def)
  moreover have "\<forall>n \<in> set ((fresh_node c2, key) # lru_list c2). fst n < fresh_node c2 + 1"
  proof -
    have "\<forall>n \<in> set (lru_list c2). fst n < fresh_node c2" using ev(2) by (simp add: cache_inv_def)
    then show ?thesis by auto
  qed
  moreover have "list_size key val + total (cache_map c2) \<le> unat (maxSize c)"
    using ev(6) w(2) by (simp add: entrySize_unat [OF f] same_limits_def)
  ultimately have good: "cache_inv ?d"
    using ev(2) gone by (simp add: cache_inv_def entrySize_eq)
  have ku: "keys_by_use ?d = key # take n (filter (\<lambda>k. k \<noteq> key) (keys_by_use c))"
    using ku2 by (simp add: keys_by_use_def)
  have cont: "cached ?d k = (if k = key then Some val
                        else if k \<in> set (keys_by_use ?d) then cached c k else None)" for k
    using ev(5) [of k] w(3) gone by (simp add: cached_def keys_by_use_def fun_eq_iff)
  have len: "length (lru_list ?c1) = length (filter (\<lambda>k. k \<noteq> key) (keys_by_use c))"
    by (metis w(4) keys_by_use_def length_map)
  have "filter (\<lambda>kv. fst kv \<in> snd ` set (take (Suc n) (lru_list ?c1))) (cache_map ?c1)
      = filter (\<lambda>kv. fst kv \<noteq> key \<and>
          fst kv \<in> set (take (Suc n) (filter (\<lambda>k. k \<noteq> key) (keys_by_use c)))) (cache_map c)"
  proof -
    have "cache_map ?c1 = cache_erase key (cache_map c)"
    proof (cases "map_of (cache_map c) key")
      case None
      then have "cache_erase key (cache_map c) = cache_map c"
        by (auto simp: cache_erase_def filter_id_conv map_of_eq_None_iff)
      with None show ?thesis by (simp add: without_def)
    qed (simp add: without_def)
    moreover have "snd ` set (take (Suc n) (lru_list ?c1))
        = set (take (Suc n) (filter (\<lambda>k. k \<noteq> key) (keys_by_use c)))"
    proof -
      have "snd ` set (take (Suc n) (lru_list ?c1)) = set (take (Suc n) (keys_by_use ?c1))"
        by (simp add: keys_by_use_def take_map)
      then show ?thesis by (simp only: w(4))
    qed
    ultimately show ?thesis by (simp add: cache_erase_def)
  qed
  moreover have "maxSize ?c1 = maxSize c" using w(2) by (simp add: same_limits_def)
  ultimately have "n < length (filter (\<lambda>k. k \<noteq> key) (keys_by_use c)) \<longrightarrow>
       unat (maxSize c) < total (filter (\<lambda>kv. fst kv \<noteq> key \<and>
          fst kv \<in> set (take (Suc n) (filter (\<lambda>k. k \<noteq> key) (keys_by_use c)))) (cache_map c))
          + list_size key val"
    using min len f by (simp add: entrySize_unat)
  with run good ku cont show ?thesis by (intro exI [of _ ?d] exI [of _ n]) simp
qed

text \<open>\<open>get\<close>: a fresh entry moves to the front, an expired one goes.\<close>

lemma cache_get_spec:
  assumes inv: "cache_inv c"
  shows "cache_inv (snd (cache_get now key c))"
    and "fst (cache_get now key c) = (case map_of (cache_map c) key of
           Some e \<Rightarrow> if now < expireTime e then entry_value e else [] | None \<Rightarrow> [])"
    and "cached (snd (cache_get now key c)) = (case map_of (cache_map c) key of
           Some e \<Rightarrow> if now < expireTime e then cached c else (cached c)(key := None)
         | None \<Rightarrow> cached c)"
    and "keys_by_use (snd (cache_get now key c)) = (case map_of (cache_map c) key of
           Some e \<Rightarrow> (if now < expireTime e then [key] else []) @ filter (\<lambda>k. k \<noteq> key) (keys_by_use c)
         | None \<Rightarrow> keys_by_use c)"
proof -
  let ?m = "map (\<lambda>(k, v). (k, if k = key then v\<lparr>lruIterator := fresh_node c\<rparr> else v))"
  have fst_m: "map fst (?m xs) = map fst xs" for xs by (induction xs) auto
  have tot: "total (?m xs) = total xs" for xs by (induction xs) auto
  have look: "map_option entry_value (map_of (?m xs) k) = map_option entry_value (map_of xs k)"
    for xs k by (induction xs) auto
  note w = without_facts [OF inv, of key]
  show "fst (cache_get now key c) = (case map_of (cache_map c) key of
           Some e \<Rightarrow> if now < expireTime e then entry_value e else [] | None \<Rightarrow> [])"
    by (simp add: cache_get_def split: option.split)
  show "cached (snd (cache_get now key c)) = (case map_of (cache_map c) key of
           Some e \<Rightarrow> if now < expireTime e then cached c else (cached c)(key := None)
         | None \<Rightarrow> cached c)"
  proof (cases "map_of (cache_map c) key")
    case None
    then show ?thesis by (simp add: cache_get_def)
  next
    case (Some e)
    have "cached (c\<lparr>lru_list := l, fresh_node := n, cache_map := ?m (cache_map c)\<rparr>) = cached c" for l n
      by (simp add: cached_def fun_eq_iff look)
    with Some w(3) show ?thesis by (simp add: cache_get_def without_def)
  qed
  show "keys_by_use (snd (cache_get now key c)) = (case map_of (cache_map c) key of
           Some e \<Rightarrow> (if now < expireTime e then [key] else []) @ filter (\<lambda>k. k \<noteq> key) (keys_by_use c)
         | None \<Rightarrow> keys_by_use c)"
    using w(4) by (auto simp: cache_get_def without_def keys_by_use_def split: option.splits)
  show "cache_inv (snd (cache_get now key c))"
  proof (cases "map_of (cache_map c) key")
    case None
    with inv show ?thesis by (simp add: cache_get_def)
  next
    case (Some e)
    show ?thesis
    proof (cases "now < expireTime e")
      case False
      with Some cache_inv_drop [OF inv Some] show ?thesis by (simp add: cache_get_def)
    next
      case True
      have mem: "(key, e) \<in> set (cache_map c)" using Some by (rule map_of_SomeD)
      have uniq: "distinct (map fst (cache_map c))" using inv by (simp add: cache_inv_def)
      have img: "insert (fresh_node c, key) {n \<in> set (lru_list c). fst n \<noteq> lruIterator e}
          = (\<lambda>(k, e). (lruIterator e, k)) ` set (?m (cache_map c))"
      proof -
        let ?f = "\<lambda>(k, e). (lruIterator e, k)"
        let ?g = "\<lambda>(k, e). (if k = key then fresh_node c else lruIterator e, k)"
        have S: "set (cache_map c) = insert (key, e) {kv \<in> set (cache_map c). fst kv \<noteq> key}"
        proof (rule set_eqI)
          fix kv show "kv \<in> set (cache_map c) \<longleftrightarrow>
              kv \<in> insert (key, e) {kv \<in> set (cache_map c). fst kv \<noteq> key}"
            using mem eq_key_imp_eq_value [OF uniq, of key "snd kv" e] by (cases kv) auto
        qed
        have "?f ` set (?m (cache_map c)) = (\<lambda>kv. ?f ((\<lambda>(k, v). (k, if k = key
            then v\<lparr>lruIterator := fresh_node c\<rparr> else v)) kv)) ` set (cache_map c)"
          by (simp only: set_map image_image)
        also have "\<dots> = ?g ` set (cache_map c)"
          by (rule image_cong [OF refl]) auto
        also have "\<dots> = ?g ` insert (key, e) {kv \<in> set (cache_map c). fst kv \<noteq> key}"
          by (rule arg_cong [OF S])
        also have "\<dots> = insert (fresh_node c, key) (?g ` {kv \<in> set (cache_map c). fst kv \<noteq> key})"
          by (simp add: image_insert)
        also have "?g ` {kv \<in> set (cache_map c). fst kv \<noteq> key}
            = ?f ` {kv \<in> set (cache_map c). fst kv \<noteq> key}"
          by (rule image_cong) auto
        finally show ?thesis unfolding lru_after_erase [OF inv mem] by simp
      qed
      have "\<forall>n \<in> set (lru_list c). fst n < fresh_node c" using inv by (simp add: cache_inv_def)
      then have "fresh_node c \<notin> fst ` set (lru_list c)" by auto
      then have new: "fresh_node c \<notin> fst ` set (lru_erase (lruIterator e) (lru_list c))" by auto
      have "\<forall>n \<in> set (lru_list c). fst n < fresh_node c" using inv by (simp add: cache_inv_def)
      then have bound: "\<forall>n \<in> set ((fresh_node c, key) # lru_erase (lruIterator e) (lru_list c)).
          fst n < fresh_node c + 1" by auto
      define d where "d = c\<lparr>lru_list := (fresh_node c, key) # lru_erase (lruIterator e) (lru_list c),
        fresh_node := fresh_node c + 1, cache_map := ?m (cache_map c)\<rparr>"
      have d: "cache_map d = ?m (cache_map c)" "fresh_node d = fresh_node c + 1"
        "lru_list d = (fresh_node c, key) # lru_erase (lruIterator e) (lru_list c)"
        "currentSize d = currentSize c" "maxSize d = maxSize c"
        by (simp_all add: d_def)
      have "distinct (map fst (cache_map d))" using uniq by (simp only: d fst_m)
      moreover have "distinct (map fst (lru_list c))" using inv by (simp add: cache_inv_def)
      then have "distinct (map fst (lru_list d))" using new by (simp add: d_def)
      moreover have "set (lru_list d) = (\<lambda>(k, e). (lruIterator e, k)) ` set (cache_map d)"
        using img by (simp only: d list.set set_lru_erase)
      moreover have "\<forall>n \<in> set (lru_list d). fst n < fresh_node d"
        using bound by (simp only: d)
      moreover have "currentSize c = of_nat (total (cache_map c)) \<and>
          total (cache_map c) \<le> unat (maxSize c) \<and> maxSize c < 2 ^ 63"
        using inv by (simp add: cache_inv_def)
      then have "currentSize d = of_nat (total (cache_map d)) \<and>
          total (cache_map d) \<le> unat (maxSize d) \<and> maxSize d < 2 ^ 63"
        by (simp only: d tot)
      ultimately have "cache_inv d" unfolding cache_inv_def by blast
      moreover have "snd (cache_get now key c) = d"
        using True Some by (simp add: cache_get_def d_def)
      ultimately show ?thesis by simp
    qed
  qed
qed

text \<open>The cleaner removes exactly the expired entries.\<close>

lemma clean_spec:
  assumes "cache_inv c" and "distinct (map fst xs)" and "set xs \<subseteq> set (cache_map c)"
  shows "cache_inv (clean now xs c) \<and>
    (\<forall>k. map_of (cache_map (clean now xs c)) k =
       (case map_of xs k of Some e \<Rightarrow> if now < expireTime e then Some e else None
                          | None \<Rightarrow> map_of (cache_map c) k)) \<and>
    stopCleaner (clean now xs c) = stopCleaner c"
  using assms
proof (induction now xs c rule: clean.induct)
  case (1 now c)
  then show ?case by simp
next
  case (2 now key e rest c)
  have uniq: "distinct (map fst (cache_map c))" using "2.prems"(1) by (simp add: cache_inv_def)
  have e: "map_of (cache_map c) key = Some e" using "2.prems"(3) uniq by simp
  let ?c1 = "if now \<ge> expireTime e then drop_entry key e c else c"
  have "cache_inv ?c1" using "2.prems"(1) cache_inv_drop [OF _ e] by simp
  moreover have "set rest \<subseteq> set (cache_map ?c1)" using "2.prems"(2,3) by force
  ultimately have IH: "cache_inv (clean now rest ?c1)"
    "\<And>k. map_of (cache_map (clean now rest ?c1)) k =
       (case map_of rest k of Some e \<Rightarrow> if now < expireTime e then Some e else None
                          | None \<Rightarrow> map_of (cache_map ?c1) k)"
    "stopCleaner (clean now rest ?c1) = stopCleaner ?c1"
    using "2.IH" "2.prems"(2) by auto
  have "map_of rest key = None" using "2.prems"(2) by (simp add: map_of_eq_None_iff)
  with IH e show ?case by (auto simp: map_of_erase split: option.split)
qed

end
