(* ===== verification/Cache_Contract.thy ===== *)
theory Cache_Contract
  imports Cache
begin

text \<open>
  The properties of the cache, and the contract a user of a cache relies on: what comes out was put
  in and not replaced, and asking for it never goes wrong.  The contract is a locale, proved once for
  its users and interpreted on the model of \<open>cache.cpp\<close>.
\<close>

section \<open>Properties\<close>

text \<open>C14: Setting a value (whatever its size) ends, and setting, getting and the cleaner keep the
  cache consistent: map and list have the same keys, each entry's iterator points to the node of its
  key, the running size is the sum of the entries' sizes, and it does not exceed the limit.\<close>

theorem cache_operations_keep_invariant:
  assumes "cache_inv c" and "fits key val"
  shows "(\<exists>d. cache_set now key val ttl c = Some d \<and> cache_inv d) \<and>
    cache_inv (snd (cache_get now key c)) \<and>
    (case cleaner now c of None \<Rightarrow> True | Some d \<Rightarrow> cache_inv d)"
proof -
  have "\<exists>d. cache_set now key val ttl c = Some d \<and> cache_inv d"
  proof (cases "list_size key val \<le> unat (maxSize c)")
    case True
    with cache_set_spec [OF assms] show ?thesis by blast
  next
    case False
    with cache_set_large [OF _ assms(2)] without_facts(1) [OF assms(1)] show ?thesis by blast
  qed
  moreover have "distinct (map fst (cache_map c))" using assms(1) by (simp add: cache_inv_def)
  with clean_spec [OF assms(1)] have "cache_inv (clean now (cache_map c) c)" by blast
  ultimately show ?thesis
    using cache_get_spec(1) [OF assms(1)] by (simp add: cleaner_def)
qed

text \<open>A value that fits the limit can be read back unchanged until its time to live (the default
  when none is given) is over; from then on the key reads as missing.\<close>

lemma cache_get_after_set:
  assumes "cache_inv c" and "fits key val" and "list_size key val \<le> unat (maxSize c)"
    and "cache_set now key val ttl c = Some d"
  defines "life \<equiv> (if ttl > 0 then ttl else defaultTTL c)"
  shows "fst (cache_get later key d) = (if later < now + life then val else [])"
proof -
  from cache_set_spec [OF assms(1-3), of now ttl] assms(4) have
    inv: "cache_inv d" and cont: "cached d key = Some val"
    and ex: "map_option expireTime (map_of (cache_map d) key) = Some (now + life)"
    by (auto simp: life_def)
  from ex cont obtain e where "map_of (cache_map d) key = Some e" "expireTime e = now + life"
    "entry_value e = val"
    by (auto simp: cached_def)
  then show ?thesis by (simp add: cache_get_spec(2) [OF inv])
qed

text \<open>C15: Setting a value evicts in the order of last use: the keys kept are the most recently used
  ones, with their values unchanged, the new key comes first, and no more are evicted than needed:
  with one key more the entries would exceed the limit.\<close>

theorem cache_set_evicts_lru:
  assumes "cache_inv c" and "fits key val" and "list_size key val \<le> unat (maxSize c)"
  shows "\<exists>d n. cache_set now key val ttl c = Some d \<and>
    keys_by_use d = key # take n (filter (\<lambda>k. k \<noteq> key) (keys_by_use c)) \<and>
    (\<forall>k \<in> set (keys_by_use d). cached d k = (if k = key then Some val else cached c k)) \<and>
    (n < length (filter (\<lambda>k. k \<noteq> key) (keys_by_use c)) \<longrightarrow>
       unat (maxSize c) < total (filter (\<lambda>kv. fst kv \<noteq> key \<and>
          fst kv \<in> set (take (Suc n) (filter (\<lambda>k. k \<noteq> key) (keys_by_use c)))) (cache_map c))
          + list_size key val)"
proof -
  from cache_set_spec [OF assms, of now ttl] obtain d n where
    "cache_set now key val ttl c = Some d"
    "keys_by_use d = key # take n (filter (\<lambda>k. k \<noteq> key) (keys_by_use c))"
    "\<forall>k. cached d k = (if k = key then Some val
                     else if k \<in> set (keys_by_use d) then cached c k else None)"
    "n < length (filter (\<lambda>k. k \<noteq> key) (keys_by_use c)) \<longrightarrow>
       unat (maxSize c) < total (filter (\<lambda>kv. fst kv \<noteq> key \<and>
          fst kv \<in> set (take (Suc n) (filter (\<lambda>k. k \<noteq> key) (keys_by_use c)))) (cache_map c))
          + list_size key val" by blast
  then show ?thesis by (intro exI [of _ d] exI [of _ n] conjI) (assumption | simp)+
qed

text \<open>Reading a live entry makes its key the most recently used one and changes no value; reading
  an expired entry removes it; one turn of the cleaner removes exactly the expired entries.\<close>

lemma cache_reads_and_expiry:
  assumes "cache_inv c"
  shows "(\<forall>e. map_of (cache_map c) key = Some e \<and> now < expireTime e \<longrightarrow>
      fst (cache_get now key c) = entry_value e \<and> cached (snd (cache_get now key c)) = cached c \<and>
      keys_by_use (snd (cache_get now key c)) = key # filter (\<lambda>k. k \<noteq> key) (keys_by_use c)) \<and>
    (\<forall>e. map_of (cache_map c) key = Some e \<and> \<not> now < expireTime e \<longrightarrow>
      fst (cache_get now key c) = [] \<and> cached (snd (cache_get now key c)) = (cached c)(key := None)) \<and>
    (\<forall>d. cleaner now c = Some d \<longrightarrow>
      (\<forall>k. map_of (cache_map d) k = (case map_of (cache_map c) k of
             Some e \<Rightarrow> if now < expireTime e then Some e else None | None \<Rightarrow> None)))"
proof -
  have "distinct (map fst (cache_map c))" using assms by (simp add: cache_inv_def)
  from clean_spec [OF assms this subset_refl, of now] have
    "map_of (cache_map (clean now (cache_map c) c)) k = (case map_of (cache_map c) k of
             Some e \<Rightarrow> if now < expireTime e then Some e else None | None \<Rightarrow> None)" for k
    by (simp split: option.split)
  then have "cleaner now c = Some d \<Longrightarrow> map_of (cache_map d) k = (case map_of (cache_map c) k of
             Some e \<Rightarrow> if now < expireTime e then Some e else None | None \<Rightarrow> None)" for d k
    by (simp add: cleaner_def split: if_splits)
  moreover note cache_get_spec(2-4) [OF assms, of now key]
  ultimately show ?thesis by simp
qed

section \<open>The contract\<close>

locale lossy_cache =
  fixes look :: "int \<Rightarrow> string \<Rightarrow> 's \<Rightarrow> string list \<times> 's"
    and store :: "int \<Rightarrow> string \<Rightarrow> string list \<Rightarrow> int \<Rightarrow> 's \<Rightarrow> 's option"
    and holds :: "'s \<Rightarrow> string \<rightharpoonup> string list"
    and ok :: "'s \<Rightarrow> bool"
    and small :: "string \<Rightarrow> string list \<Rightarrow> bool"
  assumes look_ok: "ok c \<Longrightarrow> ok (snd (look now k c))"
    and look_value: "ok c \<Longrightarrow> fst (look now k c) = [] \<or> holds c k = Some (fst (look now k c))"
    and look_holds: "ok c \<Longrightarrow> holds (snd (look now k c)) \<subseteq>\<^sub>m holds c"
    and store_ok: "ok c \<Longrightarrow> small k v \<Longrightarrow>
      \<exists>d. store now k v ttl c = Some d \<and> ok d \<and> holds d \<subseteq>\<^sub>m (holds c)(k \<mapsto> v)"
begin

text \<open>Every value the cache holds satisfies what was known of it when it was stored.\<close>

definition explained :: "(string \<Rightarrow> string list \<Rightarrow> bool) \<Rightarrow> 's \<Rightarrow> bool" where
  "explained P c \<longleftrightarrow> ok c \<and> (\<forall>k v. holds c k = Some v \<longrightarrow> P k v)"

lemma explained_look:
  "explained P c \<Longrightarrow> explained P (snd (look now k c)) \<and>
     (fst (look now k c) = [] \<or> P k (fst (look now k c)))"
  using look_ok [of c now k] look_value [of c now k] look_holds [of c now k]
  unfolding explained_def by (auto simp: map_le_def dom_def)

lemma explained_store:
  assumes "explained P c" and "P k v" and "small k v"
  obtains d where "store now k v ttl c = Some d" and "explained P d"
proof -
  from assms(1) have "ok c" by (simp add: explained_def)
  from store_ok [OF this assms(3), of now ttl] obtain d where
    d: "store now k v ttl c = Some d" "ok d" "holds d \<subseteq>\<^sub>m (holds c)(k \<mapsto> v)" by blast
  have "P k' v'" if "holds d k' = Some v'" for k' v'
  proof -
    from d(3) that have "((holds c)(k \<mapsto> v)) k' = Some v'" by (auto simp: map_le_def dom_def)
    with assms(1,2) show ?thesis by (auto simp: explained_def split: if_splits)
  qed
  with d that show ?thesis by (simp add: explained_def)
qed

end

interpretation lru: lossy_cache cache_get cache_set cached cache_inv fits
proof unfold_locales
  fix c now k assume inv: "cache_inv c"
  show "cache_inv (snd (cache_get now k c))" by (rule cache_get_spec(1) [OF inv])
  show "fst (cache_get now k c) = [] \<or> cached c k = Some (fst (cache_get now k c))"
    using cache_get_spec(2) [OF inv, of now k] by (auto simp: cached_def split: option.splits)
  show "cached (snd (cache_get now k c)) \<subseteq>\<^sub>m cached c"
    using cache_get_spec(3) [OF inv, of now k] by (auto simp: map_le_def split: option.splits if_splits)
next
  fix c k v now ttl assume inv: "cache_inv c" and f: "fits k v"
  show "\<exists>d. cache_set now k v ttl c = Some d \<and> cache_inv d \<and> cached d \<subseteq>\<^sub>m (cached c)(k \<mapsto> v)"
  proof (cases "list_size k v \<le> unat (maxSize c)")
    case True
    from cache_set_spec [OF inv f True, of now ttl] obtain d where
      "cache_set now k v ttl c = Some d" "cache_inv d"
      "\<forall>j. cached d j = (if j = k then Some v else if j \<in> set (keys_by_use d) then cached c j else None)"
      by blast
    then show ?thesis by (intro exI [of _ d]) (auto simp: map_le_def split: if_splits)
  next
    case False
    with cache_set_large [OF _ f] without_facts [OF inv, of k] show ?thesis
      by (auto simp: map_le_def split: if_splits)
  qed
qed

text \<open>
  A cache with expiry also promises that a value that has not expired is found, again and again, and
  that a value that fits is held until its life is over.
\<close>

locale timed_cache = lossy_cache look store holds ok small
  for look :: "int \<Rightarrow> string \<Rightarrow> 's \<Rightarrow> string list \<times> 's"
    and store :: "int \<Rightarrow> string \<Rightarrow> string list \<Rightarrow> int \<Rightarrow> 's \<Rightarrow> 's option"
    and holds :: "'s \<Rightarrow> string \<rightharpoonup> string list"
    and ok :: "'s \<Rightarrow> bool"
    and small :: "string \<Rightarrow> string list \<Rightarrow> bool" +
  fixes expiry :: "'s \<Rightarrow> string \<Rightarrow> int option"
    and room :: "'s \<Rightarrow> string \<Rightarrow> string list \<Rightarrow> bool"
    and life :: "'s \<Rightarrow> int \<Rightarrow> int"
  assumes look_fresh: "ok c \<Longrightarrow> holds c k = Some v \<Longrightarrow> expiry c k = Some e \<Longrightarrow> now < e \<Longrightarrow>
      fst (look now k c) = v \<and> holds (snd (look now k c)) = holds c \<and>
      expiry (snd (look now k c)) = expiry c"
    and store_fresh: "ok c \<Longrightarrow> small k v \<Longrightarrow> room c k v \<Longrightarrow> store now k v ttl c = Some d \<Longrightarrow>
      holds d k = Some v \<and> expiry d k = Some (now + life c ttl)"
begin

definition alive :: "int \<Rightarrow> string \<Rightarrow> string list \<Rightarrow> 's \<Rightarrow> bool" where
  "alive now k v c \<longleftrightarrow> ok c \<and> holds c k = Some v \<and> (\<exists>e. expiry c k = Some e \<and> now < e)"

lemma alive_look:
  assumes "alive now k v c"
  shows "fst (look now k c) = v" and "alive now k v (snd (look now k c))"
  using assms look_fresh [of c k v _ now] look_ok [of c now k] by (auto simp: alive_def)

lemma alive_look_later:
  assumes "alive now k v c" and "alive later k v c" shows "alive later k v (snd (look now k c))"
  using assms look_fresh [of c k v _ now] look_ok [of c now k] by (auto simp: alive_def)

lemma alive_store:
  assumes "ok c" and "small k v" and "room c k v" and "later < now + life c ttl"
  obtains d where "store now k v ttl c = Some d" and "alive later k v d"
  using assms store_ok [OF assms(1,2), of now ttl] store_fresh [OF assms(1-3)]
  by (auto simp: alive_def)

end

definition expiry :: "cache \<Rightarrow> string \<Rightarrow> int option" where
  "expiry c k = map_option expireTime (map_of (cache_map c) k)"

lemma expiry_cache_get:
  assumes "map_of (cache_map c) k = Some e" and "now < expireTime e"
  shows "expiry (snd (cache_get now k c)) = expiry c"
proof
  fix j
  have "map_option expireTime (map_of (map (\<lambda>(k', v). (k', if k' = k then v\<lparr>lruIterator := n\<rparr> else v)) xs) j)
      = map_option expireTime (map_of xs j)" for n xs by (induction xs) auto
  with assms show "expiry (snd (cache_get now k c)) j = expiry c j"
    by (simp add: expiry_def cache_get_def)
qed

interpretation lru_timed: timed_cache cache_get cache_set cached cache_inv fits expiry
  "\<lambda>c k v. list_size k v \<le> unat (maxSize c)" "\<lambda>c ttl. if ttl > 0 then ttl else defaultTTL c"
proof unfold_locales
  fix c k v e now assume inv: "cache_inv c" and h: "cached c k = Some v" "expiry c k = Some e" "now < e"
  then obtain x where x: "map_of (cache_map c) k = Some x" "entry_value x = v" "now < expireTime x"
    by (auto simp: cached_def expiry_def)
  from x cache_get_spec(2,3) [OF inv, of now k] expiry_cache_get [OF x(1,3)]
  show "fst (cache_get now k c) = v \<and> cached (snd (cache_get now k c)) = cached c \<and>
      expiry (snd (cache_get now k c)) = expiry c" by simp
next
  fix c k v now ttl d
  assume "cache_inv c" "fits k v" "list_size k v \<le> unat (maxSize c)" "cache_set now k v ttl c = Some d"
  with cache_set_spec [of c k v now ttl]
  show "cached d k = Some v \<and> expiry d k = Some (now + (if ttl > 0 then ttl else defaultTTL c))"
    by (auto simp: expiry_def)
qed

section \<open>Witnesses\<close>

lemma new_cache_inv: "mx < 2 ^ 63 \<Longrightarrow> cache_inv (new_cache ttl mx)"
  by (simp add: cache_inv_def new_cache_def)

definition demo_cache :: cache where
  "demo_cache = \<lparr>cache_map = [(''a'', \<lparr>entry_value = [''12''], expireTime = 5, lruIterator = 0\<rparr>),
                              (''b'', \<lparr>entry_value = [''3''], expireTime = 9, lruIterator = 1\<rparr>)],
     lru_list = [(1, ''b''), (0, ''a'')], fresh_node = 2, defaultTTL = 4, maxSize = 6, currentSize = 5,
     stopCleaner = False\<rparr>"

lemma demo_cache_inv: "cache_inv demo_cache"
  by (auto simp: cache_inv_def demo_cache_def list_size_def)

lemma demo_fits: "fits ''c'' [''7'']"
  by (simp add: fits_def list_size_def)

theorem cache_operations_keep_invariant_witness:
  "\<exists>d. cache_set 1 ''c'' [''7''] 0 demo_cache = Some d \<and> cache_inv d"
  using cache_operations_keep_invariant [OF demo_cache_inv demo_fits] by blast

lemma cache_get_after_set_witness:
  "\<exists>d. cache_set 1 ''c'' [''7''] 0 demo_cache = Some d \<and> fst (cache_get 4 ''c'' d) = [''7''] \<and>
       fst (cache_get 5 ''c'' d) = []"
proof -
  have small: "list_size ''c'' [''7''] \<le> unat (maxSize demo_cache)"
    by (simp add: list_size_def demo_cache_def)
  obtain d where d: "cache_set 1 ''c'' [''7''] 0 demo_cache = Some d"
    using cache_set_spec [OF demo_cache_inv demo_fits small] by blast
  have "defaultTTL demo_cache = 4" by (simp add: demo_cache_def)
  with cache_get_after_set [OF demo_cache_inv demo_fits small d] d show ?thesis by auto
qed

theorem cache_set_evicts_lru_witness:
  "\<exists>d n. cache_set 1 ''c'' [''7''] 0 demo_cache = Some d \<and>
     keys_by_use d = ''c'' # take n [''b'', ''a'']"
proof -
  have small: "list_size ''c'' [''7''] \<le> unat (maxSize demo_cache)"
    by (simp add: list_size_def demo_cache_def)
  have "filter (\<lambda>k. k \<noteq> ''c'') (keys_by_use demo_cache) = [''b'', ''a'']"
    by (simp add: keys_by_use_def demo_cache_def)
  with cache_set_evicts_lru [OF demo_cache_inv demo_fits small] show ?thesis by metis
qed

lemma cache_reads_and_expiry_witness:
  "fst (cache_get 4 ''a'' demo_cache) = [''12''] \<and> fst (cache_get 5 ''a'' demo_cache) = []"
  using cache_reads_and_expiry [OF demo_cache_inv, of "''a''" 4]
    cache_reads_and_expiry [OF demo_cache_inv, of "''a''" 5]
  by (simp add: demo_cache_def)

end
