(* ===== verification/Filesystem.thy ===== *)
theory Filesystem
  imports Cxx_Strings Prelude "HOL-Library.Finite_Map" "HOL-Library.List_Lexorder" "HOL-Library.Char_ord"
begin

text \<open>
  The file system as the client uses it through \<open>std::filesystem\<close> and the file streams: a
  finite map from paths to directories and files.  A path names its entry by its components, so that
  repeated and trailing separators do not matter; links, permissions and the components
  \<open>.\<close> and \<open>..\<close> are not interpreted, and writing never runs out of space.
\<close>

datatype fnode = Dir | File string

type_synonym fpath = "bool \<times> string list"

type_synonym filesystem = "(fpath, fnode) fmap"

fun split_path :: "string \<Rightarrow> string list" where
  "split_path [] = [[]]"
| "split_path (c # cs) =
     (if c = CHR ''/'' then [] # split_path cs
      else (case split_path cs of [] \<Rightarrow> [[c]] | w # ws \<Rightarrow> (c # w) # ws))"

definition fpath_of :: "string \<Rightarrow> fpath" where
  "fpath_of s = (s \<noteq> [] \<and> hd s = CHR ''/'', filter (\<lambda>w. w \<noteq> []) (split_path s))"

text \<open>The root and the working directory always exist; the empty path names nothing.\<close>

definition node_at :: "filesystem \<Rightarrow> fpath \<Rightarrow> fnode option" where
  "node_at f p = (if snd p = [] then Some Dir else fmlookup f p)"

definition fs_exists :: "filesystem \<Rightarrow> string \<Rightarrow> bool" where
  "fs_exists f p \<longleftrightarrow> p \<noteq> [] \<and> node_at f (fpath_of p) \<noteq> None"

definition fs_is_directory :: "filesystem \<Rightarrow> string \<Rightarrow> bool" where
  "fs_is_directory f p \<longleftrightarrow> p \<noteq> [] \<and> node_at f (fpath_of p) = Some Dir"

text \<open>
  \<open>create_directories\<close>: from the outermost directory inwards; a component that is a file is
  an error, and what has been created by then stays.
\<close>

fun make_dirs :: "filesystem \<Rightarrow> bool \<Rightarrow> string list \<Rightarrow> string list \<Rightarrow> bool \<times> filesystem" where
  "make_dirs f a pre [] = (True, f)"
| "make_dirs f a pre (w # ws) =
     (let p = (a, pre @ [w]) in
      case node_at f p of
        None \<Rightarrow> make_dirs (fmupd p Dir f) a (pre @ [w]) ws
      | Some Dir \<Rightarrow> make_dirs f a (pre @ [w]) ws
      | Some (File _) \<Rightarrow> (False, f))"

definition create_directories :: "filesystem \<Rightarrow> string \<Rightarrow> bool \<times> filesystem" where
  "create_directories f p =
     (if p = [] then (False, f) else make_dirs f (fst (fpath_of p)) [] (snd (fpath_of p)))"

text \<open>A file opens for writing in an existing directory, unless it is a directory itself.\<close>

definition parent_fpath :: "fpath \<Rightarrow> fpath" where
  "parent_fpath p = (fst p, butlast (snd p))"

definition write_file :: "filesystem \<Rightarrow> string \<Rightarrow> string \<Rightarrow> filesystem option" where
  "write_file f p content =
     (let q = fpath_of p in
      if node_at f q \<noteq> Some Dir \<and> node_at f (parent_fpath q) = Some Dir
      then Some (fmupd q (File content) f) else None)"

text \<open>Reading a directory through a stream gives no characters, as for a missing file.\<close>

definition read_file :: "filesystem \<Rightarrow> string \<Rightarrow> string option" where
  "read_file f p = (case node_at f (fpath_of p) of Some (File c) \<Rightarrow> Some c | _ \<Rightarrow> None)"

definition below :: "fpath \<Rightarrow> fpath \<Rightarrow> bool" where
  "below p q \<longleftrightarrow> fst q = fst p \<and> prefix (snd p) (snd q)"

definition remove_all :: "filesystem \<Rightarrow> string \<Rightarrow> filesystem" where
  "remove_all f p = fmfilter (\<lambda>q. \<not> below (fpath_of p) q) f"

definition remove_file :: "filesystem \<Rightarrow> string \<Rightarrow> filesystem" where
  "remove_file f p = fmdrop (fpath_of p) f"

text \<open>
  \<open>directory_iterator\<close>: the names in a directory, in an order the system chooses (a
  parameter), each with the kind of its entry.
\<close>

definition child_names :: "filesystem \<Rightarrow> string \<Rightarrow> string list" where
  "child_names f p =
     (let q = fpath_of p in
      sorted_list_of_fset ((\<lambda>r. last (snd r)) |`|
        ffilter (\<lambda>r. snd r \<noteq> [] \<and> fst r = fst q \<and> butlast (snd r) = snd q) (fmdom f)))"

text \<open>Every entry is in a directory that exists.\<close>

definition fs_ok :: "filesystem \<Rightarrow> bool" where
  "fs_ok f \<longleftrightarrow>
     (\<forall>p \<in> fset (fmdom f). node_at f (parent_fpath p) = Some Dir)"

section \<open>Lemmas\<close>

lemma split_path_nonempty [simp]: "split_path s \<noteq> []"
  by (induction s) (auto split: list.split)

lemma split_path_append:
  "split_path (xs @ CHR ''/'' # ys) = split_path xs @ split_path ys"
  by (induction xs) (auto split: list.split)

lemma fpath_of_trailing: "fpath_of (p @ ''/'') = (if p = [] then (True, []) else fpath_of p)"
  using split_path_append [of p "[]"] by (auto simp: fpath_of_def)

lemma fpath_of_snoc:
  assumes "CHR ''/'' \<notin> set name" and "name \<noteq> []"
  shows "snd (fpath_of (p @ CHR ''/'' # name)) = snd (fpath_of p) @ [name]"
proof -
  have "split_path name = [name]"
    using assms(1) by (induction name) (auto split: list.split)
  with assms(2) show ?thesis by (simp add: fpath_of_def split_path_append)
qed

lemma read_after_write:
  "write_file f p c = Some g \<Longrightarrow> read_file g p = Some c"
  by (auto simp: write_file_def read_file_def node_at_def Let_def split: if_splits)

lemma read_other_after_write:
  "write_file f p c = Some g \<Longrightarrow> fpath_of q \<noteq> fpath_of p \<Longrightarrow> read_file g q = read_file f q"
  by (auto simp: write_file_def read_file_def node_at_def Let_def split: if_splits)

lemma read_removed: "below (fpath_of p) (fpath_of q) \<Longrightarrow> snd (fpath_of q) \<noteq> [] \<Longrightarrow>
   \<not> fs_exists (remove_all f p) q"
  by (simp add: remove_all_def fs_exists_def node_at_def)

lemma make_dirs_keeps:
  "make_dirs f a ds ws = (b, g) \<Longrightarrow> node_at f p \<noteq> None \<Longrightarrow> node_at g p = node_at f p"
proof (induction f a ds ws arbitrary: b g rule: make_dirs.induct)
  case (2 f a ds w ws)
  show ?case
  proof (cases "node_at f (a, ds @ [w])")
    case None
    with 2(4) have ne: "p \<noteq> (a, ds @ [w])" by auto
    with 2(4) have same: "node_at (fmupd (a, ds @ [w]) Dir f) p = node_at f p"
      by (simp add: node_at_def)
    with 2(1) [OF refl None] 2(3,4) None show ?thesis by simp
  next
    case (Some n)
    with 2(2) [OF refl Some] 2(3,4) show ?thesis by (cases n) auto
  qed
qed simp

lemma make_dirs_creates:
  "make_dirs f a ds ws = (True, g) \<Longrightarrow> ds @ ws \<noteq> [] \<Longrightarrow> node_at f (a, ds) = Some Dir \<Longrightarrow>
     node_at g (a, ds @ ws) = Some Dir"
proof (induction f a ds ws arbitrary: g rule: make_dirs.induct)
  case (2 f a ds w ws)
  show ?case
  proof (cases "node_at f (a, ds @ [w])")
    case None
    have "node_at (fmupd (a, ds @ [w]) Dir f) (a, ds @ [w]) = Some Dir" by (simp add: node_at_def)
    with 2(1) [OF refl None] 2(3) None show ?thesis by simp
  next
    case (Some n)
    with 2(2) [OF refl Some] 2(3) show ?thesis by (cases n) auto
  qed
qed (simp add: make_dirs.simps)

text \<open>Nothing but missing directories on the way is created.\<close>

lemma create_directories_spec:
  assumes "create_directories f p = (True, g)"
  shows "fs_is_directory g p" and "node_at f q \<noteq> None \<Longrightarrow> node_at g q = node_at f q"
proof -
  obtain a ws where ws: "fpath_of p = (a, ws)" by (cases "fpath_of p")
  with assms have run: "make_dirs f a [] ws = (True, g)" and "p \<noteq> []"
    by (auto simp: create_directories_def split: if_splits)
  show "fs_is_directory g p"
  proof (cases ws)
    case Nil
    with ws \<open>p \<noteq> []\<close> show ?thesis by (simp add: fs_is_directory_def node_at_def)
  next
    case (Cons w vs)
    with make_dirs_creates [OF run] ws \<open>p \<noteq> []\<close> show ?thesis by (simp add: fs_is_directory_def node_at_def)
  qed
  show "node_at f q \<noteq> None \<Longrightarrow> node_at g q = node_at f q" using make_dirs_keeps [OF run] .
qed

lemma make_dirs_reads:
  "make_dirs f a ds ws = (b, g) \<Longrightarrow>
     (case node_at g p of Some (File c) \<Rightarrow> Some c | _ \<Rightarrow> None)
     = (case node_at f p of Some (File c) \<Rightarrow> Some c | _ \<Rightarrow> None)"
proof (induction f a ds ws arbitrary: b g rule: make_dirs.induct)
  case (2 f a ds w ws)
  show ?case
  proof (cases "node_at f (a, ds @ [w])")
    case None
    have "node_at (fmupd (a, ds @ [w]) Dir f) p = (if p = (a, ds @ [w]) then Some Dir else node_at f p)"
      by (auto simp: node_at_def)
    with 2(1) [OF refl None] 2(3) None show ?thesis by (auto split: if_splits)
  next
    case (Some n)
    with 2(2) [OF refl Some] 2(3) show ?thesis by (cases n) auto
  qed
qed simp

lemma create_directories_reads: "create_directories f p = (b, g) \<Longrightarrow> read_file g q = read_file f q"
  using make_dirs_reads [of f _ "[]" _ b g "fpath_of q"]
  by (auto simp: create_directories_def read_file_def split: if_splits)

end
