(* ===== verification/Client_State.thy ===== *)
theory Client_State
  imports Kv_Client Filesystem Cache_Contract Initiation
begin

text \<open>
  The state of the client, with the globals of its modules, the libraries it calls as parameters, and
  its configuration reader \<open>src/CODE/src/client/load_config/load_config.cpp\<close>.
\<close>

section \<open>State and parameters\<close>

text \<open>
  \<open>'d\<close> is the RocksDB database and \<open>'w\<close> the world outside: the network and the desktop.
\<close>

record ('w, 'd) client =
  fs :: filesystem
  db :: "'d option"
  web :: 'w
  cache_instance :: "cache option"
  signup_lb :: "string \<times> nat"
  login_lb :: "string \<times> nat"
  meta_lb :: "string \<times> nat"
  notification_lb :: "string \<times> nat"
  token :: string
  username :: string
  password :: string
  device_id :: string
  g_basePath :: string
  g_user :: string

text \<open>
  \<open>http_post\<close> is a POST of the HTTP library to an address, port and path with headers and a body,
  with the response if one came; \<open>http_get\<close> is a GET through a socket to an address, port and target,
  with the body of the response unless an exception was thrown;
  \<open>steady_now\<close> is the monotonic clock; the \<open>db_\<close> fields are the operations of RocksDB
  (whether the status is ok, and the keys from a position on); \<open>sha256\<close> is the digest;
  \<open>git_merge\<close> is \<open>git_merge_file\<close> with the options the client sets: the error code
  and, unless the result has no text, the text and whether it merged automatically;
  \<open>readdir\<close> is the order in which a directory is listed; \<open>notify_init\<close> and
  \<open>notify_show\<close> are the calls of libnotify (whether it succeeded; whether the notification was
  shown and whether an error was set); \<open>db_open\<close> opens a database.
\<close>

record ('w, 'd) client_ext = "'w net_ext" +
  http_post :: "string \<Rightarrow> nat \<Rightarrow> string \<Rightarrow> (string \<times> string) list \<Rightarrow> string \<Rightarrow> 'w \<Rightarrow>
                (int \<times> string) option \<times> 'w"
  http_get :: "string \<Rightarrow> int \<Rightarrow> string \<Rightarrow> 'w \<Rightarrow> string option \<times> 'w"
  steady_now :: "'w \<Rightarrow> int"
  db_put :: "string \<Rightarrow> string \<Rightarrow> 'd \<Rightarrow> bool \<times> 'd"
  db_get :: "string \<Rightarrow> 'd \<Rightarrow> string option"
  db_delete :: "string \<Rightarrow> 'd \<Rightarrow> bool \<times> 'd"
  db_seek :: "string \<Rightarrow> 'd \<Rightarrow> string list"
  sha256 :: "string \<Rightarrow> nat list"
  git_merge :: "string \<Rightarrow> string \<Rightarrow> string \<Rightarrow> int \<times> (string \<times> bool) option"
  readdir :: "string list \<Rightarrow> string list"
  notify_init :: "'w \<Rightarrow> bool \<times> 'w"
  notify_show :: "string \<Rightarrow> string \<Rightarrow> 'w \<Rightarrow> (bool \<times> bool) \<times> 'w"
  db_open :: "string \<Rightarrow> 'w \<Rightarrow> 'd option \<times> 'w"

type_synonym ('w, 'd, 'a) action = "(('w, 'd) client, 'a) prog"

definition on_web :: "('w, 'a) prog \<Rightarrow> ('w, 'd, 'a) action" where
  "on_web m = zoom web (\<lambda>w s. s\<lparr>web := w\<rparr>) m"

text \<open>
  What RocksDB documents of a database that works: \<open>view\<close> is its content, writes and deletions
  succeed, and a scan visits the keys from the given one on, in order.
\<close>

definition rocks_ok :: "('w, 'd, 'x) client_ext_scheme \<Rightarrow> ('d \<Rightarrow> string \<rightharpoonup> string) \<Rightarrow> bool" where
  "rocks_ok X view \<longleftrightarrow>
     (\<forall>k v d. \<exists>e. db_put X k v d = (True, e) \<and> view e = (view d)(k \<mapsto> v)) \<and>
     (\<forall>k d. db_get X k d = view d k) \<and>
     (\<forall>k d. \<exists>e. db_delete X k d = (True, e) \<and> view e = (view d)(k := None)) \<and>
     (\<forall>k d. sorted (db_seek X k d) \<and> set (db_seek X k d) = {k' \<in> dom (view d). k \<le> k'})"

lemma rocks_okD:
  assumes "rocks_ok X view"
  shows "\<exists>e. db_put X k v d = (True, e) \<and> view e = (view d)(k \<mapsto> v)"
    and "db_get X k d = view d k"
    and "\<exists>e. db_delete X k d = (True, e) \<and> view e = (view d)(k := None)"
    and "sorted (db_seek X k d)" and "set (db_seek X k d) = {k' \<in> dom (view d). k \<le> k'}"
  using assms by (simp_all add: rocks_ok_def)

section \<open>The configuration reader\<close>

definition config_load :: "('w, 'd, 'x) client_ext_scheme \<Rightarrow> string \<Rightarrow> ('w, 'd, json) action" where
  "config_load X filepath =
     bind (gets (\<lambda>s. read_file (fs s) filepath)) (\<lambda>content.
       case content of
         None \<Rightarrow> throw (Runtime_error (''Could not open config file: '' @ filepath))
       | Some text \<Rightarrow>
           (case json_read X text of
              None \<Rightarrow> ret JNull
            | Some j \<Rightarrow> (case json_pretty X j of None \<Rightarrow> throw Json_type_error | Some _ \<Rightarrow> ret j)))"

text \<open>Opening the file empties it; if printing then throws, it stays empty.\<close>

definition config_save ::
  "('w, 'd, 'x) client_ext_scheme \<Rightarrow> string \<Rightarrow> json \<Rightarrow> ('w, 'd, bool) action" where
  "config_save X filepath j =
     bind (gets (\<lambda>s. write_file (fs s) filepath [])) (\<lambda>opened.
       case opened of
         None \<Rightarrow> throw (Runtime_error (''Could not open config file for writing: '' @ filepath))
       | Some f \<Rightarrow>
           seq (modify (\<lambda>s. s\<lparr>fs := f\<rparr>))
             (case json_pretty X j of
                None \<Rightarrow> throw Json_type_error
              | Some text \<Rightarrow>
                  seq (modify (\<lambda>s. case write_file (fs s) filepath text of
                                      None \<Rightarrow> s | Some g \<Rightarrow> s\<lparr>fs := g\<rparr>))
                    (ret True)))"

definition get_config_value :: "string \<Rightarrow> json \<Rightarrow> int" where
  "get_config_value key j =
     (if \<not> contains j key then 0
      else (case subscript j key of Inr (JNum i) \<Rightarrow> wrap_int i | _ \<Rightarrow> 0))"

definition get_config_string :: "string \<Rightarrow> json \<Rightarrow> string" where
  "get_config_string key j =
     (if \<not> contains j key then []
      else (case subscript j key of Inr (JStr v) \<Rightarrow> v | _ \<Rightarrow> []))"

text \<open>The value is read as a 32-bit unsigned integer before its range is checked.\<close>

definition get_config_short :: "string \<Rightarrow> json \<Rightarrow> nat" where
  "get_config_short key j =
     (if \<not> contains j key then 0
      else (case subscript j key of
              Inr (JNum i) \<Rightarrow>
                if i < 0 then 0
                else (let val = nat i mod 2 ^ 32 in if val > 65535 then 0 else val)
            | _ \<Rightarrow> 0))"

text \<open>C18: The configuration getters give the empty string, 0 and 0 when the value read is no object, the key
  is missing or the value under the key has another type (for a port also when it is negative).  A
  string is returned unchanged.  A number is returned unchanged by the integer getter when it fits 32
  bits, and otherwise wraps around to the number of that range that is congruent to it.  A port is
  checked against 65535 only after it was cut to 32 bits: the port returned is the rest modulo
  \<open>2 ^ 32\<close> if that is at most 65535 and 0 otherwise, so a value such as 4294967376 is not
  rejected but read as 80.\<close>

theorem config_getters:
  "(\<not> contains j k \<longrightarrow> get_config_string k j = [] \<and> get_config_value k j = 0 \<and> get_config_short k j = 0) \<and>
   get_config_string k (JObj m) = (case fmlookup m k of Some (JStr v) \<Rightarrow> v | _ \<Rightarrow> []) \<and>
   ((\<forall>i. fmlookup m k \<noteq> Some (JNum i)) \<longrightarrow>
     get_config_value k (JObj m) = 0 \<and> get_config_short k (JObj m) = 0) \<and>
   (fmlookup m k = Some (JNum i) \<longrightarrow>
     (- (2 ^ 31) \<le> i \<and> i < 2 ^ 31 \<longrightarrow> get_config_value k (JObj m) = i) \<and>
     - (2 ^ 31) \<le> get_config_value k (JObj m) \<and> get_config_value k (JObj m) < 2 ^ 31 \<and>
     get_config_value k (JObj m) mod 2 ^ 32 = i mod 2 ^ 32 \<and>
     (i < 0 \<longrightarrow> get_config_short k (JObj m) = 0) \<and>
     (0 \<le> i \<longrightarrow> int (get_config_short k (JObj m)) = (if i mod 2 ^ 32 \<le> 65535 then i mod 2 ^ 32 else 0)))"
proof (intro conjI impI)
  assume "\<not> contains j k"
  then show "get_config_string k j = []" "get_config_value k j = 0" "get_config_short k j = 0"
    by (simp_all add: get_config_string_def get_config_value_def get_config_short_def)
next
  show "get_config_string k (JObj m) = (case fmlookup m k of Some (JStr v) \<Rightarrow> v | _ \<Rightarrow> [])"
    by (auto simp: get_config_string_def subscript_def split: option.split json.split)
next
  assume "\<forall>i. fmlookup m k \<noteq> Some (JNum i)"
  then show "get_config_value k (JObj m) = 0" "get_config_short k (JObj m) = 0"
    by (auto simp: get_config_value_def get_config_short_def subscript_def split: option.split json.split)
next
  assume k: "fmlookup m k = Some (JNum i)"
  show "get_config_value k (JObj m) = i" if "- (2 ^ 31) \<le> i \<and> i < 2 ^ 31"
    using that k by (simp add: get_config_value_def wrap_int_def)
  show "- (2 ^ 31) \<le> get_config_value k (JObj m)" "get_config_value k (JObj m) < 2 ^ 31"
    using k by (simp_all add: get_config_value_def wrap_int_def)
  show "get_config_value k (JObj m) mod 2 ^ 32 = i mod 2 ^ 32"
    using k by (simp add: get_config_value_def wrap_int_def mod_simps)
  show "get_config_short k (JObj m) = 0" if "i < 0"
    using that k by (simp add: get_config_short_def)
  show "int (get_config_short k (JObj m)) = (if i mod 2 ^ 32 \<le> 65535 then i mod 2 ^ 32 else 0)" if "0 \<le> i"
  proof -
    have "int (nat i mod 2 ^ 32) = i mod 2 ^ 32" using that by (simp add: zmod_int)
    with that k show ?thesis by (auto simp: get_config_short_def Let_def)
  qed
qed

theorem config_getters_witness:
  "get_config_short ''port'' (JObj (fmap_of_list [(''port'', JNum 4294967376)])) = 80 \<and>
   get_config_short ''port'' (JObj (fmap_of_list [(''port'', JNum 70000)])) = 0 \<and>
   get_config_value ''port'' (JObj (fmap_of_list [(''port'', JStr ''80'')])) = 0 \<and>
   get_config_value ''port'' (JArr []) = 0"
  using config_getters [of JNull "''port''" "fmap_of_list [(''port'', JNum 4294967376)]" 4294967376]
    config_getters [of JNull "''port''" "fmap_of_list [(''port'', JNum 70000)]" 70000]
    config_getters [of "JArr []" "''port''" "fmap_of_list [(''port'', JStr ''80'')]" 0]
  by (simp add: fmlookup_of_list)

end
