(* ===== verification/Metadata.thy ===== *)
theory Metadata
  imports Client_State
begin

text \<open>
  The client's record of its files and directories in RocksDB,
  \<open>src/CODE/src/client/metadata/metadata.cpp\<close>: documents under their keys, and the listings of
  the directories kept in step with them.
\<close>

record file_meta =
  fileName :: string
  fileSize :: "64 word"
  version :: string
  content_hash :: string
  file_content :: string

record dir_meta =
  files :: "string list"
  directories :: "string list"
  directoryName :: string

definition File_Metadata :: "string \<Rightarrow> file_meta" where
  "File_Metadata name = \<lparr>fileName = name, fileSize = 0, version = ''0'', content_hash = [],
                         file_content = []\<rparr>"

definition Directory_Metadata :: "string \<Rightarrow> dir_meta" where
  "Directory_Metadata name = \<lparr>files = [], directories = [], directoryName = name\<rparr>"

text \<open>\<open>setDatabase\<close> only sets the pointer when there is none.\<close>

definition setDatabase :: "'d \<Rightarrow> ('w, 'd, unit) action" where
  "setDatabase d = modify (\<lambda>s. case db s of None \<Rightarrow> s\<lparr>db := Some d\<rparr> | Some _ \<Rightarrow> s)"

section \<open>Documents\<close>

definition file_json :: "file_meta \<Rightarrow> json" where
  "file_json m = obj [(''fileName'', JStr (fileName m)), (''fileSize'', JNum (uint (fileSize m))),
     (''version'', JStr (version m)), (''content_hash'', JStr (content_hash m)),
     (''file_content'', JStr (file_content m))]"

definition dir_json :: "dir_meta \<Rightarrow> json" where
  "dir_json m = obj [(''directoryName'', JStr (directoryName m)),
     (''files'', JArr (map JStr (files m))), (''directories'', JArr (map JStr (directories m)))]"

text \<open>A member that is present replaces the field; one of the wrong type throws.\<close>

definition member_or :: "json \<Rightarrow> string \<Rightarrow> (json \<Rightarrow> exn + 'a) \<Rightarrow> 'a \<Rightarrow> exn + 'a" where
  "member_or j k conv old =
     (if contains j k then (case subscript j k of Inl e \<Rightarrow> Inl e | Inr v \<Rightarrow> conv v) else Inr old)"

definition get_uint64 :: "('x) codec_scheme \<Rightarrow> json \<Rightarrow> exn + 64 word" where
  "get_uint64 X j = (case get_int X j of Inl e \<Rightarrow> Inl e | Inr i \<Rightarrow> Inr (word_of_int i))"

definition file_of_json :: "('x) codec_scheme \<Rightarrow> file_meta \<Rightarrow> json \<Rightarrow> exn + file_meta" where
  "file_of_json X m j =
     (case member_or j ''fileName'' get_string (fileName m) of Inl e \<Rightarrow> Inl e | Inr a \<Rightarrow>
     (case member_or j ''fileSize'' (get_uint64 X) (fileSize m) of Inl e \<Rightarrow> Inl e | Inr b \<Rightarrow>
     (case member_or j ''version'' get_string (version m) of Inl e \<Rightarrow> Inl e | Inr c \<Rightarrow>
     (case member_or j ''content_hash'' get_string (content_hash m) of Inl e \<Rightarrow> Inl e | Inr d \<Rightarrow>
     (case member_or j ''file_content'' get_string (file_content m) of Inl e \<Rightarrow> Inl e | Inr e \<Rightarrow>
        Inr \<lparr>fileName = a, fileSize = b, version = c, content_hash = d, file_content = e\<rparr>)))))"

definition dir_of_json :: "dir_meta \<Rightarrow> json \<Rightarrow> exn + dir_meta" where
  "dir_of_json m j =
     (case member_or j ''directoryName'' get_string (directoryName m) of Inl e \<Rightarrow> Inl e | Inr a \<Rightarrow>
     (case member_or j ''files'' get_strings (files m) of Inl e \<Rightarrow> Inl e | Inr b \<Rightarrow>
     (case member_or j ''directories'' get_strings (directories m) of Inl e \<Rightarrow> Inl e | Inr c \<Rightarrow>
        Inr \<lparr>files = b, directories = c, directoryName = a\<rparr>)))"

section \<open>Loading and storing\<close>

text \<open>\<open>None\<close> is the result false: no database, or no such key.\<close>

definition db_store ::
  "('w, 'd, 'x) client_ext_scheme \<Rightarrow> string \<Rightarrow> json \<Rightarrow> ('w, 'd, bool) action" where
  "db_store X key j =
     bind (gets db) (\<lambda>h.
       case h of
         None \<Rightarrow> ret False
       | Some d \<Rightarrow>
           bind (lift_exn (dump X j)) (\<lambda>text.
           case db_put X key text d of
             (ok, e) \<Rightarrow> seq (modify (\<lambda>s. s\<lparr>db := Some e\<rparr>)) (ret ok)))"

definition db_load ::
  "('w, 'd, 'x) client_ext_scheme \<Rightarrow> string \<Rightarrow> ('w, 'd, json option) action" where
  "db_load X key =
     bind (gets db) (\<lambda>h.
       case h of
         None \<Rightarrow> ret None
       | Some d \<Rightarrow>
           (case db_get X key d of
              None \<Rightarrow> ret None
            | Some text \<Rightarrow> bind (lift_exn (parse X text)) (\<lambda>j. ret (Some j))))"

definition file_store :: "('w, 'd, 'x) client_ext_scheme \<Rightarrow> file_meta \<Rightarrow> ('w, 'd, bool) action" where
  "file_store X m = db_store X (fileName m) (file_json m)"

definition file_load ::
  "('w, 'd, 'x) client_ext_scheme \<Rightarrow> file_meta \<Rightarrow> ('w, 'd, file_meta option) action" where
  "file_load X m =
     bind (db_load X (fileName m)) (\<lambda>r.
       case r of
         None \<Rightarrow> ret None
       | Some j \<Rightarrow> bind (lift_exn (file_of_json X m j)) (\<lambda>m1. ret (Some m1)))"

definition dir_store :: "('w, 'd, 'x) client_ext_scheme \<Rightarrow> dir_meta \<Rightarrow> ('w, 'd, bool) action" where
  "dir_store X m = db_store X (directoryName m) (dir_json m)"

definition dir_load ::
  "('w, 'd, 'x) client_ext_scheme \<Rightarrow> dir_meta \<Rightarrow> ('w, 'd, dir_meta option) action" where
  "dir_load X m =
     bind (db_load X (directoryName m)) (\<lambda>r.
       case r of
         None \<Rightarrow> ret None
       | Some j \<Rightarrow> bind (lift_exn (dir_of_json m j)) (\<lambda>m1. ret (Some m1)))"

text \<open>
  The scan stops at the first key without the prefix and keeps the keys one level below it; the
  result is an ordered set.
\<close>

definition prefix_scan :: "('w, 'd, 'x) client_ext_scheme \<Rightarrow> string \<Rightarrow> ('w, 'd, string list) action" where
  "prefix_scan X p =
     bind (gets db) (\<lambda>h.
       case h of
         None \<Rightarrow> ret []
       | Some d \<Rightarrow>
           ret (sorted_list_of_set (set
             (filter (\<lambda>key. drop (length p) key \<noteq> [] \<and> CHR ''/'' \<notin> set (drop (length p) key))
                (takeWhile (prefix p) (db_seek X p d))))))"

definition db_remove :: "('w, 'd, 'x) client_ext_scheme \<Rightarrow> string \<Rightarrow> ('w, 'd, bool) action" where
  "db_remove X key =
     bind (gets db) (\<lambda>h.
       case h of
         None \<Rightarrow> ret False
       | Some d \<Rightarrow>
           (case db_delete X key d of
              (ok, e) \<Rightarrow> seq (modify (\<lambda>s. s\<lparr>db := Some e\<rparr>)) (ret ok)))"

definition removeFileFromDatabase ::
  "('w, 'd, 'x) client_ext_scheme \<Rightarrow> string \<Rightarrow> ('w, 'd, bool) action" where
  "removeFileFromDatabase X key = db_remove X key"

text \<open>
  The recursion follows the listings; a directory that lists itself, directly or not, makes it run
  on.  The number bounds the depth of the calls.
\<close>

primrec removeDirectoryFromDatabase ::
  "nat \<Rightarrow> ('w, 'd, 'x) client_ext_scheme \<Rightarrow> string \<Rightarrow> ('w, 'd, bool) action" where
  "removeDirectoryFromDatabase 0 X key = (\<lambda>s. Diverge)"
| "removeDirectoryFromDatabase (Suc n) X key =
     bind (gets db) (\<lambda>h.
     if h = None then ret False
     else
     bind (dir_load X (Directory_Metadata key)) (\<lambda>r.
       case r of
         None \<Rightarrow> ret False
       | Some dm \<Rightarrow>
           seq (for_each (files dm) (\<lambda>f. ignore (removeFileFromDatabase X f))) (
           seq (for_each (directories dm)
                  (\<lambda>d. ignore (removeDirectoryFromDatabase n X d))) (
           db_remove X key))))"

section \<open>Listings\<close>

text \<open>
  The four operations on a parent's listing share their shape: no slash or no parent document is
  false, a change is stored, and nothing to change is true.
\<close>

definition update_parent ::
  "('w, 'd, 'x) client_ext_scheme \<Rightarrow> string \<Rightarrow> (dir_meta \<Rightarrow> dir_meta option) \<Rightarrow> ('w, 'd, bool) action"
where
  "update_parent X key change =
     (case parent_of key of
        None \<Rightarrow> ret False
      | Some dir_key \<Rightarrow>
          bind (dir_load X (Directory_Metadata dir_key)) (\<lambda>r.
            case r of
              None \<Rightarrow> ret False
            | Some dm \<Rightarrow>
                (case change dm of
                   None \<Rightarrow> ret True
                 | Some dm1 \<Rightarrow> dir_store X dm1)))"

definition addFileToDirectory ::
  "('w, 'd, 'x) client_ext_scheme \<Rightarrow> string \<Rightarrow> ('w, 'd, bool) action" where
  "addFileToDirectory X key = update_parent X key (\<lambda>dm.
     if key \<in> set (files dm) then None else Some (dm\<lparr>files := files dm @ [key]\<rparr>))"

definition removeFileFromDirectory ::
  "('w, 'd, 'x) client_ext_scheme \<Rightarrow> string \<Rightarrow> ('w, 'd, bool) action" where
  "removeFileFromDirectory X key = update_parent X key (\<lambda>dm.
     if key \<in> set (files dm) then Some (dm\<lparr>files := removeAll key (files dm)\<rparr>) else None)"

definition addDirectoryToDirectory ::
  "('w, 'd, 'x) client_ext_scheme \<Rightarrow> string \<Rightarrow> ('w, 'd, bool) action" where
  "addDirectoryToDirectory X key = update_parent X key (\<lambda>dm.
     if key \<in> set (directories dm) then None
     else Some (dm\<lparr>directories := directories dm @ [key]\<rparr>))"

definition removeDirectoryFromDirectory ::
  "('w, 'd, 'x) client_ext_scheme \<Rightarrow> string \<Rightarrow> ('w, 'd, bool) action" where
  "removeDirectoryFromDirectory X key = update_parent X key (\<lambda>dm.
     if key \<in> set (directories dm) then Some (dm\<lparr>directories := removeAll key (directories dm)\<rparr>)
     else None)"

section \<open>The record as a map of documents\<close>

text \<open>A client with a database that works, and the documents it holds.\<close>

definition db_ok ::
  "('w, 'd, 'x) client_ext_scheme \<Rightarrow> ('d \<Rightarrow> string \<rightharpoonup> string) \<Rightarrow> ('w, 'd) client \<Rightarrow> bool" where
  "db_ok X view s \<longleftrightarrow> rocks_ok X view \<and> codec_total X \<and> db s \<noteq> None"

definition db_docs ::
  "('w, 'd, 'x) client_ext_scheme \<Rightarrow> ('d \<Rightarrow> string \<rightharpoonup> string) \<Rightarrow> ('w, 'd) client \<Rightarrow> string \<rightharpoonup> json"
where
  "db_docs X view s k = (case db s of None \<Rightarrow> None | Some d \<Rightarrow> Option.bind (view d k) (json_parse X))"

lemma db_ok_db: "db_ok X view s \<Longrightarrow> db_ok X view (s\<lparr>db := Some e\<rparr>)"
  by (simp add: db_ok_def)

lemma db_ok_frame [simp]:
  "db_ok X view (s\<lparr>fs := f\<rparr>) = db_ok X view s" "db_ok X view (s\<lparr>web := w\<rparr>) = db_ok X view s"
  "db_ok X view (s\<lparr>cache_instance := c\<rparr>) = db_ok X view s"
  "db_ok X view (s\<lparr>token := t\<rparr>) = db_ok X view s"
  by (simp_all add: db_ok_def)

lemma db_docs_frame [simp]:
  "db_docs X view (s\<lparr>fs := f\<rparr>) = db_docs X view s" "db_docs X view (s\<lparr>web := w\<rparr>) = db_docs X view s"
  "db_docs X view (s\<lparr>cache_instance := c\<rparr>) = db_docs X view s"
  "db_docs X view (s\<lparr>token := t\<rparr>) = db_docs X view s"
  by (simp_all add: db_docs_def fun_eq_iff)

lemma db_storeE:
  assumes "db_ok X view s"
  obtains e where "db_store X k j s = Ret True (s\<lparr>db := Some e\<rparr>)"
    and "db_docs X view (s\<lparr>db := Some e\<rparr>) = (db_docs X view s)(k \<mapsto> j)"
proof -
  from assms obtain d where d: "db s = Some d" and r: "rocks_ok X view" and c: "codec_total X"
    by (auto simp: db_ok_def)
  obtain e where e: "db_put X k (text_of X j) d = (True, e)" "view e = (view d)(k \<mapsto> text_of X j)"
    using rocks_okD(1) [OF r] by blast
  show ?thesis
  proof (rule that [of e])
    show "db_store X k j s = Ret True (s\<lparr>db := Some e\<rparr>)"
      using d e(1) codec_total_dump [OF c, of j] by (simp add: db_store_def)
    show "db_docs X view (s\<lparr>db := Some e\<rparr>) = (db_docs X view s)(k \<mapsto> j)"
      using d e(2) codec_total_parse [OF c, of j] by (simp add: db_docs_def fun_eq_iff)
  qed
qed

lemma db_removeE:
  assumes "db_ok X view s"
  obtains e where "db_remove X k s = Ret True (s\<lparr>db := Some e\<rparr>)"
    and "db_docs X view (s\<lparr>db := Some e\<rparr>) = (db_docs X view s)(k := None)"
proof -
  from assms obtain d where d: "db s = Some d" and r: "rocks_ok X view" by (auto simp: db_ok_def)
  obtain e where e: "db_delete X k d = (True, e)" "view e = (view d)(k := None)"
    using rocks_okD(3) [OF r] by blast
  show ?thesis
    by (rule that [of e]) (use d e in \<open>simp_all add: db_remove_def db_docs_def fun_eq_iff\<close>)
qed

lemma db_load_Some: "db_ok X view s \<Longrightarrow> db_docs X view s k = Some j \<Longrightarrow> db_load X k s = Ret (Some j) s"
  using rocks_okD(2) [of X view k]
  by (auto simp: db_ok_def db_docs_def db_load_def split: Option.bind_splits)

lemma db_load_None:
  "db_ok X view s \<Longrightarrow> (\<And>d. db s = Some d \<Longrightarrow> view d k = None) \<Longrightarrow> db_load X k s = Ret None s"
  using rocks_okD(2) [of X view k] by (auto simp: db_ok_def db_load_def)

lemma member_or_obj [simp]:
  "map_of kvs k = Some v \<Longrightarrow> member_or (obj kvs) k conv old = conv v"
  by (simp add: member_or_def)

lemma File_Metadata_name [simp]: "fileName (File_Metadata k) = k"
  by (simp add: File_Metadata_def)

lemma file_of_file_json [simp]: "file_of_json X m (file_json m') = Inr m'"
  by (simp add: file_of_json_def file_json_def get_uint64_def)

lemma dir_of_dir_json [simp]: "dir_of_json m (dir_json m') = Inr m'"
  by (simp add: dir_of_json_def dir_json_def)

lemma file_load_Some:
  "db_ok X view s \<Longrightarrow> db_docs X view s (fileName m) = Some (file_json m') \<Longrightarrow>
     file_load X m s = Ret (Some m') s"
  by (simp add: file_load_def db_load_Some)

lemma dir_load_Some:
  "db_ok X view s \<Longrightarrow> db_docs X view s (directoryName m) = Some (dir_json m') \<Longrightarrow>
     dir_load X m s = Ret (Some m') s"
  by (simp add: dir_load_def db_load_Some)

lemma update_parentE:
  assumes ok: "db_ok X view s" and par: "parent_of key = Some p"
    and dm: "db_docs X view s p = Some (dir_json dm)" and name: "directoryName dm = p"
    and keep: "\<And>dm1. change dm = Some dm1 \<Longrightarrow> directoryName dm1 = p"
  obtains e where "update_parent X key change s = Ret True (s\<lparr>db := Some e\<rparr>)"
    and "db_docs X view (s\<lparr>db := Some e\<rparr>) = (db_docs X view s)
           (p \<mapsto> dir_json (case change dm of None \<Rightarrow> dm | Some dm1 \<Rightarrow> dm1))"
proof -
  have load: "dir_load X (Directory_Metadata p) s = Ret (Some dm) s"
    by (rule dir_load_Some [OF ok]) (simp add: dm Directory_Metadata_def)
  show ?thesis
  proof (cases "change dm")
    case None
    from ok obtain d where d: "db s = Some d" by (auto simp: db_ok_def)
    then have "s\<lparr>db := Some d\<rparr> = s" by simp
    with that [of d] None load par dm show ?thesis
      by (simp add: update_parent_def fun_upd_idem)
  next
    case (Some dm1)
    from keep [OF Some] obtain e where
      "dir_store X dm1 s = Ret True (s\<lparr>db := Some e\<rparr>)"
      "db_docs X view (s\<lparr>db := Some e\<rparr>) = (db_docs X view s)(p \<mapsto> dir_json dm1)"
      using db_storeE [OF ok, of p "dir_json dm1"] by (auto simp: dir_store_def)
    with that [of e] Some load par show ?thesis by (simp add: update_parent_def)
  qed
qed

end
