(* ===== verification/Client_Demo.thy ===== *)
theory Client_Demo
  imports Metadata Toy_Codec
begin

text \<open>A small client with a finite map as its database, on which the witnesses are evaluated.\<close>

section \<open>A database for the witnesses\<close>

definition lookup_db :: "string \<Rightarrow> (string, string) fmap \<Rightarrow> string option" where
  "lookup_db k d = fmlookup d k"

text \<open>A merge that succeeds when one side is as it was.\<close>

definition toy_merge :: "string \<Rightarrow> string \<Rightarrow> string \<Rightarrow> int \<times> (string \<times> bool) option" where
  "toy_merge b l r = (0, Some (if l = b then (r, True) else if r = b then (l, True) else ([], False)))"

definition toy_ext :: "('w, (string, string) fmap) client_ext" where
  "toy_ext = \<lparr>json_parse = toy_parse, json_dump = toy_dump, json_pretty = toy_dump,
     what = (\<lambda>_. ''what''), float_trunc = (\<lambda>_. 0), json_read = toy_parse, curl_init = (\<lambda>c. (True, c)),
     curl_perform = (\<lambda>_ _ _ w. (Curl_error ''down'', w)), shuffled = (\<lambda>ss c. (ss, c)),
     http_post = (\<lambda>_ _ _ _ _ w. (None, w)), http_get = (\<lambda>_ _ _ w. (None, w)),
     steady_now = (\<lambda>_. 0),
     db_put = (\<lambda>k v d. (True, fmupd k v d)), db_get = lookup_db,
     db_delete = (\<lambda>k d. (True, fmdrop k d)),
     db_seek = (\<lambda>k d. filter (\<lambda>k'. k \<le> k') (sorted_list_of_fset (fmdom d))),
     sha256 = (\<lambda>s. [length s mod 256]), git_merge = toy_merge,
     readdir = (\<lambda>ns. ns), notify_init = (\<lambda>w. (True, w)), notify_show = (\<lambda>_ _ w. ((True, False), w)),
     db_open = (\<lambda>_ w. (Some fmempty, w))\<rparr>"

abbreviation toy_client_ext :: "(unit, (string, string) fmap) client_ext" where
  "toy_client_ext \<equiv> toy_ext"

lemmas toy_client_ext_def = toy_ext_def

lemma toy_client_simps [simp]:
  "json_parse toy_ext = toy_parse" "json_dump toy_ext = toy_dump"
  "json_pretty toy_ext = toy_dump"
  "db_put toy_ext k v d = (True, fmupd k v d)" "db_get toy_ext k d = fmlookup d k"
  "db_delete toy_ext k d = (True, fmdrop k d)"
  "db_seek toy_ext k d = filter (\<lambda>k'. k \<le> k') (sorted_list_of_fset (fmdom d))"
  by (simp_all add: toy_ext_def lookup_db_def)

lemma toy_rocks_ok: "rocks_ok toy_ext fmlookup"
proof -
  have "sorted (filter ((\<le>) k) (sorted_list_of_fset (fmdom d)))" for k :: string and d :: "(string, string) fmap"
    by (simp add: sorted_list_of_fset.rep_eq sorted_wrt_filter)
  then show ?thesis by (auto simp: rocks_ok_def fmlookup_dom'_iff fmdom.rep_eq)
qed

definition toy_client_at :: "'w \<Rightarrow> (string, string) fmap \<Rightarrow> ('w, (string, string) fmap) client" where
  "toy_client_at w d = \<lparr>fs = fmempty, db = Some d, web = w, cache_instance = Some (new_cache 60000 1000),
     signup_lb = ([], 0), login_lb = ([], 0), meta_lb = ([], 0), notification_lb = ([], 0),
     token = ''t'', username = ''ann'', password = ''pw'', device_id = ''d1'', g_basePath = ''/h/'',
     g_user = ''ann''\<rparr>"

abbreviation toy_client :: "(string, string) fmap \<Rightarrow> (unit, (string, string) fmap) client" where
  "toy_client \<equiv> toy_client_at ()"

lemmas toy_client_def = toy_client_at_def

lemma toy_db [simp]: "db (toy_client_at w d) = Some d"
  by (simp add: toy_client_def)

lemma toy_db_ok: "db_ok toy_ext fmlookup (toy_client_at w d)"
  by (simp add: db_ok_def toy_rocks_ok)

definition toy_db_of :: "(string \<times> json) list \<Rightarrow> (string, string) fmap" where
  "toy_db_of kvs = fmap_of_list (map (\<lambda>(k, j). (k, enc j)) kvs)"

lemma toy_docs:
  "db_docs toy_ext fmlookup (toy_client_at w (toy_db_of kvs)) = map_of kvs"
proof (rule ext)
  fix k show "db_docs toy_ext fmlookup (toy_client_at w (toy_db_of kvs)) k = map_of kvs k"
    by (induction kvs) (auto simp: db_docs_def toy_db_of_def fmlookup_of_list)
qed

end
