(* ===== verification/Metadata_Props.thy ===== *)
theory Metadata_Props
  imports Client_Demo
begin

text \<open>
  Properties of the client's record: documents survive storing and loading, the listings change as
  asked, the prefix scan finds exactly the children of a directory, and removing a directory ends and
  removes what it lists.
\<close>

section \<open>Round trips\<close>

text \<open>What is stored for a file is what loading the file's name gives back: name, size, version,
  hash and content, whatever the fields of the object loaded into; every other document is as before.
  The same holds for a directory and its listings.\<close>

lemma metadata_round_trip:
  assumes "db_ok X view s"
  shows "(\<exists>e. file_store X m s = Ret True (s\<lparr>db := Some e\<rparr>) \<and>
      file_load X (File_Metadata (fileName m)) (s\<lparr>db := Some e\<rparr>) = Ret (Some m) (s\<lparr>db := Some e\<rparr>) \<and>
      (\<forall>k. k \<noteq> fileName m \<longrightarrow> db_docs X view (s\<lparr>db := Some e\<rparr>) k = db_docs X view s k)) \<and>
    (\<exists>e. dir_store X dm s = Ret True (s\<lparr>db := Some e\<rparr>) \<and>
      dir_load X (Directory_Metadata (directoryName dm)) (s\<lparr>db := Some e\<rparr>) = Ret (Some dm) (s\<lparr>db := Some e\<rparr>) \<and>
      (\<forall>k. k \<noteq> directoryName dm \<longrightarrow> db_docs X view (s\<lparr>db := Some e\<rparr>) k = db_docs X view s k))"
proof -
  obtain e1 where e1: "file_store X m s = Ret True (s\<lparr>db := Some e1\<rparr>)"
    "db_docs X view (s\<lparr>db := Some e1\<rparr>) = (db_docs X view s)(fileName m \<mapsto> file_json m)"
    using db_storeE [OF assms, of "fileName m" "file_json m"] by (auto simp: file_store_def)
  have "file_load X (File_Metadata (fileName m)) (s\<lparr>db := Some e1\<rparr>) = Ret (Some m) (s\<lparr>db := Some e1\<rparr>)"
    by (rule file_load_Some [OF db_ok_db [OF assms]]) (simp add: e1 File_Metadata_def)
  moreover obtain e2 where e2: "dir_store X dm s = Ret True (s\<lparr>db := Some e2\<rparr>)"
    "db_docs X view (s\<lparr>db := Some e2\<rparr>) = (db_docs X view s)(directoryName dm \<mapsto> dir_json dm)"
    using db_storeE [OF assms, of "directoryName dm" "dir_json dm"] by (auto simp: dir_store_def)
  have "dir_load X (Directory_Metadata (directoryName dm)) (s\<lparr>db := Some e2\<rparr>)
      = Ret (Some dm) (s\<lparr>db := Some e2\<rparr>)"
    by (rule dir_load_Some [OF db_ok_db [OF assms]]) (simp add: e2 Directory_Metadata_def)
  ultimately show ?thesis using e1 e2 by (intro conjI exI [of _ e1] exI [of _ e2]) simp_all
qed

lemma metadata_round_trip_witness:
  "\<exists>t. file_store toy_client_ext \<lparr>fileName = ''f'', fileSize = 1, version = ''2'', content_hash = ''h'',
      file_content = ''x''\<rparr> (toy_client fmempty) = Ret True t \<and>
    (\<exists>m. file_load toy_client_ext (File_Metadata ''f'') t = Ret (Some m) t \<and> version m = ''2'')"
  using metadata_round_trip [OF toy_db_ok [of "()" fmempty], of "\<lparr>fileName = ''f'', fileSize = 1, version = ''2'',
      content_hash = ''h'', file_content = ''x''\<rparr>"] by fastforce

section \<open>Listings\<close>

text \<open>With a parent in the record, adding a file or directory lists it in the parent, at the end
  and never twice; removing one removes every occurrence; nothing else in the record changes.\<close>

lemma listing_operations:
  assumes "db_ok X view s" and "parent_of key = Some p"
    and "db_docs X view s p = Some (dir_json dm)" and "directoryName dm = p"
  shows "(\<exists>e. addFileToDirectory X key s = Ret True (s\<lparr>db := Some e\<rparr>) \<and>
      db_docs X view (s\<lparr>db := Some e\<rparr>) = (db_docs X view s)(p \<mapsto> dir_json (dm\<lparr>files :=
        files dm @ (if key \<in> set (files dm) then [] else [key])\<rparr>))) \<and>
    (\<exists>e. removeFileFromDirectory X key s = Ret True (s\<lparr>db := Some e\<rparr>) \<and>
      db_docs X view (s\<lparr>db := Some e\<rparr>) = (db_docs X view s)(p \<mapsto> dir_json (dm\<lparr>files :=
        removeAll key (files dm)\<rparr>))) \<and>
    (\<exists>e. addDirectoryToDirectory X key s = Ret True (s\<lparr>db := Some e\<rparr>) \<and>
      db_docs X view (s\<lparr>db := Some e\<rparr>) = (db_docs X view s)(p \<mapsto> dir_json (dm\<lparr>directories :=
        directories dm @ (if key \<in> set (directories dm) then [] else [key])\<rparr>))) \<and>
    (\<exists>e. removeDirectoryFromDirectory X key s = Ret True (s\<lparr>db := Some e\<rparr>) \<and>
      db_docs X view (s\<lparr>db := Some e\<rparr>) = (db_docs X view s)(p \<mapsto> dir_json (dm\<lparr>directories :=
        removeAll key (directories dm)\<rparr>)))"
proof -
  have id: "dm\<lparr>files := files dm\<rparr> = dm" "dm\<lparr>directories := directories dm\<rparr> = dm" by simp_all
  have up: "\<exists>e. update_parent X key change s = Ret True (s\<lparr>db := Some e\<rparr>) \<and>
      db_docs X view (s\<lparr>db := Some e\<rparr>) = (db_docs X view s)
           (p \<mapsto> dir_json (case change dm of None \<Rightarrow> dm | Some dm1 \<Rightarrow> dm1))"
    if "\<And>dm1. change dm = Some dm1 \<Longrightarrow> directoryName dm1 = p" for change
    using update_parentE [OF assms that] by metis
  show ?thesis
    unfolding addFileToDirectory_def removeFileFromDirectory_def addDirectoryToDirectory_def
      removeDirectoryFromDirectory_def
  proof (intro conjI)
    show "\<exists>e. update_parent X key (\<lambda>dm. if key \<in> set (files dm) then None
          else Some (dm\<lparr>files := files dm @ [key]\<rparr>)) s = Ret True (s\<lparr>db := Some e\<rparr>) \<and>
        db_docs X view (s\<lparr>db := Some e\<rparr>) = (db_docs X view s)(p \<mapsto> dir_json (dm\<lparr>files :=
          files dm @ (if key \<in> set (files dm) then [] else [key])\<rparr>))"
      using up [of "\<lambda>dm. if key \<in> set (files dm) then None else Some (dm\<lparr>files := files dm @ [key]\<rparr>)"] assms(4)
      by (cases "key \<in> set (files dm)") (simp_all add: id)
    show "\<exists>e. update_parent X key (\<lambda>dm. if key \<in> set (files dm)
          then Some (dm\<lparr>files := removeAll key (files dm)\<rparr>) else None) s = Ret True (s\<lparr>db := Some e\<rparr>) \<and>
        db_docs X view (s\<lparr>db := Some e\<rparr>) = (db_docs X view s)(p \<mapsto> dir_json (dm\<lparr>files :=
          removeAll key (files dm)\<rparr>))"
      using up [of "\<lambda>dm. if key \<in> set (files dm) then Some (dm\<lparr>files := removeAll key (files dm)\<rparr>) else None"]
        assms(4) by (cases "key \<in> set (files dm)") (simp_all add: id)
    show "\<exists>e. update_parent X key (\<lambda>dm. if key \<in> set (directories dm) then None
          else Some (dm\<lparr>directories := directories dm @ [key]\<rparr>)) s = Ret True (s\<lparr>db := Some e\<rparr>) \<and>
        db_docs X view (s\<lparr>db := Some e\<rparr>) = (db_docs X view s)(p \<mapsto> dir_json (dm\<lparr>directories :=
          directories dm @ (if key \<in> set (directories dm) then [] else [key])\<rparr>))"
      using up [of "\<lambda>dm. if key \<in> set (directories dm) then None
          else Some (dm\<lparr>directories := directories dm @ [key]\<rparr>)"] assms(4)
      by (cases "key \<in> set (directories dm)") (simp_all add: id)
    show "\<exists>e. update_parent X key (\<lambda>dm. if key \<in> set (directories dm)
          then Some (dm\<lparr>directories := removeAll key (directories dm)\<rparr>) else None) s
            = Ret True (s\<lparr>db := Some e\<rparr>) \<and>
        db_docs X view (s\<lparr>db := Some e\<rparr>) = (db_docs X view s)(p \<mapsto> dir_json (dm\<lparr>directories :=
          removeAll key (directories dm)\<rparr>))"
      using up [of "\<lambda>dm. if key \<in> set (directories dm)
          then Some (dm\<lparr>directories := removeAll key (directories dm)\<rparr>) else None"] assms(4)
      by (cases "key \<in> set (directories dm)") (simp_all add: id)
  qed
qed

section \<open>The prefix scan\<close>

lemma prefix_le: "prefix p (k :: string) \<Longrightarrow> p \<le> k"
  by (induction p arbitrary: k) (auto simp: prefix_def)

lemma prefix_between:
  assumes "p \<le> a" and "a \<le> b" and "prefix p b"
  shows "prefix p (a :: string)"
  using assms
proof (induction p arbitrary: a b)
  case (Cons c p)
  from Cons.prems(3) obtain b' where b: "b = c # b'" "prefix p b'" by (cases b) auto
  from Cons.prems(1) obtain x a' where a: "a = x # a'" by (cases a) auto
  from Cons.prems(1,2) a b have "x = c" "p \<le> a'" "a' \<le> b'" by auto
  with Cons.IH b(2) a show ?case by auto
qed simp

lemma takeWhile_prefix_scan:
  assumes "sorted ks" and "\<forall>k \<in> set ks. p \<le> k"
  shows "set (takeWhile (prefix p) ks) = {k \<in> set ks. prefix p (k :: string)}"
  using assms
proof (induction ks)
  case (Cons k ks)
  show ?case
  proof (cases "prefix p k")
    case True
    with Cons show ?thesis by auto
  next
    case False
    have "\<not> prefix p k'" if "k' \<in> set ks" for k'
      using prefix_between [of p k k'] Cons.prems that False by auto
    with False show ?thesis by auto
  qed
qed simp

text \<open>The scan for a prefix returns, in order and without repetition, exactly the stored keys that
  are the prefix followed by one non-empty name without a slash: stopping at the first key without
  the prefix misses none, because RocksDB visits the keys in order.\<close>

lemma prefix_scan_children:
  assumes "rocks_ok X view" and "db s = Some d" and "finite (dom (view d))"
  shows "\<exists>ks. prefix_scan X p s = Ret ks s \<and> sorted ks \<and> distinct ks \<and>
    set ks = {k. view d k \<noteq> None \<and> (\<exists>name. k = p @ name \<and> name \<noteq> [] \<and> CHR ''/'' \<notin> set name)}"
proof -
  note seek = rocks_okD(4,5) [OF assms(1), of p d]
  have "set (takeWhile (prefix p) (db_seek X p d)) = {k \<in> set (db_seek X p d). prefix p k}"
    by (rule takeWhile_prefix_scan [OF seek(1)]) (simp add: seek(2))
  also have "\<dots> = {k \<in> dom (view d). prefix p k}"
    using prefix_le seek(2) by auto
  finally have scan: "set (takeWhile (prefix p) (db_seek X p d)) = {k \<in> dom (view d). prefix p k}" .
  let ?f = "filter (\<lambda>key. drop (length p) key \<noteq> [] \<and> CHR ''/'' \<notin> set (drop (length p) key))
                (takeWhile (prefix p) (db_seek X p d))"
  have "set ?f = {k. view d k \<noteq> None \<and> (\<exists>name. k = p @ name \<and> name \<noteq> [] \<and> CHR ''/'' \<notin> set name)}"
    using scan by (auto simp: prefix_def dom_def)
  moreover define ks where "ks = sorted_list_of_set (set ?f)"
  have "set ks = set ?f" "sorted ks" "distinct ks" by (simp_all add: ks_def del: set_filter)
  moreover have "prefix_scan X p s = Ret ks s"
    using assms(2) by (simp add: prefix_scan_def ks_def)
  ultimately show ?thesis by blast
qed

definition toy_scan_db :: "(string, string) fmap" where
  "toy_scan_db = toy_db_of [(''h/d'', JNull), (''h/d/x'', JNull)]"

lemma toy_scan_db_look:
  "fmlookup toy_scan_db k = (if k = ''h/d'' \<or> k = ''h/d/x'' then Some (enc JNull) else None)"
  by (auto simp: toy_scan_db_def toy_db_of_def fmlookup_of_list)

lemma prefix_scan_children_witness:
  "\<exists>ks. prefix_scan toy_client_ext ''h/'' (toy_client toy_scan_db) = Ret ks (toy_client toy_scan_db) \<and>
     set ks = {''h/d''}"
proof -
  have fin: "finite (dom (fmlookup toy_scan_db))" by simp
  have eq: "{k. fmlookup toy_scan_db k \<noteq> None \<and>
      (\<exists>name. k = ''h/'' @ name \<and> name \<noteq> [] \<and> CHR ''/'' \<notin> set name)} = {''h/d''}"
  proof (intro equalityI subsetI)
    fix k assume "k \<in> {k. fmlookup toy_scan_db k \<noteq> None \<and>
      (\<exists>name. k = ''h/'' @ name \<and> name \<noteq> [] \<and> CHR ''/'' \<notin> set name)}"
    then obtain name where "k = ''h/d'' \<or> k = ''h/d/x''" "k = ''h/'' @ name" "CHR ''/'' \<notin> set name"
      by (auto simp: toy_scan_db_look split: if_splits)
    then show "k \<in> {''h/d''}" by auto
  next
    fix k assume "k \<in> {''h/d''}"
    then show "k \<in> {k. fmlookup toy_scan_db k \<noteq> None \<and>
      (\<exists>name. k = ''h/'' @ name \<and> name \<noteq> [] \<and> CHR ''/'' \<notin> set name)}"
      by (simp add: toy_scan_db_look)
  qed
  from prefix_scan_children [OF toy_rocks_ok toy_db [of "()"] fin]
  show ?thesis unfolding eq [symmetric] by blast
qed

section \<open>Removing a directory\<close>

text \<open>The listing a stored text decodes to, and the keys reachable through listings.\<close>

definition listing_at ::
  "('x) codec_scheme \<Rightarrow> (string \<rightharpoonup> string) \<Rightarrow> string \<rightharpoonup> dir_meta" where
  "listing_at X V k =
     (case V k of
        None \<Rightarrow> None
      | Some t \<Rightarrow> (case json_parse X t of
                    None \<Rightarrow> None
                  | Some j \<Rightarrow> (case dir_of_json (Directory_Metadata k) j of
                                Inl e \<Rightarrow> None | Inr dm \<Rightarrow> Some dm)))"

inductive listed_under :: "(string \<rightharpoonup> dir_meta) \<Rightarrow> string \<Rightarrow> string \<Rightarrow> bool" for L where
  lu_self: "listed_under L k k"
| lu_file: "L k = Some dm \<Longrightarrow> f \<in> set (files dm) \<Longrightarrow> listed_under L k f"
| lu_sub: "L k = Some dm \<Longrightarrow> d \<in> set (directories dm) \<Longrightarrow> listed_under L d x \<Longrightarrow> listed_under L k x"

text \<open>Everything stored decodes, and listings descend in rank.\<close>

definition decodes :: "('x) codec_scheme \<Rightarrow> (string \<rightharpoonup> string) \<Rightarrow> bool" where
  "decodes X V \<longleftrightarrow> (\<forall>k. V k \<noteq> None \<longrightarrow> listing_at X V k \<noteq> None)"

definition ranked :: "(string \<Rightarrow> nat) \<Rightarrow> (string \<rightharpoonup> dir_meta) \<Rightarrow> bool" where
  "ranked rank L \<longleftrightarrow> (\<forall>k dm d. L k = Some dm \<and> d \<in> set (directories dm) \<longrightarrow> rank d < rank k)"

lemma listing_at_sub:
  "V' \<subseteq>\<^sub>m V \<Longrightarrow> listing_at X V' k = (if V' k = None then None else listing_at X V k)"
  by (auto simp: listing_at_def map_le_def dom_def split: option.splits)

lemma decodes_sub: "decodes X V \<Longrightarrow> V' \<subseteq>\<^sub>m V \<Longrightarrow> decodes X V'"
  using listing_at_sub [of V' V X] by (auto simp: decodes_def map_le_def dom_def)

lemma ranked_sub: "ranked rank (listing_at X V) \<Longrightarrow> V' \<subseteq>\<^sub>m V \<Longrightarrow> ranked rank (listing_at X V')"
  using listing_at_sub [of V' V X] by (auto simp: ranked_def split: if_splits)

lemma listed_under_sub:
  assumes "listed_under (listing_at X V') k x" and "V' \<subseteq>\<^sub>m V"
  shows "listed_under (listing_at X V) k x"
  using assms(1)
proof (induction rule: listed_under.induct)
  case (lu_self k)
  show ?case by (rule listed_under.lu_self)
next
  case (lu_file k dm f)
  then have "listing_at X V k = Some dm"
    using listing_at_sub [OF assms(2), of X k] by (simp split: if_splits)
  with lu_file show ?case by (auto intro: listed_under.lu_file)
next
  case (lu_sub k dm d x)
  then have "listing_at X V k = Some dm"
    using listing_at_sub [OF assms(2), of X k] by (simp split: if_splits)
  with lu_sub show ?case by (auto intro: listed_under.lu_sub)
qed

definition db_view :: "('d \<Rightarrow> string \<rightharpoonup> string) \<Rightarrow> ('w, 'd) client \<Rightarrow> string \<rightharpoonup> string" where
  "db_view view s = (case db s of None \<Rightarrow> Map.empty | Some d \<Rightarrow> view d)"

lemma db_store_view:
  assumes "db_ok X view s" and "db_store X k j s = Ret True (s\<lparr>db := Some e\<rparr>)"
  shows "db_view view (s\<lparr>db := Some e\<rparr>) = (db_view view s)(k \<mapsto> text_of X j)"
proof -
  from assms(1) obtain d where d: "db s = Some d" and r: "rocks_ok X view" and c: "codec_total X"
    by (auto simp: db_ok_def)
  obtain e1 where e1: "db_put X k (text_of X j) d = (True, e1)" "view e1 = (view d)(k \<mapsto> text_of X j)"
    using rocks_okD(1) [OF r] by blast
  have "s\<lparr>db := Some e1\<rparr> = s\<lparr>db := Some e\<rparr>"
    using assms(2) d e1(1) codec_total_dump [OF c, of j] by (simp add: db_store_def)
  then have "e1 = e" by (cases s) simp
  with d e1(2) show ?thesis by (simp add: db_view_def)
qed

lemma file_load_None:
  assumes "db_ok X view s" and "db_view view s k = None"
  shows "file_load X (File_Metadata k) s = Ret None s"
proof -
  have "db_load X k s = Ret None s"
    by (rule db_load_None [OF assms(1)]) (use assms(2) in \<open>simp add: db_view_def\<close>)
  then show ?thesis by (simp add: file_load_def)
qed

lemma dir_load_None:
  assumes "db_ok X view s" and "db_view view s k = None"
  shows "dir_load X (Directory_Metadata k) s = Ret None s"
proof -
  have "db_load X k s = Ret None s"
    by (rule db_load_None [OF assms(1)]) (use assms(2) in \<open>simp add: db_view_def\<close>)
  then show ?thesis by (simp add: dir_load_def Directory_Metadata_def)
qed

lemma db_removeE':
  assumes "db_ok X view s"
  obtains e where "db_remove X k s = Ret True (s\<lparr>db := Some e\<rparr>)" and "view e = (db_view view s)(k := None)"
proof -
  from assms obtain d where d: "db s = Some d" and r: "rocks_ok X view" by (auto simp: db_ok_def)
  obtain e where "db_delete X k d = (True, e)" "view e = (view d)(k := None)"
    using rocks_okD(3) [OF r] by blast
  with d show ?thesis by (intro that [of e]) (simp_all add: db_remove_def db_view_def)
qed

lemma dir_load_view:
  assumes "db_ok X view s" and "decodes X (db_view view s)"
  shows "dir_load X (Directory_Metadata k) s = Ret (listing_at X (db_view view s) k) s"
proof -
  from assms(1) obtain d where d: "db s = Some d" and r: "rocks_ok X view" by (auto simp: db_ok_def)
  have "view d k \<noteq> None \<Longrightarrow> listing_at X (view d) k \<noteq> None"
    using assms(2) d by (simp add: decodes_def db_view_def)
  with d rocks_okD(2) [OF r, of k d] show ?thesis
    by (auto simp: dir_load_def db_load_def db_view_def listing_at_def Directory_Metadata_def
             split: option.splits sum.splits)
qed

text \<open>The effect of removing files one by one.\<close>

lemma db_twice: "s\<lparr>db := a, db := b\<rparr> = s\<lparr>db := b\<rparr>"
  by simp

lemma remove_files_loop:
  assumes "db_ok X view s"
  shows "\<exists>e. for_each gs (\<lambda>f. ignore (removeFileFromDatabase X f)) s = Ret () (s\<lparr>db := Some e\<rparr>) \<and>
    view e = (db_view view s) |` (- set gs)"
  using assms
proof (induction gs arbitrary: s)
  case Nil
  then obtain d where "db s = Some d" by (auto simp: db_ok_def)
  then have "s\<lparr>db := Some d\<rparr> = s" "view d = db_view view s" by (simp_all add: db_view_def)
  then show ?case by (intro exI [of _ d]) simp
next
  case (Cons f gs)
  obtain e where e: "db_remove X f s = Ret True (s\<lparr>db := Some e\<rparr>)" "view e = (db_view view s)(f := None)"
    using db_removeE' [OF Cons.prems] .
  have v: "db_view view (s\<lparr>db := Some e\<rparr>) = view e" by (simp add: db_view_def)
  obtain e' where
    e': "for_each gs (\<lambda>f. ignore (removeFileFromDatabase X f)) (s\<lparr>db := Some e\<rparr>)
       = Ret () (s\<lparr>db := Some e'\<rparr>)" "view e' = view e |` (- set gs)"
    using Cons.IH [OF db_ok_db [OF Cons.prems], of e] unfolding v db_twice by blast
  have "view e' = (db_view view s) |` (- set (f # gs))"
    unfolding e'(2) e(2) by (rule ext) (simp add: restrict_map_def)
  moreover have "ignore (removeFileFromDatabase X f) s = Ret () (s\<lparr>db := Some e\<rparr>)"
    by (simp add: removeFileFromDatabase_def e(1))
  ultimately show ?case using e'(1) by (intro exI [of _ e']) (simp del: ignore_apply)
qed

definition removed_from ::
  "('x) codec_scheme \<Rightarrow> (string \<rightharpoonup> string) \<Rightarrow> string \<Rightarrow> (string \<rightharpoonup> string) \<Rightarrow> bool" where
  "removed_from X V key V' \<longleftrightarrow> V' \<subseteq>\<^sub>m V \<and> V' key = None \<and>
     (\<forall>k. V k \<noteq> None \<and> V' k = None \<longrightarrow> listed_under (listing_at X V) key k)"

lemma removed_from_sub: "removed_from X V key V' \<Longrightarrow> V' \<subseteq>\<^sub>m V"
  by (simp add: removed_from_def)

text \<open>One call from good states, given that calls one level down behave.\<close>

definition removes :: "nat \<Rightarrow> ('w, 'd, 'x) client_ext_scheme \<Rightarrow> ('d \<Rightarrow> string \<rightharpoonup> string) \<Rightarrow>
    (string \<Rightarrow> nat) \<Rightarrow> string \<Rightarrow> bool" where
  "removes n X view rank key \<longleftrightarrow>
     (\<forall>s. db_ok X view s \<and> decodes X (db_view view s) \<and> ranked rank (listing_at X (db_view view s)) \<longrightarrow>
        (\<exists>b e. removeDirectoryFromDatabase n X key s = Ret b (s\<lparr>db := Some e\<rparr>) \<and>
           removed_from X (db_view view s) key (view e)))"

lemma removesE:
  assumes "removes n X view rank key" and "db_ok X view s" and "decodes X (db_view view s)"
    and "ranked rank (listing_at X (db_view view s))"
  obtains b e where "removeDirectoryFromDatabase n X key s = Ret b (s\<lparr>db := Some e\<rparr>)"
    and "removed_from X (db_view view s) key (view e)"
  using assms unfolding removes_def by blast

lemma remove_dirs_loop:
  assumes "\<forall>d \<in> set ds. removes n X view rank d"
    and "db_ok X view s" and "decodes X (db_view view s)" and "ranked rank (listing_at X (db_view view s))"
  shows "\<exists>e. for_each ds (\<lambda>d. ignore (removeDirectoryFromDatabase n X d)) s = Ret () (s\<lparr>db := Some e\<rparr>) \<and>
    view e \<subseteq>\<^sub>m db_view view s \<and> (\<forall>d \<in> set ds. view e d = None) \<and>
    (\<forall>k. db_view view s k \<noteq> None \<and> view e k = None \<longrightarrow>
       (\<exists>d \<in> set ds. listed_under (listing_at X (db_view view s)) d k))"
  using assms
proof (induction ds arbitrary: s)
  case Nil
  then obtain d where "db s = Some d" by (auto simp: db_ok_def)
  then have "s\<lparr>db := Some d\<rparr> = s" "view d = db_view view s" by (simp_all add: db_view_def)
  then show ?case by (intro exI [of _ d]) auto
next
  case (Cons d ds)
  let ?V = "db_view view s"
  have "removes n X view rank d" using Cons.prems(1) by simp
  from this Cons.prems(2-4) obtain b e where
    run: "removeDirectoryFromDatabase n X d s = Ret b (s\<lparr>db := Some e\<rparr>)"
    and gone: "removed_from X ?V d (view e)" by (rule removesE)
  let ?s1 = "s\<lparr>db := Some e\<rparr>"
  have v1: "db_view view ?s1 = view e" by (simp add: db_view_def)
  have sub: "view e \<subseteq>\<^sub>m ?V" using gone by (rule removed_from_sub)
  have "\<forall>d \<in> set ds. removes n X view rank d" using Cons.prems(1) by simp
  from Cons.IH [OF this db_ok_db [OF Cons.prems(2)], of e, unfolded v1,
      OF decodes_sub [OF Cons.prems(3) sub] ranked_sub [OF Cons.prems(4) sub]]
  obtain e' where
    run': "for_each ds (\<lambda>d. ignore (removeDirectoryFromDatabase n X d)) ?s1 = Ret () (s\<lparr>db := Some e'\<rparr>)"
    and sub': "view e' \<subseteq>\<^sub>m view e" and gone': "\<forall>d \<in> set ds. view e' d = None"
    and why: "\<forall>k. view e k \<noteq> None \<and> view e' k = None \<longrightarrow>
       (\<exists>d \<in> set ds. listed_under (listing_at X (view e)) d k)"
    unfolding db_twice by blast
  have "view e' d = None"
    using gone sub' by (auto simp: removed_from_def map_le_def dom_def)
  moreover have "\<exists>d' \<in> set (d # ds). listed_under (listing_at X ?V) d' k"
    if "?V k \<noteq> None \<and> view e' k = None" for k
  proof (cases "view e k")
    case None
    with gone that show ?thesis by (auto simp: removed_from_def)
  next
    case (Some v)
    with why that obtain d' where "d' \<in> set ds" "listed_under (listing_at X (view e)) d' k" by auto
    with listed_under_sub [OF _ sub] show ?thesis by auto
  qed
  moreover have "for_each (d # ds) (\<lambda>d. ignore (removeDirectoryFromDatabase n X d)) s
      = Ret () (s\<lparr>db := Some e'\<rparr>)"
  proof -
    have "ignore (removeDirectoryFromDatabase n X d) s = Ret () ?s1" using run by simp
    with run' show ?thesis by (simp del: ignore_apply)
  qed
  ultimately show ?case
    using gone' map_le_trans [OF sub' sub] by (intro exI [of _ e']) (auto simp del: ignore_apply for_each.simps)
qed

lemma removes_all: "rank key < n \<Longrightarrow> removes n X view rank key"
proof (induction n arbitrary: key)
  case (Suc n)
  show ?case unfolding removes_def
  proof (intro allI impI, elim conjE)
    fix s assume ok: "db_ok X view s" and dec: "decodes X (db_view view s)"
      and rk: "ranked rank (listing_at X (db_view view s))"
    let ?V = "db_view view s"
    from ok obtain d0 where d0: "db s = Some d0" by (auto simp: db_ok_def)
    note load = dir_load_view [OF ok dec, of key]
    show "\<exists>b e. removeDirectoryFromDatabase (Suc n) X key s = Ret b (s\<lparr>db := Some e\<rparr>) \<and>
        removed_from X ?V key (view e)"
    proof (cases "listing_at X ?V key")
      case None
      then have "?V key = None" using dec by (auto simp: decodes_def)
      moreover have "s\<lparr>db := Some d0\<rparr> = s" "view d0 = ?V" using d0 by (simp_all add: db_view_def)
      ultimately show ?thesis
        using None load d0 by (intro exI [of _ False] exI [of _ d0]) (auto simp: removed_from_def)
    next
      case (Some dm)
      have deep: "\<forall>d \<in> set (directories dm). removes n X view rank d"
        using Suc rk Some unfolding ranked_def by fastforce
      obtain e1 where e1: "for_each (files dm) (\<lambda>f. ignore (removeFileFromDatabase X f)) s
          = Ret () (s\<lparr>db := Some e1\<rparr>)" "view e1 = ?V |` (- set (files dm))"
        using remove_files_loop [OF ok] by blast
      let ?s1 = "s\<lparr>db := Some e1\<rparr>"
      have v1: "db_view view ?s1 = view e1" by (simp add: db_view_def)
      have sub1: "view e1 \<subseteq>\<^sub>m ?V" unfolding e1(2) by (auto simp: map_le_def restrict_map_def)
      from remove_dirs_loop [OF deep db_ok_db [OF ok], of e1, unfolded v1,
          OF decodes_sub [OF dec sub1] ranked_sub [OF rk sub1]]
      obtain e2 where e2: "for_each (directories dm) (\<lambda>d. ignore (removeDirectoryFromDatabase n X d)) ?s1
          = Ret () (s\<lparr>db := Some e2\<rparr>)" "view e2 \<subseteq>\<^sub>m view e1"
        and why: "\<forall>k. view e1 k \<noteq> None \<and> view e2 k = None \<longrightarrow>
          (\<exists>d \<in> set (directories dm). listed_under (listing_at X (view e1)) d k)"
        unfolding db_twice by blast
      let ?s2 = "s\<lparr>db := Some e2\<rparr>"
      obtain e3 where e3: "db_remove X key ?s2 = Ret True (s\<lparr>db := Some e3\<rparr>)"
        "view e3 = (view e2)(key := None)"
        using db_removeE' [OF db_ok_db [OF ok, of e2], of key] unfolding db_twice
        by (auto simp: db_view_def)
      have run: "removeDirectoryFromDatabase (Suc n) X key s = Ret True (s\<lparr>db := Some e3\<rparr>)"
        using d0 load Some e1(1) e2(1) e3(1) by simp
      have sub3: "view e3 \<subseteq>\<^sub>m ?V"
      proof -
        have "view e3 \<subseteq>\<^sub>m view e2" unfolding e3(2) by (auto simp: map_le_def)
        with e2(2) sub1 show ?thesis by (blast intro: map_le_trans)
      qed
      have reason: "listed_under (listing_at X ?V) key k" if k: "?V k \<noteq> None \<and> view e3 k = None" for k
      proof (cases "k = key \<or> k \<in> set (files dm)")
        case True
        with Some show ?thesis by (auto intro: listed_under.intros)
      next
        case False
        then have "view e1 k \<noteq> None" "view e2 k = None"
          using k e1(2) e3(2) by (auto simp: restrict_map_def)
        with why obtain d where "d \<in> set (directories dm)" "listed_under (listing_at X (view e1)) d k"
          by blast
        with Some listed_under_sub [OF _ sub1] show ?thesis by (blast intro: listed_under.lu_sub)
      qed
      from run sub3 reason e3(2) show ?thesis
        by (intro exI [of _ True] exI [of _ e3]) (simp add: removed_from_def)
    qed
  qed
qed simp

text \<open>In a record whose documents decode and whose listings descend (no directory lists itself,
  directly or not), removing a directory ends within as many nested calls as its rank, its own
  document is gone afterwards, and whatever else was removed was listed under it: no other document
  is touched.\<close>

lemma removing_a_directory:
  assumes "db_ok X view s" and "decodes X (db_view view s)"
    and "ranked rank (listing_at X (db_view view s))" and "rank key < n"
  shows "\<exists>b e. removeDirectoryFromDatabase n X key s = Ret b (s\<lparr>db := Some e\<rparr>) \<and>
    view e \<subseteq>\<^sub>m db_view view s \<and> view e key = None \<and>
    (\<forall>k. db_view view s k \<noteq> None \<and> view e k = None \<longrightarrow>
       listed_under (listing_at X (db_view view s)) key k)"
  using removesE [OF removes_all [where rank = rank, OF assms(4)] assms(1-3)]
  unfolding removed_from_def by metis

definition toy_tree :: "(string, string) fmap" where
  "toy_tree = toy_db_of [(''h'', dir_json \<lparr>files = [], directories = [''h/d''], directoryName = ''h''\<rparr>),
     (''h/d'', dir_json \<lparr>files = [], directories = [], directoryName = ''h/d''\<rparr>)]"

lemma toy_tree_listing: "listing_at toy_client_ext (fmlookup toy_tree) =
    [''h'' \<mapsto> \<lparr>files = [], directories = [''h/d''], directoryName = ''h''\<rparr>,
     ''h/d'' \<mapsto> \<lparr>files = [], directories = [], directoryName = ''h/d''\<rparr>]"
  by (rule ext) (simp add: listing_at_def toy_tree_def toy_db_of_def fmlookup_of_list)

lemma removing_a_directory_witness:
  "\<exists>b e. removeDirectoryFromDatabase 3 toy_client_ext ''h'' (toy_client toy_tree)
      = Ret b ((toy_client toy_tree)\<lparr>db := Some e\<rparr>) \<and> fmlookup e ''h'' = None"
proof -
  have v: "db_view fmlookup (toy_client toy_tree) = fmlookup toy_tree" by (simp add: db_view_def)
  have "decodes toy_client_ext (fmlookup toy_tree)"
    unfolding decodes_def toy_tree_listing
    by (simp add: toy_tree_def toy_db_of_def fmlookup_of_list)
  moreover have "ranked (\<lambda>k. if k = ''h'' then 1 else 0) (listing_at toy_client_ext (fmlookup toy_tree))"
    unfolding toy_tree_listing by (auto simp: ranked_def split: if_splits)
  ultimately show ?thesis
    using removing_a_directory [OF toy_db_ok [of "()" toy_tree], of "\<lambda>k. if k = ''h'' then 1 else 0" "''h''" 3]
    unfolding v by auto
qed

end
