(* ===== verification/Fs_Utils.thy ===== *)
theory Fs_Utils
  imports Client_Demo
begin

text \<open>
  The client's access to the monitored directory, \<open>src/CODE/src/client/fsUtils/fsUtils.cpp\<close>:
  keys of the service are turned into paths below the base directory and back, and text files and
  directories are created, read and removed.
\<close>

definition fsutils_initialize :: "string \<Rightarrow> string \<Rightarrow> ('w, 'd, unit) action" where
  "fsutils_initialize basePath user = modify (\<lambda>s. s\<lparr>g_basePath := basePath, g_user := user\<rparr>)"

definition buildKeyfromFullPath :: "string \<Rightarrow> string \<Rightarrow> string" where
  "buildKeyfromFullPath base fullPath =
     (let key = (if prefix base fullPath then drop (length base) fullPath else fullPath)
      in if key = [] then ''dropbox'' else ''dropbox/'' @ key)"

definition buildFullPath :: "string \<Rightarrow> string \<Rightarrow> string" where
  "buildFullPath base relativePath =
     path_append base
       (if prefix ''dropbox/'' relativePath then drop 8 relativePath else relativePath)"

text \<open>
  Only \<open>.txt\<close> files are written, below directories that are created when they are missing; every
  failure is only logged.
\<close>

definition createTextFile :: "string \<Rightarrow> string \<Rightarrow> ('w, 'd, unit) action" where
  "createTextFile relativePath txt =
     (if path_extension relativePath \<noteq> ''.txt'' then ret ()
      else
        bind (gets g_basePath) (\<lambda>base.
        let filePath = buildFullPath base relativePath;
            parentPath = parent_path filePath in
        bind (gets (\<lambda>s. fs_exists (fs s) parentPath)) (\<lambda>present.
        bind (if present then ret True
              else call (\<lambda>s. case create_directories (fs s) parentPath of
                               (ok, f) \<Rightarrow> (ok, s\<lparr>fs := f\<rparr>))) (\<lambda>ok.
        if \<not> ok then ret ()
        else modify (\<lambda>s. case write_file (fs s) filePath txt of
                            None \<Rightarrow> s | Some f \<Rightarrow> s\<lparr>fs := f\<rparr>)))))"

definition readTextFile :: "string \<Rightarrow> ('w, 'd, string) action" where
  "readTextFile relativePath =
     (if path_extension relativePath \<noteq> ''.txt'' then ret []
      else gets (\<lambda>s. case read_file (fs s) (buildFullPath (g_basePath s) relativePath) of
                       None \<Rightarrow> [] | Some content \<Rightarrow> content))"

definition ensureDirectoryExists :: "string \<Rightarrow> ('w, 'd, bool) action" where
  "ensureDirectoryExists relativePath =
     bind (gets g_basePath) (\<lambda>base.
     let dirPath = buildFullPath base relativePath in
     bind (gets (\<lambda>s. fs_exists (fs s) dirPath)) (\<lambda>present.
     if present then ret True
     else call (\<lambda>s. case create_directories (fs s) dirPath of (ok, f) \<Rightarrow> (ok, s\<lparr>fs := f\<rparr>))))"

definition removeEntry :: "string \<Rightarrow> ('w, 'd, unit) action" where
  "removeEntry relativePath =
     bind (gets g_basePath) (\<lambda>base.
     let entryPath = buildFullPath base relativePath in
     modify (\<lambda>s.
       if \<not> fs_exists (fs s) entryPath then s
       else if fs_is_directory (fs s) entryPath then s\<lparr>fs := remove_all (fs s) entryPath\<rparr>
       else s\<lparr>fs := remove_file (fs s) entryPath\<rparr>))"

text \<open>Two lower-case hexadecimal digits per byte of the digest.\<close>

definition hex_digit :: "nat \<Rightarrow> char" where
  "hex_digit n = (if n < 10 then char_of (48 + n) else char_of (87 + n))"

definition computeSHA256Hash :: "('w, 'd, 'x) client_ext_scheme \<Rightarrow> string \<Rightarrow> string" where
  "computeSHA256Hash X txt =
     concat (map (\<lambda>b. [hex_digit (b div 16), hex_digit (b mod 16)]) (sha256 X txt))"

section \<open>Keys and paths\<close>

text \<open>The configured base directory ends in a slash, as in the repository's configuration.\<close>

definition base_ok :: "string \<Rightarrow> bool" where
  "base_ok base \<longleftrightarrow> base \<noteq> [] \<and> last base = CHR ''/''"

text \<open>A key of an entry below the base directory: \<open>dropbox/\<close> and a relative path.\<close>

definition entry_key :: "string \<Rightarrow> bool" where
  "entry_key k \<longleftrightarrow> (\<exists>p. k = ''dropbox/'' @ p \<and> p \<noteq> [] \<and> hd p \<noteq> CHR ''/'')"

lemma buildFullPath_entry:
  assumes "base_ok base" and "p \<noteq> []" and "hd p \<noteq> CHR ''/''"
  shows "buildFullPath base (''dropbox/'' @ p) = base @ p"
  using assms by (simp add: buildFullPath_def path_append_def base_ok_def)

lemma buildKey_base: "buildKeyfromFullPath base base = ''dropbox''"
  by (simp add: buildKeyfromFullPath_def)

lemma buildKey_entry:
  assumes "p \<noteq> []" shows "buildKeyfromFullPath base (base @ p) = ''dropbox/'' @ p"
  using assms by (simp add: buildKeyfromFullPath_def)

text \<open>With a base directory that ends in a slash, the key of the path of an entry is the entry's
  key and the path of its key is the path, so distinct entries have distinct paths; without the
  slash, the key made from the path of a key has a second slash and is another key.\<close>

lemma key_path_round_trip:
  assumes "entry_key k" and "base \<noteq> []"
  shows "if last base = CHR ''/''
    then buildKeyfromFullPath base (buildFullPath base k) = k \<and>
         (\<forall>k'. entry_key k' \<and> buildFullPath base k' = buildFullPath base k \<longrightarrow> k' = k)
    else buildKeyfromFullPath base (buildFullPath base k) = ''dropbox/'' @ drop 7 k \<and>
         buildKeyfromFullPath base (buildFullPath base k) \<noteq> k"
proof -
  from assms(1) obtain p where k: "k = ''dropbox/'' @ p" and p: "p \<noteq> []" "hd p \<noteq> CHR ''/''"
    by (auto simp: entry_key_def)
  show ?thesis
  proof (cases "last base = CHR ''/''")
    case True
    then have ok: "base_ok base" using assms(2) by (simp add: base_ok_def)
    have "buildKeyfromFullPath base (buildFullPath base k) = k"
      unfolding k buildFullPath_entry [OF ok p] by (rule buildKey_entry [OF p(1)])
    moreover have "k' = k" if "entry_key k'" "buildFullPath base k' = buildFullPath base k" for k'
    proof -
      from that(1) obtain r where r: "k' = ''dropbox/'' @ r" "r \<noteq> []" "hd r \<noteq> CHR ''/''"
        by (auto simp: entry_key_def)
      have "base @ r = base @ p"
        using that(2) unfolding k r(1) buildFullPath_entry [OF ok p] buildFullPath_entry [OF ok r(2,3)] .
      then show ?thesis unfolding k r(1) by simp
    qed
    ultimately show ?thesis using True by simp
  next
    case False
    then have "buildFullPath base k = base @ CHR ''/'' # p"
      using k p assms(2) by (simp add: buildFullPath_def path_append_def)
    with False k show ?thesis by (simp add: buildKeyfromFullPath_def)
  qed
qed

lemma key_path_round_trip_witness:
  "buildKeyfromFullPath ''/h/'' (buildFullPath ''/h/'' ''dropbox/d/f.txt'') = ''dropbox/d/f.txt'' \<and>
   buildKeyfromFullPath ''/h'' (buildFullPath ''/h'' ''dropbox/d/f.txt'') = ''dropbox//d/f.txt''"
proof -
  have "entry_key ''dropbox/d/f.txt''" by (simp add: entry_key_def)
  from key_path_round_trip [OF this, of "''/h/''"] key_path_round_trip [OF this, of "''/h''"]
  show ?thesis by simp
qed

section \<open>Files\<close>

text \<open>What the text operations promise for keys of text files.\<close>

definition text_key :: "string \<Rightarrow> bool" where
  "text_key k \<longleftrightarrow> path_extension k = ''.txt''"

text \<open>The text a key's file has, empty when there is none.\<close>

definition local_text :: "('w, 'd) client \<Rightarrow> string \<Rightarrow> string" where
  "local_text s k =
     (if text_key k then
        (case read_file (fs s) (buildFullPath (g_basePath s) k) of None \<Rightarrow> [] | Some c \<Rightarrow> c)
      else [])"

lemma readTextFile_local [simp]: "readTextFile k s = Ret (local_text s k) s"
  by (simp add: local_text_def readTextFile_def text_key_def)

lemma local_text_frame [simp]:
  "local_text (s\<lparr>cache_instance := c\<rparr>) k = local_text s k" "local_text (s\<lparr>web := w\<rparr>) k = local_text s k"
  "local_text (s\<lparr>db := h\<rparr>) k = local_text s k" "local_text (s\<lparr>token := tok\<rparr>) k = local_text s k"
  by (simp_all add: local_text_def)

text \<open>The file system after a text has been written: directories first, then the file.\<close>

definition made_parent :: "filesystem \<Rightarrow> string \<Rightarrow> bool \<times> filesystem" where
  "made_parent f p =
     (if fs_exists f (parent_path p) then (True, f) else create_directories f (parent_path p))"

definition written :: "filesystem \<Rightarrow> string \<Rightarrow> string \<Rightarrow> string \<Rightarrow> filesystem" where
  "written f base k c =
     (let p = buildFullPath base k in
      if \<not> text_key k then f
      else (case made_parent f p of
              (False, g) \<Rightarrow> g
            | (True, g) \<Rightarrow> (case write_file g p c of None \<Rightarrow> g | Some h \<Rightarrow> h)))"

text \<open>When the file's directory can be made and no directory is in the way, the text is written.\<close>

definition can_write :: "filesystem \<Rightarrow> string \<Rightarrow> string \<Rightarrow> bool" where
  "can_write f base k \<longleftrightarrow>
     text_key k \<and> fst (made_parent f (buildFullPath base k)) \<and>
     write_file (snd (made_parent f (buildFullPath base k))) (buildFullPath base k) [] \<noteq> None"

lemma createTextFile_run [simp]:
  "createTextFile k c s = Ret () (s\<lparr>fs := written (fs s) (g_basePath s) k c\<rparr>)"
  by (auto simp: createTextFile_def written_def made_parent_def text_key_def Let_def
           split: prod.split option.split)

lemma write_file_any: "write_file f p c = Some g \<Longrightarrow> \<exists>h. write_file f p c' = Some h"
  by (auto simp: write_file_def Let_def split: if_splits)

lemma can_writeE:
  assumes "can_write f base k"
  obtains g h where "made_parent f (buildFullPath base k) = (True, g)"
    and "write_file g (buildFullPath base k) c = Some h" and "written f base k c = h"
proof -
  obtain b g where g: "made_parent f (buildFullPath base k) = (b, g)"
    by (cases "made_parent f (buildFullPath base k)")
  with assms obtain h0 where b: "b" and "write_file g (buildFullPath base k) [] = Some h0" and t: "text_key k"
    by (auto simp: can_write_def)
  then obtain h where "write_file g (buildFullPath base k) c = Some h" using write_file_any by blast
  with g b t that show ?thesis by (simp add: written_def Let_def)
qed

lemma read_written:
  assumes "can_write f base k"
  shows "read_file (written f base k c) (buildFullPath base k) = Some c"
proof -
  obtain g h where "write_file g (buildFullPath base k) c = Some h" "written f base k c = h"
    using can_writeE [OF assms] .
  with read_after_write show ?thesis by simp
qed

lemma local_text_written:
  "can_write (fs s) (g_basePath s) k \<Longrightarrow>
     local_text (s\<lparr>fs := written (fs s) (g_basePath s) k c\<rparr>) k = c"
  by (simp add: local_text_def read_written) (simp add: can_write_def)

text \<open>Directories are only added on the way to the file.\<close>

lemma made_parent_keeps:
  assumes "made_parent f p = (True, g)"
  shows "node_at f q \<noteq> None \<Longrightarrow> node_at g q = node_at f q" and "fs_exists g (parent_path p)"
proof -
  show "node_at f q \<noteq> None \<Longrightarrow> node_at g q = node_at f q"
    using assms create_directories_spec(2) by (auto simp: made_parent_def split: if_splits)
  show "fs_exists g (parent_path p)"
    using assms create_directories_spec(1)
    by (auto simp: made_parent_def fs_exists_def fs_is_directory_def split: if_splits)
qed

lemma made_parent_reads:
  assumes "made_parent f p = (b, g)" shows "read_file g q = read_file f q"
  using assms by (auto simp: made_parent_def create_directories_reads split: if_splits)

lemma read_other_written:
  assumes "fpath_of q \<noteq> fpath_of (buildFullPath base k)"
  shows "read_file (written f base k c) q = read_file f q"
proof -
  let ?p = "buildFullPath base k"
  obtain b g where g: "made_parent f ?p = (b, g)" by (cases "made_parent f ?p")
  have "read_file h q = read_file g q" if "write_file g ?p c = Some h" for h
    using read_other_after_write [OF that assms] .
  with g made_parent_reads [OF g, of q] show ?thesis
    by (auto simp: written_def Let_def split: option.split bool.split)
qed

lemma butlast_same_iff: "butlast xs = xs \<longleftrightarrow> xs = []"
  by (induction xs) auto

lemma ensureDirectoryExists_run: "\<exists>b f. ensureDirectoryExists k s = Ret b (s\<lparr>fs := f\<rparr>)"
proof -
  have same: "\<exists>f. s = s\<lparr>fs := f\<rparr>" by (rule exI [of _ "fs s"]) simp
  show ?thesis using same by (auto simp: ensureDirectoryExists_def Let_def split: prod.split)
qed

lemma removeEntry_run: "\<exists>f. removeEntry k s = Ret () (s\<lparr>fs := f\<rparr>)"
proof -
  have same: "\<exists>f. s = s\<lparr>fs := f\<rparr>" by (rule exI [of _ "fs s"]) simp
  show ?thesis using same by (auto simp: removeEntry_def Let_def)
qed

lemma remove_all_exists:
  "fpath_of p = q \<Longrightarrow> snd q \<noteq> [] \<Longrightarrow> \<not> fs_exists (remove_all f p) p"
  by (simp add: remove_all_def fs_exists_def node_at_def below_def)

lemma removeEntry_removes:
  assumes "snd (fpath_of (buildFullPath (g_basePath s) k)) \<noteq> []"
  obtains f where "removeEntry k s = Ret () (s\<lparr>fs := f\<rparr>)"
    and "\<not> fs_exists f (buildFullPath (g_basePath s) k)"
proof -
  let ?p = "buildFullPath (g_basePath s) k"
  have same: "s\<lparr>fs := fs s\<rparr> = s" by simp
  show ?thesis
  proof (cases "fs_exists (fs s) ?p")
    case False
    then show ?thesis using same by (intro that [of "fs s"]) (simp_all add: removeEntry_def Let_def)
  next
    case True
    then show ?thesis
    proof (cases "fs_is_directory (fs s) ?p")
      case True
      then show ?thesis
        using \<open>fs_exists (fs s) ?p\<close> remove_all_exists [OF refl assms]
        by (intro that [of "remove_all (fs s) ?p"]) (simp_all add: removeEntry_def Let_def)
    next
      case False
      then show ?thesis
        using \<open>fs_exists (fs s) ?p\<close> assms
        by (intro that [of "remove_file (fs s) ?p"])
           (simp add: removeEntry_def Let_def, simp add: fs_exists_def node_at_def remove_file_def)
    qed
  qed
qed

end
