(* ===== verification/Login.thy ===== *)
theory Login
  imports Fs_Utils
begin

text \<open>
  The client's session with the service, \<open>src/CODE/src/client/login/login.cpp\<close>: reading the
  addresses and the user's name, signing up, logging in, and authenticated requests, which log in
  when there is no token and once more when the server rejects it.
\<close>

section \<open>Configuration of the session\<close>

definition config_address :: "string \<Rightarrow> string \<Rightarrow> json \<Rightarrow> string \<times> nat" where
  "config_address ip_key port_key j = (get_config_string ip_key j, get_config_short port_key j)"

definition handle_server_info :: "('w, 'd, 'x) client_ext_scheme \<Rightarrow> ('w, 'd, json) action" where
  "handle_server_info X =
     bind (config_load X ''config/server_config.json'') (\<lambda>server_info.
     seq (modify (\<lambda>s. s\<lparr>signup_lb := config_address ''signup_ip'' ''signup_port'' server_info,
                       login_lb := config_address ''login_ip'' ''login_port'' server_info,
                       meta_lb := config_address ''metaserver_ip'' ''metaserver_port'' server_info,
                       notification_lb :=
                         config_address ''notification_ip'' ''notification_port'' server_info\<rparr>)) (
     ret server_info))"

definition post ::
  "('w, 'd, 'x) client_ext_scheme \<Rightarrow> string \<times> nat \<Rightarrow> string \<Rightarrow> (string \<times> string) list \<Rightarrow> string \<Rightarrow>
     ('w, 'd, (int \<times> string) option) action" where
  "post X addr path headers body = on_web (call (http_post X (fst addr) (snd addr) path headers body))"

definition signup :: "('w, 'd, 'x) client_ext_scheme \<Rightarrow> string \<Rightarrow> string \<Rightarrow> ('w, 'd, bool) action" where
  "signup X user pass =
     bind (gets signup_lb) (\<lambda>addr.
     bind (lift_exn (dump X (obj [(''username'', JStr user), (''password'', JStr pass)]))) (\<lambda>payload.
     bind (post X addr ''/signup'' [] payload) (\<lambda>res.
       case res of
         None \<Rightarrow> ret False
       | Some (status, body) \<Rightarrow> ret (status = 200))))"

text \<open>
  The arguments after the program's name: none reads the stored name and password, two store them
  and sign up, any other number ends the program.
\<close>

definition handle_user_info ::
  "('w, 'd, 'x) client_ext_scheme \<Rightarrow> string list \<Rightarrow> json \<Rightarrow> string \<Rightarrow> ('w, 'd, json) action" where
  "handle_user_info X args user_info path =
     (case args of
        [] \<Rightarrow>
          bind (config_load X path) (\<lambda>info.
          let user = get_config_string ''username'' info in
          seq (modify (\<lambda>s. s\<lparr>username := user\<rparr>)) (
          if user = [] then exit_with 1
          else
            let pass = get_config_string ''password'' info in
            seq (modify (\<lambda>s. s\<lparr>password := pass\<rparr>)) (
            if pass = [] then exit_with 1 else ret info)))
      | [user, pass] \<Rightarrow>
          seq (modify (\<lambda>s. s\<lparr>username := user, password := pass\<rparr>)) (
          bind (lift_exn (set_key user_info ''username'' (JStr user))) (\<lambda>info1.
          bind (lift_exn (set_key info1 ''password'' (JStr pass))) (\<lambda>info2.
          bind (config_save X path info2) (\<lambda>saved.
          if \<not> saved then exit_with 1
          else
            bind (signup X user pass) (\<lambda>signup_result.
            if signup_result then ret info2 else exit_with 1)))))
      | _ \<Rightarrow> exit_with 1)"

section \<open>Requests\<close>

text \<open>A body that does not parse, or has no token, throws, as does the printing of the payload.\<close>

definition login :: "('w, 'd, 'x) client_ext_scheme \<Rightarrow> ('w, 'd, bool) action" where
  "login X =
     bind (gets login_lb) (\<lambda>addr.
     bind (gets (\<lambda>s. obj [(''userID'', JStr (username s)), (''password'', JStr (password s))])) (\<lambda>j.
     bind (lift_exn (dump X j)) (\<lambda>payload.
     bind (post X addr ''/login'' [] payload) (\<lambda>res.
       case res of
         None \<Rightarrow> ret False
       | Some (status, body) \<Rightarrow>
           if status = 200 then
             bind (lift_exn (parse X body)) (\<lambda>res_json.
             bind (lift_exn (subscript res_json ''token'')) (\<lambda>v.
             bind (lift_exn (get_string v)) (\<lambda>t.
             seq (modify (\<lambda>s. s\<lparr>token := t\<rparr>)) (ret True))))
           else ret False))))"

definition auth_headers :: "string \<Rightarrow> (string \<times> string) list" where
  "auth_headers t = [(''Authorization'', ''Bearer '' @ t), (''Content-Type'', ''application/json'')]"

text \<open>The response body, parsed once more when it is a string.\<close>

definition parse_body :: "('x) codec_scheme \<Rightarrow> string \<Rightarrow> exn + json" where
  "parse_body X body =
     (case parse X body of
        Inl e \<Rightarrow> Inl e
      | Inr (JStr t) \<Rightarrow> parse X t
      | Inr j \<Rightarrow> Inr j)"

definition send_authorized ::
  "('w, 'd, 'x) client_ext_scheme \<Rightarrow> string \<times> nat \<Rightarrow> string \<Rightarrow> json \<Rightarrow> ('w, 'd, (int \<times> string) option) action"
where
  "send_authorized X addr path payload =
     bind (gets token) (\<lambda>t.
     bind (lift_exn (dump X payload)) (\<lambda>body.
     post X addr path (auth_headers t) body))"

definition request_after_login ::
  "('w, 'd, 'x) client_ext_scheme \<Rightarrow> string \<times> nat \<Rightarrow> string \<Rightarrow> json \<Rightarrow> ('w, 'd, json) action" where
  "request_after_login X addr path payload =
     seq (ignore (login X)) (
     bind (send_authorized X addr path payload) (\<lambda>res.
       case res of
         None \<Rightarrow> ret JNull
       | Some (status, body) \<Rightarrow>
           if status = 200 then lift_exn (parse_body X body) else ret JNull))"

text \<open>
  The recursive call on status 403 runs with an empty token, so it takes the first branch, which
  does not call itself again.
\<close>

definition makeRequest ::
  "('w, 'd, 'x) client_ext_scheme \<Rightarrow> string \<times> nat \<Rightarrow> string \<Rightarrow> json \<Rightarrow> ('w, 'd, json) action" where
  "makeRequest X addr path payload0 =
     bind (gets device_id) (\<lambda>dev.
     bind (lift_exn (set_key payload0 ''device_id'' (JStr dev))) (\<lambda>payload.
     bind (gets token) (\<lambda>t.
     if t = [] then request_after_login X addr path payload
     else
       bind (send_authorized X addr path payload) (\<lambda>res.
         case res of
           None \<Rightarrow> ret JNull
         | Some (status, body) \<Rightarrow>
             if status = 200 then lift_exn (parse_body X body)
             else if status = 403 then
               seq (modify (\<lambda>s. s\<lparr>token := []\<rparr>)) (request_after_login X addr path payload)
             else ret JNull))))"

section \<open>Merging and desktop notifications\<close>

text \<open>
  \<open>src/CODE/src/client/merge/merge.cpp\<close>: whether libgit2 merged automatically, and the merged
  text, which is empty otherwise.  \<open>src/CODE/src/client/app_notify/app_notify.cpp\<close>.
\<close>

definition mergeCheck ::
  "('w, 'd, 'x) client_ext_scheme \<Rightarrow> string \<Rightarrow> string \<Rightarrow> string \<Rightarrow> bool \<times> string" where
  "mergeCheck X base local remote =
     (case git_merge X base local remote of
        (error, None) \<Rightarrow> (False, [])
      | (error, Some (txt, automergeable)) \<Rightarrow>
          if error \<noteq> 0 then (False, [])
          else if automergeable then (True, txt) else (False, []))"

definition send_notification ::
  "('w, 'd, 'x) client_ext_scheme \<Rightarrow> string \<Rightarrow> string \<Rightarrow> ('w, 'd, bool) action" where
  "send_notification X title message =
     bind (on_web (call (notify_init X))) (\<lambda>ok.
     if \<not> ok then ret False
     else
       bind (on_web (call (notify_show X title message))) (\<lambda>r.
       ret (\<not> (\<not> fst r \<and> snd r))))"

section \<open>What a request does\<close>

text \<open>Requests change the token and the outside world only.\<close>

definition same_local :: "('w, 'd) client \<Rightarrow> ('w, 'd) client \<Rightarrow> bool" where
  "same_local s t \<longleftrightarrow> (\<exists>w k. t = s\<lparr>web := w, token := k\<rparr>)"

lemma same_localE:
  assumes "same_local s t" obtains w k where "t = s\<lparr>web := w, token := k\<rparr>"
  using assms by (auto simp: same_local_def)

lemma same_local_refl: "same_local s s"
  unfolding same_local_def by (rule exI [of _ "web s"], rule exI [of _ "token s"]) simp

lemma same_local_fields:
  assumes "same_local s t"
  shows "fs t = fs s" "db t = db s" "cache_instance t = cache_instance s" "meta_lb t = meta_lb s"
    "username t = username s" "password t = password s" "device_id t = device_id s"
    "g_basePath t = g_basePath s" "g_user t = g_user s" "login_lb t = login_lb s"
  using assms by (auto elim: same_localE)

lemma same_local_web: "same_local s0 s \<Longrightarrow> same_local s0 (s\<lparr>web := w\<rparr>)"
  unfolding same_local_def by (elim exE, rule exI [of _ w], rule exI [of _ "token s"]) simp

lemma same_local_token: "same_local s0 s \<Longrightarrow> same_local s0 (s\<lparr>token := k\<rparr>)"
  unfolding same_local_def by (elim exE, rule exI [of _ "web s"], rule exI [of _ k]) simp

lemma answers_post [answers_intros]: "answers (same_local s0) (post X addr path hs body)"
  by (rule answersI) (auto simp: post_def on_web_def same_local_web split: prod.split)

lemma answers_send [answers_intros]: "answers (same_local s0) (send_authorized X addr path payload)"
  unfolding send_authorized_def by (intro answers_intros)

lemma answers_login [answers_intros]: "answers (same_local s0) (login X)"
  unfolding login_def
  by (intro answers_intros) (auto intro!: answers_intros same_local_token split: prod.split)

lemma answers_request_after_login [answers_intros]:
  "answers (same_local s0) (request_after_login X addr path payload)"
  unfolding request_after_login_def
  by (intro answers_intros) (auto intro!: answers_intros split: prod.split)

lemma answers_makeRequest [answers_intros]: "answers (same_local s0) (makeRequest X addr path payload)"
  unfolding makeRequest_def
  by (intro answers_intros) (auto intro!: answers_intros same_local_token split: prod.split)

text \<open>A request returns or throws, whatever the server answers, and changes nothing but the token and
  the outside world.\<close>

lemma makeRequest_cases:
  obtains (Ret) j t where "makeRequest X addr path payload s = Ret j t" and "same_local s t"
    | (Throw) e t where "makeRequest X addr path payload s = Throw e t" and "same_local s t"
  using answersE [OF answers_makeRequest same_local_refl] by metis

text \<open>C19: When the server rejects the token of a request with status 403, the client logs in and sends the
  request once more with the new token; what the server answers then is the result, parsed when the
  status is 200 and null otherwise, without a third attempt, and the client keeps the new token.\<close>

theorem rejected_token_is_renewed_once:
  assumes X: "codec_total X" and t: "token s \<noteq> []"
    and payload: "payload = JObj (fmupd ''device_id'' (JStr (device_id s)) m)"
    and first: "http_post X (fst addr) (snd addr) path (auth_headers (token s)) (text_of X payload) (web s)
        = (Some (403, b0), w1)"
    and relogin: "http_post X (fst (login_lb s)) (snd (login_lb s)) ''/login'' []
        (text_of X (obj [(''userID'', JStr (username s)), (''password'', JStr (password s))])) w1
        = (Some (200, lb), w2)"
    and body: "json_parse X lb = Some (JObj lm)" and new: "fmlookup lm ''token'' = Some (JStr t1)"
    and again: "http_post X (fst addr) (snd addr) path (auth_headers t1) (text_of X payload) w2 = (r, w3)"
  shows "makeRequest X addr path (JObj m) s =
    (let s3 = s\<lparr>web := w3, token := t1\<rparr> in
     case r of
       Some (status, b) \<Rightarrow>
         if status = 200 then (case parse_body X b of Inl e \<Rightarrow> Throw e s3 | Inr j \<Rightarrow> Ret j s3)
         else Ret JNull s3
     | None \<Rightarrow> Ret JNull s3)"
proof -
  note dump = dump_Some [OF codec_total_dump [OF X]]
  let ?s1 = "s\<lparr>web := w1, token := []\<rparr>"
  have send: "send_authorized X addr path payload s = Ret (Some (403, b0)) (s\<lparr>web := w1\<rparr>)"
    using first by (simp add: send_authorized_def post_def on_web_def dump)
  have log: "login X ?s1 = Ret True (s\<lparr>web := w2, token := t1\<rparr>)"
    using relogin body new by (simp add: login_def post_def on_web_def dump)
  have send2: "send_authorized X addr path payload (s\<lparr>web := w2, token := t1\<rparr>)
      = Ret r (s\<lparr>web := w3, token := t1\<rparr>)"
    using again by (simp add: send_authorized_def post_def on_web_def dump)
  have "makeRequest X addr path (JObj m) s = request_after_login X addr path payload ?s1"
    using t send payload by (simp add: makeRequest_def)
  then show ?thesis
    using log send2 by (simp add: request_after_login_def Let_def lift_exn_def split: option.split sum.split)
qed

definition renewing_ext :: "(unit, (string, string) fmap) client_ext" where
  "renewing_ext = toy_client_ext\<lparr>http_post := (\<lambda>_ _ path hs body w.
     (if path = ''/login'' then Some (200, enc (JObj (fmupd ''token'' (JStr ''t2'') fmempty)))
      else if hs = auth_headers ''t2'' then Some (200, enc (JBool True)) else Some (403, []), w))\<rparr>"

theorem rejected_token_is_renewed_once_witness:
  "makeRequest renewing_ext ([], 0) ''/delete'' (JObj fmempty) (toy_client fmempty)
   = Ret (JBool True) ((toy_client fmempty)\<lparr>token := ''t2''\<rparr>)"
proof -
  have X: "codec_total renewing_ext" by (rule toy_codec_total) (simp_all add: renewing_ext_def)
  have tok: "token (toy_client fmempty) = ''t''" "web (toy_client fmempty) = ()"
    by (simp_all add: toy_client_def)
  have post: "http_post renewing_ext a p ''/delete'' (auth_headers ''t'') b w = (Some (403, []), w)"
    "http_post renewing_ext a p ''/login'' hs b w = (Some (200, enc (JObj (fmupd ''token'' (JStr ''t2'') fmempty))), w)"
    "http_post renewing_ext a p ''/delete'' (auth_headers ''t2'') b w = (Some (200, enc (JBool True)), w)"
    for a p hs b w by (simp_all add: renewing_ext_def auth_headers_def)
  have j: "json_parse renewing_ext s = toy_parse s" for s by (simp add: renewing_ext_def)
  have pb: "parse_body renewing_ext (enc (JBool True)) = Inr (JBool True)"
    by (simp only: parse_body_def parse_def j toy_parse_enc) simp
  have pb': "parse_body renewing_ext ''t'' = Inr (JBool True)" using pb by simp
  have same: "(toy_client fmempty)\<lparr>web := (), token := ''t2''\<rparr> = (toy_client fmempty)\<lparr>token := ''t2''\<rparr>"
    by (simp add: toy_client_def)
  show ?thesis
    using rejected_token_is_renewed_once [OF X _ refl, of "toy_client fmempty" "([], 0)" "''/delete''"
        fmempty "[]" "()" "enc (JObj (fmupd ''token'' (JStr ''t2'') fmempty))" "()"
        "fmupd ''token'' (JStr ''t2'') fmempty" "''t2''" "Some (200, enc (JBool True))" "()"]
    by (simp only: tok post j toy_parse_enc pb' fst_conv snd_conv) (simp add: pb' same Let_def)
qed

end
