(* ===== verification/Server_Utils.thy ===== *)
theory Server_Utils
  imports Login Cache_Contract
begin

text \<open>
  The client's operations on the service, \<open>src/CODE/src/client/serverUtils/serverUtils.cpp\<close>:
  creating and deleting entries through the metadata server, the endpoints of a file (cached),
  uploading and fetching its text, and resolving a conflict.  \<open>uploadFile\<close> and
  \<open>Conflict\<close> call each other; the number bounds the depth of their calls.
\<close>

section \<open>Requests to the metadata server\<close>

definition generateConflictFilename :: "string \<Rightarrow> string \<Rightarrow> string" where
  "generateConflictFilename path device =
     (case rfind_sub ''.txt'' path of
        None \<Rightarrow> path @ ''$'' @ device @ ''_conflict$''
      | Some dotPos \<Rightarrow> take dotPos path @ ''$'' @ device @ ''_conflict$'' @ ''.txt'')"

text \<open>The defaults of the header: fifteen minutes, 4096 bytes.\<close>

definition initializeCache :: "('w, 'd, unit) action" where
  "initializeCache = modify (\<lambda>s. s\<lparr>cache_instance := Some (new_cache (15 * 60 * 1000) 4096)\<rparr>)"

text \<open>\<open>resp.dump(4)\<close> for the log.\<close>

definition log_json :: "('x) codec_scheme \<Rightarrow> json \<Rightarrow> ('s, unit) prog" where
  "log_json X j = (case json_pretty X j of None \<Rightarrow> throw Json_type_error | Some _ \<Rightarrow> ret ())"

definition path_payload :: "string \<Rightarrow> json" where
  "path_payload key = obj [(''path'', JStr key)]"

definition ask_meta ::
  "('w, 'd, 'x) client_ext_scheme \<Rightarrow> string \<Rightarrow> string \<Rightarrow> ('w, 'd, json) action" where
  "ask_meta X endpoint key =
     bind (gets meta_lb) (\<lambda>addr.
     bind (makeRequest X addr endpoint (path_payload key)) (\<lambda>resp.
     seq (if resp = JNull then ret () else log_json X resp) (ret resp)))"

definition createFile :: "('w, 'd, 'x) client_ext_scheme \<Rightarrow> string \<Rightarrow> ('w, 'd, json) action" where
  "createFile X file_key = ask_meta X ''/create-file'' file_key"

definition createDir :: "('w, 'd, 'x) client_ext_scheme \<Rightarrow> string \<Rightarrow> ('w, 'd, json) action" where
  "createDir X dir_key = ask_meta X ''/create-directory'' dir_key"

definition deleteFile_meta :: "('w, 'd, 'x) client_ext_scheme \<Rightarrow> string \<Rightarrow> ('w, 'd, bool) action" where
  "deleteFile_meta X file_key =
     bind (ask_meta X ''/delete'' file_key) (\<lambda>resp. ret (resp \<noteq> JNull))"

section \<open>Endpoints\<close>

definition cache_lookup :: "('w, 'd, 'x) client_ext_scheme \<Rightarrow> string \<Rightarrow> ('w, 'd, string list) action" where
  "cache_lookup X key =
     bind (gets cache_instance) (\<lambda>c.
       case c of
         None \<Rightarrow> undef
       | Some c \<Rightarrow>
           bind (gets (\<lambda>s. cache_get (steady_now X (web s)) key c)) (\<lambda>r.
           seq (modify (\<lambda>s. s\<lparr>cache_instance := Some (snd r)\<rparr>)) (ret (fst r))))"

definition cache_store ::
  "('w, 'd, 'x) client_ext_scheme \<Rightarrow> string \<Rightarrow> string list \<Rightarrow> ('w, 'd, unit) action" where
  "cache_store X key val =
     bind (gets cache_instance) (\<lambda>c.
       case c of
         None \<Rightarrow> undef
       | Some c \<Rightarrow>
           bind (gets (\<lambda>s. cache_set (steady_now X (web s)) key val 0 c)) (\<lambda>r.
             case r of
               None \<Rightarrow> (\<lambda>s. Diverge)
             | Some d \<Rightarrow> modify (\<lambda>s. s\<lparr>cache_instance := Some d\<rparr>)))"

definition endpoints_of :: "json \<Rightarrow> exn + string list" where
  "endpoints_of response =
     (if contains response ''endpoints'' then
        (case subscript response ''endpoints'' of
           Inl e \<Rightarrow> Inl e
         | Inr v \<Rightarrow> if is_array v then get_strings v else Inr [])
      else Inr [])"

definition getFileEndpoints ::
  "('w, 'd, 'x) client_ext_scheme \<Rightarrow> string \<Rightarrow> ('w, 'd, string list) action" where
  "getFileEndpoints X file_key =
     bind (cache_lookup X file_key) (\<lambda>cachedEndpoints.
     if cachedEndpoints \<noteq> [] then ret cachedEndpoints
     else
       bind (ask_meta X ''/get-file-endpoints'' file_key) (\<lambda>response.
       if response = JNull then ret []
       else
         bind (lift_exn (endpoints_of response)) (\<lambda>endpoints.
         if endpoints = [] then ret []
         else seq (cache_store X file_key endpoints) (ret endpoints))))"

section \<open>Fetching\<close>

text \<open>\<open>Conflict\<close>, \<open>uploadFile\<close> and \<open>fetchNewFile\<close> give up when there is no token.\<close>

definition obtain_token :: "('w, 'd, 'x) client_ext_scheme \<Rightarrow> ('w, 'd, bool) action" where
  "obtain_token X =
     bind (gets token) (\<lambda>t.
     if t \<noteq> [] then ret True
     else seq (ignore (login X)) (gets (\<lambda>s. token s \<noteq> [])))"

text \<open>The metadata of a text that has just been fetched or sent.\<close>

definition recorded ::
  "('w, 'd, 'x) client_ext_scheme \<Rightarrow> file_meta \<Rightarrow> string \<Rightarrow> string \<Rightarrow> file_meta" where
  "recorded X m txt ver =
     m\<lparr>file_content := txt, version := ver, content_hash := computeSHA256Hash X txt,
       fileSize := of_nat (length txt)\<rparr>"

text \<open>The stored object: text and version, when it has both; a member of another type throws.\<close>

definition remote_file :: "('x) codec_scheme \<Rightarrow> string \<Rightarrow> exn + (string \<times> string) option" where
  "remote_file X v =
     (case parse X v of
        Inl e \<Rightarrow> Inl e
      | Inr j \<Rightarrow>
          if contains j ''data'' \<and> contains j ''version_number'' then
            (case string_at j ''data'' of
               Inl e \<Rightarrow> Inl e
             | Inr txt \<Rightarrow>
                 (case string_at j ''version_number'' of
                    Inl e \<Rightarrow> Inl e
                  | Inr ver \<Rightarrow> Inr (Some (txt, ver))))
          else Inr None)"

text \<open>
  Endpoints, token and request: \<open>None\<close> when one of them fails or the object has not both members.
\<close>

definition download ::
  "('w, 'd, 'x) client_ext_scheme \<Rightarrow> string \<Rightarrow> ('w, 'd, (string \<times> string) option) action" where
  "download X file_key =
     bind (getFileEndpoints X file_key) (\<lambda>endpoints.
     if endpoints = [] then ret None
     else
       bind (obtain_token X) (\<lambda>ok.
       if \<not> ok then ret None
       else
         bind (gets token) (\<lambda>t.
         bind (on_web (getFile X endpoints file_key t)) (\<lambda>response.
         if resp_success response then lift_exn (remote_file X (resp_value response))
         else ret None))))"

definition fetchNewFile :: "('w, 'd, 'x) client_ext_scheme \<Rightarrow> string \<Rightarrow> ('w, 'd, bool) action" where
  "fetchNewFile X file_key =
     bind (download X file_key) (\<lambda>r.
       case r of
         None \<Rightarrow> ret False
       | Some (txt, ver) \<Rightarrow>
           seq (createTextFile file_key txt) (
           file_store X (recorded X (File_Metadata file_key) txt ver)))"

section \<open>Uploading and conflicts\<close>

text \<open>The version is a decimal number, incremented as an \<open>int\<close>.\<close>

definition next_version :: "string \<Rightarrow> ('s, string) prog" where
  "next_version ver =
     bind (lift_exn (stoi ver)) (\<lambda>i. if i = int_max then undef else ret (to_string (i + 1)))"

text \<open>
  A conflict that cannot be merged: the remote text takes the file's place, the local text goes to a
  file of its own, and both are recorded; then the copy is sent and the user told.
\<close>

definition keep_both ::
  "('w, 'd, 'x) client_ext_scheme \<Rightarrow> string \<Rightarrow> file_meta \<Rightarrow> string \<Rightarrow> string \<Rightarrow> string \<Rightarrow>
     ('w, 'd, string) action" where
  "keep_both X file_key fileMetadata local_file remote_txt remote_ver =
     seq (createTextFile file_key remote_txt) (
     bind (gets device_id) (\<lambda>dev.
     let conflict_filename = generateConflictFilename file_key dev in
     seq (createTextFile conflict_filename local_file) (
     seq (ignore (file_store X (recorded X fileMetadata remote_txt remote_ver))) (
     seq (ignore (addFileToDirectory X conflict_filename)) (
     seq (ignore (file_store X (recorded X (File_Metadata conflict_filename) local_file ''0''))) (
     ret conflict_filename))))))"

definition publish_conflict ::
  "('w, 'd, 'x) client_ext_scheme \<Rightarrow> string \<Rightarrow> string \<Rightarrow> ('w, 'd, bool) action \<Rightarrow>
     ('w, 'd, unit) action" where
  "publish_conflict X file_key conflict_filename upload =
     seq (ignore (createFile X conflict_filename)) (
     seq (ignore upload) (
     ignore (send_notification X ''DSS: Conflict Detected''
       (''A conflict was detected for the file: '' @ file_key @
        ''. A conflicted copy has been created at: '' @ conflict_filename))))"

text \<open>
  After an automatic merge the code fills the fields of its local object, which it neither stores
  nor passes on, and uploads the file with the version the record still has.
\<close>

fun uploadFile :: "nat \<Rightarrow> ('w, 'd, 'x) client_ext_scheme \<Rightarrow> string \<Rightarrow> ('w, 'd, bool) action"
  and Conflict :: "nat \<Rightarrow> ('w, 'd, 'x) client_ext_scheme \<Rightarrow> string \<Rightarrow> ('w, 'd, unit) action" where
  "uploadFile 0 X file_key = (\<lambda>s. Diverge)"
| "uploadFile (Suc n) X file_key =
     bind (file_load X (File_Metadata file_key)) (\<lambda>r.
       case r of
         None \<Rightarrow> ret False
       | Some fileMetadata \<Rightarrow>
           bind (getFileEndpoints X file_key) (\<lambda>endpoints.
           if endpoints = [] then ret False
           else
             bind (readTextFile file_key) (\<lambda>txt.
             bind (obtain_token X) (\<lambda>ok.
             if \<not> ok then ret False
             else
               bind (gets (\<lambda>s. (token s, device_id s))) (\<lambda>(t, dev).
               bind (on_web (setFile X endpoints file_key txt (version fileMetadata) t dev)) (\<lambda>response.
               if resp_success response then
                 bind (next_version (version fileMetadata)) (\<lambda>ver.
                 file_store X (recorded X fileMetadata txt ver))
               else seq (Conflict n X file_key) (ret False)))))))"
| "Conflict 0 X file_key = (\<lambda>s. Diverge)"
| "Conflict (Suc n) X file_key =
     bind (readTextFile file_key) (\<lambda>local_file.
     bind (download X file_key) (\<lambda>r.
       case r of
         None \<Rightarrow> ret ()
       | Some (remote_txt, remote_ver) \<Rightarrow>
           if local_file \<noteq> remote_txt then
             bind (file_load X (File_Metadata file_key)) (\<lambda>loaded.
             let fileMetadata = (case loaded of None \<Rightarrow> File_Metadata file_key | Some m \<Rightarrow> m) in
             (case mergeCheck X (file_content fileMetadata) local_file remote_txt of
                (True, merged) \<Rightarrow>
                  seq (createTextFile file_key merged) (ignore (uploadFile n X file_key))
              | (False, _) \<Rightarrow>
                  bind (keep_both X file_key fileMetadata local_file remote_txt remote_ver)
                    (\<lambda>conflict_filename.
                  publish_conflict X file_key conflict_filename (uploadFile n X conflict_filename))))
           else
             ignore (file_store X (recorded X (File_Metadata file_key) remote_txt remote_ver))))"

end
