(* ===== verification/Boot.thy ===== *)
theory Boot
  imports Server_Utils
begin

text \<open>
  Synchronisation at start-up, \<open>src/CODE/src/client/boot/boot.cpp\<close>: the record is brought in step
  with the monitored directory, then missing entries are fetched from the service and sent to it.  The
  first number bounds the depth of the directories, the second the calls of \<open>uploadFile\<close> and
  \<open>Conflict\<close>.
\<close>

section \<open>The record and the file system\<close>

text \<open>The entries of a directory as its iterator gives them: path and whether it is a directory.\<close>

definition dir_entries :: "('w, 'd, 'x) client_ext_scheme \<Rightarrow> filesystem \<Rightarrow> string \<Rightarrow> string list" where
  "dir_entries X f p = map (path_append p) (readdir X (child_names f p))"

definition is_regular_file :: "filesystem \<Rightarrow> string \<Rightarrow> bool" where
  "is_regular_file f p = (case node_at f (fpath_of p) of Some (File _) \<Rightarrow> p \<noteq> [] | _ \<Rightarrow> False)"

text \<open>\<open>key.find(".txt") != npos\<close>\<close>

definition names_txt :: "string \<Rightarrow> bool" where
  "names_txt k \<longleftrightarrow> find_sub ''.txt'' k \<noteq> None"

definition scan_prefix :: "string \<Rightarrow> string" where
  "scan_prefix key = key @ (if last key = CHR ''/'' then [] else ''/'')"

text \<open>Keys of the record directly below the directory that were not found in it are removed.\<close>

definition remove_stale ::
  "nat \<Rightarrow> ('w, 'd, 'x) client_ext_scheme \<Rightarrow> string \<Rightarrow> string list \<Rightarrow> ('w, 'd, unit) action" where
  "remove_stale n X directory_key present =
     bind (prefix_scan X (scan_prefix directory_key)) (\<lambda>keys.
     for_each keys (\<lambda>k.
       if k \<in> set present then ret ()
       else if names_txt k then ignore (removeFileFromDatabase X k)
       else ignore (removeDirectoryFromDatabase n X k)))"

definition sync_file :: "('w, 'd, 'x) client_ext_scheme \<Rightarrow> string \<Rightarrow> ('w, 'd, unit) action" where
  "sync_file X file_key =
     bind (file_load X (File_Metadata file_key)) (\<lambda>loaded.
       case loaded of
         Some _ \<Rightarrow> ret ()
       | None \<Rightarrow> ignore (file_store X (File_Metadata file_key)))"

text \<open>
  The iteration gives the files and directories found, in its order; \<open>None\<close> is an entry of
  another kind.  The file system does not change meanwhile.
\<close>

fun syncDir :: "nat \<Rightarrow> nat \<Rightarrow> ('w, 'd, 'x) client_ext_scheme \<Rightarrow> string \<Rightarrow> ('w, 'd, unit) action"
  and sync_entries :: "nat \<Rightarrow> nat \<Rightarrow> ('w, 'd, 'x) client_ext_scheme \<Rightarrow> string list \<Rightarrow>
      ('w, 'd, string list \<times> string list) action" where
  "syncDir 0 n X p = (\<lambda>s. Diverge)"
| "syncDir (Suc k) n X p =
     bind (gets (\<lambda>s. (fs s, g_basePath s))) (\<lambda>(f, base).
     if \<not> fs_is_directory f p then ret ()
     else
       let directory_key = buildKeyfromFullPath base p in
       bind (dir_load X (Directory_Metadata directory_key)) (\<lambda>loaded.
       let dm = (case loaded of None \<Rightarrow> Directory_Metadata directory_key | Some m \<Rightarrow> m) in
       bind (sync_entries k n X (dir_entries X f p)) (\<lambda>(fls, dirs).
       seq (ignore (dir_store X (dm\<lparr>files := fls, directories := dirs\<rparr>))) (
       remove_stale n X directory_key (fls @ dirs)))))"
| "sync_entries k n X [] = ret ([], [])"
| "sync_entries k n X (e # es) =
     bind (gets (\<lambda>s. (fs s, g_basePath s))) (\<lambda>(f, base).
     if is_regular_file f e \<and> path_extension e = ''.txt'' then
       (let file_key = buildKeyfromFullPath base e in
        seq (sync_file X file_key) (
        bind (sync_entries k n X es) (\<lambda>(fls, dirs). ret (file_key # fls, dirs))))
     else if fs_is_directory f e then
       (let dir_key = buildKeyfromFullPath base e in
        seq (syncDir k n X e) (
        bind (sync_entries k n X es) (\<lambda>(fls, dirs). ret (fls, dir_key # dirs))))
     else sync_entries k n X es)"

definition localSync :: "nat \<Rightarrow> nat \<Rightarrow> ('w, 'd, 'x) client_ext_scheme \<Rightarrow> ('w, 'd, unit) action" where
  "localSync k n X = bind (gets g_basePath) (\<lambda>base. syncDir k n X base)"

section \<open>Sending to the service\<close>

text \<open>The strings of a member; nothing when it is missing.\<close>

definition listed :: "json \<Rightarrow> string \<Rightarrow> exn + string list" where
  "listed resp k =
     (if contains resp k then
        (case subscript resp k of Inl e \<Rightarrow> Inl e | Inr v \<Rightarrow> get_string_list (elements v))
      else Inr [])"

definition send_file :: "nat \<Rightarrow> ('w, 'd, 'x) client_ext_scheme \<Rightarrow> string \<Rightarrow> ('w, 'd, unit) action" where
  "send_file n X k = seq (ignore (createFile X k)) (ignore (uploadFile n X k))"

primrec sendDirRecursively ::
  "nat \<Rightarrow> nat \<Rightarrow> ('w, 'd, 'x) client_ext_scheme \<Rightarrow> string \<Rightarrow> ('w, 'd, unit) action" where
  "sendDirRecursively 0 n X dir_key = (\<lambda>s. Diverge)"
| "sendDirRecursively (Suc k) n X dir_key =
     seq (ignore (createDir X dir_key)) (
     bind (dir_load X (Directory_Metadata dir_key)) (\<lambda>loaded.
       case loaded of
         None \<Rightarrow> ret ()
       | Some dm \<Rightarrow>
           seq (for_each (files dm) (send_file n X)) (
           for_each (directories dm) (sendDirRecursively k n X))))"

primrec localToRemoteDirCheck ::
  "nat \<Rightarrow> nat \<Rightarrow> ('w, 'd, 'x) client_ext_scheme \<Rightarrow> string \<Rightarrow> ('w, 'd, unit) action" where
  "localToRemoteDirCheck 0 n X dir_key = (\<lambda>s. Diverge)"
| "localToRemoteDirCheck (Suc k) n X dir_key =
     bind (ask_meta X ''/list-directory'' dir_key) (\<lambda>resp.
     if resp = JNull then ret ()
     else
       bind (lift_exn (listed resp ''subdirectories'')) (\<lambda>subdirectories.
       bind (lift_exn (listed resp ''files'')) (\<lambda>remote_files.
       bind (dir_load X (Directory_Metadata dir_key)) (\<lambda>loaded.
         case loaded of
           None \<Rightarrow> ret ()
         | Some dm \<Rightarrow>
             seq (for_each (files dm) (\<lambda>f.
                    if f \<in> set remote_files then ret () else send_file n X f)) (
             for_each (directories dm) (\<lambda>d.
               if d \<in> set subdirectories then localToRemoteDirCheck k n X d
               else sendDirRecursively k n X d))))))"

text \<open>The key of the base directory, without its last character when that is a slash.\<close>

definition base_key :: "string \<Rightarrow> string" where
  "base_key base =
     (let k = buildKeyfromFullPath base base in if last k = CHR ''/'' then butlast k else k)"

definition localToRemote :: "nat \<Rightarrow> nat \<Rightarrow> ('w, 'd, 'x) client_ext_scheme \<Rightarrow> ('w, 'd, unit) action" where
  "localToRemote k n X = bind (gets g_basePath) (\<lambda>base. localToRemoteDirCheck k n X (base_key base))"

section \<open>Fetching from the service\<close>

text \<open>
  The conversion of each key happens in the loop, so an element that is not a string throws after the
  keys before it have been dealt with.
\<close>

definition for_each_key ::
  "json \<Rightarrow> string \<Rightarrow> (string \<Rightarrow> ('s, unit) prog) \<Rightarrow> ('s, unit) prog" where
  "for_each_key resp member body =
     (if contains resp member then
        bind (lift_exn (subscript resp member)) (\<lambda>v.
        for_each (elements v) (\<lambda>j. bind (lift_exn (get_string j)) body))
      else ret ())"

text \<open>
  The listings the directory had before are kept and the remote keys appended to them.  The keys are
  appended while they are fetched; an exception on the way leaves the record unchanged, since the
  object is only stored at the end.
\<close>

primrec fetchDirRecursively ::
  "nat \<Rightarrow> ('w, 'd, 'x) client_ext_scheme \<Rightarrow> string \<Rightarrow> ('w, 'd, unit) action" where
  "fetchDirRecursively 0 X dir_key = (\<lambda>s. Diverge)"
| "fetchDirRecursively (Suc k) X dir_key =
     bind (dir_load X (Directory_Metadata dir_key)) (\<lambda>loaded.
     let dm = (case loaded of None \<Rightarrow> Directory_Metadata dir_key | Some m \<Rightarrow> m) in
     bind (ask_meta X ''/list-directory'' dir_key) (\<lambda>resp.
     if resp = JNull then ret ()
     else
       seq (ignore (ensureDirectoryExists dir_key)) (
       seq (for_each_key resp ''files'' (\<lambda>f. ignore (fetchNewFile X f))) (
       seq (for_each_key resp ''subdirectories'' (\<lambda>d. fetchDirRecursively k X d)) (
       bind (lift_exn (listed resp ''files'')) (\<lambda>fls.
       bind (lift_exn (listed resp ''subdirectories'')) (\<lambda>dirs.
       ignore (dir_store X (dm\<lparr>files := files dm @ fls,
                               directories := directories dm @ dirs\<rparr>)))))))))"

primrec RemoteToLocalDirCheck ::
  "nat \<Rightarrow> nat \<Rightarrow> ('w, 'd, 'x) client_ext_scheme \<Rightarrow> string \<Rightarrow> ('w, 'd, unit) action" where
  "RemoteToLocalDirCheck 0 n X dir_key = (\<lambda>s. Diverge)"
| "RemoteToLocalDirCheck (Suc k) n X dir_key =
     bind (dir_load X (Directory_Metadata dir_key)) (\<lambda>loaded.
       case loaded of
         None \<Rightarrow> ret ()
       | Some dm \<Rightarrow>
           bind (ask_meta X ''/list-directory'' dir_key) (\<lambda>resp.
           if resp = JNull then ret ()
           else
             seq (for_each_key resp ''files'' (\<lambda>f.
                    if f \<notin> set (files dm) then ignore (fetchNewFile X f) else Conflict n X f)) (
             for_each_key resp ''subdirectories'' (\<lambda>d.
               if d \<notin> set (directories dm) then fetchDirRecursively k X d
               else RemoteToLocalDirCheck k n X d))))"

definition RemoteToLocal :: "nat \<Rightarrow> nat \<Rightarrow> ('w, 'd, 'x) client_ext_scheme \<Rightarrow> ('w, 'd, unit) action" where
  "RemoteToLocal k n X = bind (gets g_basePath) (\<lambda>base. RemoteToLocalDirCheck k n X (base_key base))"

end
