(* ===== verification/Watcher.thy ===== *)
theory Watcher
  imports Filesystem
begin

text \<open>
  The directory watcher, \<open>src/CODE/src/client/watcher/watcher.cpp\<close>: inotify events become
  file events in a queue shared with the thread that processes them.  A set beside the queue keeps an
  event that is already queued from being queued twice.  inotify is a parameter: the descriptor a new
  watch gets.  The watcher's own state is a snapshot of the paths below the watched directory, the
  directory of each descriptor and the directories that are on the move.
\<close>

section \<open>Events\<close>

datatype event_type = Created | Deleted | Modified | MovedFrom | MovedTo | Other

datatype file_type = FileT | DirectoryT | UnknownT

record file_event =
  eventType :: event_type
  path :: string
  fileType :: file_type

abbreviation mk_event :: "event_type \<Rightarrow> string \<Rightarrow> file_type \<Rightarrow> file_event" where
  "mk_event e p t \<equiv> \<lparr>eventType = e, path = p, fileType = t\<rparr>"

text \<open>The order of the enumerations is that of their declarations.\<close>

definition event_rank :: "event_type \<Rightarrow> nat" where
  "event_rank e = (case e of Created \<Rightarrow> 0 | Deleted \<Rightarrow> 1 | Modified \<Rightarrow> 2 | MovedFrom \<Rightarrow> 3
                           | MovedTo \<Rightarrow> 4 | Other \<Rightarrow> 5)"

definition file_rank :: "file_type \<Rightarrow> nat" where
  "file_rank t = (case t of FileT \<Rightarrow> 0 | DirectoryT \<Rightarrow> 1 | UnknownT \<Rightarrow> 2)"

lemma event_rank_inj [simp]: "event_rank a = event_rank b \<longleftrightarrow> a = b"
  by (cases a; cases b) (simp_all add: event_rank_def)

lemma file_rank_inj [simp]: "file_rank a = file_rank b \<longleftrightarrow> a = b"
  by (cases a; cases b) (simp_all add: file_rank_def)

instantiation event_type :: linorder
begin
definition less_eq_event_type :: "event_type \<Rightarrow> event_type \<Rightarrow> bool" where
  "a \<le> b \<longleftrightarrow> event_rank a \<le> event_rank b"
definition less_event_type :: "event_type \<Rightarrow> event_type \<Rightarrow> bool" where
  "a < b \<longleftrightarrow> event_rank a < event_rank b"
instance
proof
  fix x y :: event_type
  show "x \<le> y \<Longrightarrow> y \<le> x \<Longrightarrow> x = y"
    unfolding less_eq_event_type_def using event_rank_inj by (blast intro: order_antisym)
qed (auto simp: less_eq_event_type_def less_event_type_def)
end

instantiation file_type :: linorder
begin
definition less_eq_file_type :: "file_type \<Rightarrow> file_type \<Rightarrow> bool" where
  "a \<le> b \<longleftrightarrow> file_rank a \<le> file_rank b"
definition less_file_type :: "file_type \<Rightarrow> file_type \<Rightarrow> bool" where
  "a < b \<longleftrightarrow> file_rank a < file_rank b"
instance
proof
  fix x y :: file_type
  show "x \<le> y \<Longrightarrow> y \<le> x \<Longrightarrow> x = y"
    unfolding less_eq_file_type_def using file_rank_inj by (blast intro: order_antisym)
qed (auto simp: less_eq_file_type_def less_file_type_def)
end

text \<open>\<open>operator<\<close> of \<open>FileEvent\<close>: by type, path, kind.\<close>

definition event_less :: "file_event \<Rightarrow> file_event \<Rightarrow> bool" where
  "event_less a b \<longleftrightarrow>
     eventType a < eventType b \<or>
     eventType a = eventType b \<and>
       (path a < path b \<or> path a = path b \<and> fileType a < fileType b)"

text \<open>
  Two events of which neither is less than the other are the same event, so the ordered set of the
  code holds an event exactly when it has been inserted.
\<close>

lemma event_equivalent:
  "\<not> event_less a b \<Longrightarrow> \<not> event_less b a \<Longrightarrow> a = (b :: file_event)"
  by (auto simp: event_less_def not_less)

section \<open>The queue shared with the processing thread\<close>

record event_queue =
  queue :: "file_event list"
  event_map :: "file_event set"

definition push_event :: "file_event \<Rightarrow> event_queue \<Rightarrow> event_queue" where
  "push_event e q =
     (if e \<in> event_map q then q
      else q\<lparr>queue := queue q @ [e], event_map := insert e (event_map q)\<rparr>)"

definition pop_event :: "event_queue \<Rightarrow> (file_event \<times> event_queue) option" where
  "pop_event q =
     (case queue q of
        [] \<Rightarrow> None
      | e # es \<Rightarrow> Some (e, q\<lparr>queue := es, event_map := event_map q - {e}\<rparr>))"

section \<open>The watcher's state\<close>

record watcher =
  events :: event_queue
  snapshot :: "string fset"
  wd_to_path :: "int \<rightharpoonup> string"
  move_cookie_map :: "nat \<rightharpoonup> string"

text \<open>
  One \<open>struct inotify_event\<close>: the descriptor, the bits of the mask the code looks at, the cookie
  and the name (empty when its length is 0).
\<close>

record inotify_event =
  wd :: int
  in_create :: bool
  in_delete :: bool
  in_modify :: bool
  in_moved_from :: bool
  in_moved_to :: bool
  in_isdir :: bool
  cookie :: nat
  ev_name :: string

text \<open>
  \<open>inotify_add_watch\<close> gives the descriptor of a path, -1 when it fails; \<open>iterate\<close> is the
  order in which a directory tree is iterated, \<open>None\<close> when that throws; \<open>scan\<close> is the order
  in which an unordered set is iterated.
\<close>

record watch_ext =
  inotify_init :: bool
  inotify_add_watch :: "string \<Rightarrow> int"
  iterate :: "string list \<Rightarrow> string list option"
  scan :: "string fset \<Rightarrow> string list"

definition scan_ok :: "'x watch_ext_scheme \<Rightarrow> bool" where
  "scan_ok X \<longleftrightarrow> (\<forall>S. set (scan X S) = fset S \<and> distinct (scan X S))"

section \<open>Helpers\<close>

definition with_sep :: "string \<Rightarrow> string" where
  "with_sep base = (if last base \<noteq> CHR ''/'' then base @ ''/'' else base)"

definition is_descendant :: "string \<Rightarrow> string \<Rightarrow> bool" where
  "is_descendant base p \<longleftrightarrow> base = p \<or> prefix (with_sep base) p"

definition get_snapshot_entries :: "'x watch_ext_scheme \<Rightarrow> string fset \<Rightarrow> string \<Rightarrow> string list" where
  "get_snapshot_entries X snap base = filter (is_descendant base) (scan X snap)"

definition path_depth :: "string \<Rightarrow> nat" where
  "path_depth p = count_list p CHR ''/''"

text \<open>The paths below a directory of the file system, and a recursive iteration over them.\<close>

definition descendants :: "filesystem \<Rightarrow> string \<Rightarrow> string list" where
  "descendants f root =
     (let q = fpath_of root in
      map (\<lambda>ws. foldl path_append root (drop (length (snd q)) ws))
        (sorted_list_of_fset (snd |`|
           ffilter (\<lambda>r. fst r = fst q \<and> strict_prefix (snd q) (snd r)) (fmdom f))))"

definition recursive_iteration :: "'x watch_ext_scheme \<Rightarrow> filesystem \<Rightarrow> string \<Rightarrow> string list option" where
  "recursive_iteration X f root =
     (if fs_is_directory f root then iterate X (descendants f root) else None)"

definition kind_of :: "filesystem \<Rightarrow> string \<Rightarrow> file_type" where
  "kind_of f p = (if fs_is_directory f p then DirectoryT else FileT)"

definition init_snapshot :: "'x watch_ext_scheme \<Rightarrow> filesystem \<Rightarrow> string \<Rightarrow> string fset" where
  "init_snapshot X f root =
     (case recursive_iteration X f root of
        None \<Rightarrow> {|root|}
      | Some ps \<Rightarrow> finsert root (fset_of_list ps))"

definition add_watch :: "'x watch_ext_scheme \<Rightarrow> string \<Rightarrow> watcher \<Rightarrow> watcher" where
  "add_watch X p w =
     (let d = inotify_add_watch X p in
      if d \<noteq> -1 then w\<lparr>wd_to_path := (wd_to_path w)(d \<mapsto> p)\<rparr> else w)"

definition report :: "file_event \<Rightarrow> watcher \<Rightarrow> watcher" where
  "report e w = w\<lparr>events := push_event e (events w)\<rparr>"

definition forget :: "string \<Rightarrow> watcher \<Rightarrow> watcher" where
  "forget p w = w\<lparr>snapshot := snapshot w |-| {|p|}\<rparr>"

definition remember :: "string \<Rightarrow> watcher \<Rightarrow> watcher" where
  "remember p w = w\<lparr>snapshot := finsert p (snapshot w)\<rparr>"

section \<open>Handling one event\<close>

text \<open>
  A deleted directory: every path of the snapshot at or below it is reported, with the kind the
  file system gives for it at that moment.
\<close>

definition on_delete :: "'x watch_ext_scheme \<Rightarrow> filesystem \<Rightarrow> bool \<Rightarrow> string \<Rightarrow> watcher \<Rightarrow> watcher" where
  "on_delete X f isdir p w =
     (if isdir then
        fold (\<lambda>q v. forget q (report (mk_event Deleted q (kind_of f q)) v))
          (get_snapshot_entries X (snapshot w) p) w
      else forget p w)"

definition on_moved_from_dir ::
  "'x watch_ext_scheme \<Rightarrow> filesystem \<Rightarrow> string \<Rightarrow> nat \<Rightarrow> watcher \<Rightarrow> watcher" where
  "on_moved_from_dir X f p ck w =
     (let allEntries = get_snapshot_entries X (snapshot w) p;
          w1 = fold forget allEntries w;
          children = sort_key (\<lambda>c. - int (path_depth c)) (filter (\<lambda>q. q \<noteq> p) allEntries);
          w2 = fold (\<lambda>c. report (mk_event MovedFrom c (kind_of f c))) children w1;
          w3 = (if p \<in> set allEntries then report (mk_event MovedFrom p DirectoryT) w2 else w2)
      in w3\<lparr>move_cookie_map := (move_cookie_map w3)(ck \<mapsto> p)\<rparr>)"

text \<open>The path of a watch at or below a directory that moved.\<close>

definition moved_path :: "string \<Rightarrow> string \<Rightarrow> string \<Rightarrow> string" where
  "moved_path old_path new_path p =
     (if p = old_path then new_path
      else if length p > length old_path \<and> prefix old_path p \<and> p ! length old_path = CHR ''/''
      then new_path @ drop (length old_path) p
      else p)"

definition on_moved_to_dir ::
  "'x watch_ext_scheme \<Rightarrow> filesystem \<Rightarrow> string \<Rightarrow> string \<Rightarrow> nat \<Rightarrow> watcher \<Rightarrow> watcher" where
  "on_moved_to_dir X f old_path new_path ck w =
     (let w1 = w\<lparr>wd_to_path := map_option (moved_path old_path new_path) \<circ> wd_to_path w\<rparr>;
          w2 = report (mk_event MovedTo new_path DirectoryT) w1;
          w3 = (case recursive_iteration X f new_path of
                  None \<Rightarrow> w2
                | Some ps \<Rightarrow>
                    fold (\<lambda>p v. report (mk_event MovedTo p (kind_of f p)) (remember p v)) ps w2)
      in w3\<lparr>move_cookie_map := (move_cookie_map w3)(ck := None)\<rparr>)"

definition report_generic :: "event_type \<Rightarrow> string \<Rightarrow> file_type \<Rightarrow> watcher \<Rightarrow> watcher" where
  "report_generic e p t w =
     (if \<not> (t = FileT \<and> path_extension p \<noteq> ''.txt'') then
        (if e \<noteq> Other then report (mk_event e p t) w else w)
      else w)"

text \<open>
  One event, under the mutex.  The subscript on \<open>wd_to_path\<close> adds an empty path for an unknown
  descriptor.
\<close>

definition handle_event ::
  "'x watch_ext_scheme \<Rightarrow> filesystem \<Rightarrow> inotify_event \<Rightarrow> watcher \<Rightarrow> watcher" where
  "handle_event X f ev w0 =
     (let dir = (case wd_to_path w0 (wd ev) of None \<Rightarrow> [] | Some d \<Rightarrow> d);
          w = w0\<lparr>wd_to_path := (wd_to_path w0)(wd ev \<mapsto> dir)\<rparr>;
          pathStr = path_append dir (ev_name ev);
          t = (if in_isdir ev then DirectoryT else FileT)
      in
      if in_create ev then
        (let w1 = remember pathStr w;
             w2 = (if in_isdir ev then add_watch X pathStr w1 else w1)
         in report_generic Created pathStr t w2)
      else if in_delete ev then
        report_generic Deleted pathStr t (on_delete X f (in_isdir ev) pathStr w)
      else if in_modify ev then report_generic Modified pathStr t w
      else if in_moved_from ev then
        (if in_isdir ev \<and> cookie ev \<noteq> 0 then
           report_generic MovedFrom pathStr t (on_moved_from_dir X f pathStr (cookie ev) w)
         else
           report_generic MovedFrom pathStr t
             (report (mk_event MovedFrom pathStr t) (forget pathStr w)))
      else if in_moved_to ev then
        (if in_isdir ev \<and> cookie ev \<noteq> 0 \<and> move_cookie_map w (cookie ev) \<noteq> None then
           on_moved_to_dir X f (the (move_cookie_map w (cookie ev))) pathStr (cookie ev) w
         else
           (let w1 = remember pathStr w;
                w2 = (if in_isdir ev then add_watch X pathStr w1 else w1)
            in report_generic MovedTo pathStr t w2))
      else w)"

section \<open>The thread\<close>

text \<open>\<open>None\<close>: inotify or the first iteration fails, and the function returns.\<close>

definition watch_start :: "'x watch_ext_scheme \<Rightarrow> filesystem \<Rightarrow> string \<Rightarrow> event_queue \<Rightarrow> watcher option" where
  "watch_start X f root q =
     (if \<not> inotify_init X then None
      else
        (case recursive_iteration X f root of
           None \<Rightarrow> None
         | Some ps \<Rightarrow>
             Some (fold (add_watch X) (root # filter (fs_is_directory f) ps)
               \<lparr>events = q, snapshot = init_snapshot X f root, wd_to_path = Map.empty,
                move_cookie_map = Map.empty\<rparr>)))"

datatype read_result = Read_again | Read_failed | Read_events "inotify_event list"

definition watch_turn ::
  "'x watch_ext_scheme \<Rightarrow> filesystem \<Rightarrow> read_result \<Rightarrow> watcher \<Rightarrow> watcher option" where
  "watch_turn X f r w =
     (case r of
        Read_again \<Rightarrow> Some w
      | Read_failed \<Rightarrow> None
      | Read_events evs \<Rightarrow> Some (fold (handle_event X f) evs w))"

end
