(* ===== verification/Process_Local.thy ===== *)
theory Process_Local
  imports Server_Utils Watcher
begin

text \<open>
  The thread that processes local file events, \<open>src/CODE/src/client/process_local/process_local.cpp\<close>:
  each event taken from the watcher's queue becomes operations on the record and on the service.  The
  number is the bound on the calls of \<open>uploadFile\<close> and \<open>Conflict\<close> and on the depth of a directory.
\<close>

definition delete_event ::
  "nat \<Rightarrow> ('w, 'd, 'x) client_ext_scheme \<Rightarrow> string \<Rightarrow> file_type \<Rightarrow> ('w, 'd, unit) action" where
  "delete_event n X p filetype =
     (case filetype of
        FileT \<Rightarrow>
          seq (ignore (removeFileFromDatabase X p)) (
          seq (ignore (removeFileFromDirectory X p)) (
          ignore (deleteFile_meta X p)))
      | DirectoryT \<Rightarrow>
          seq (ignore (removeDirectoryFromDatabase n X p)) (
          seq (ignore (removeDirectoryFromDirectory X p)) (
          ignore (deleteFile_meta X p)))
      | UnknownT \<Rightarrow> ret ())"

definition create_file_local :: "nat \<Rightarrow> ('w, 'd, 'x) client_ext_scheme \<Rightarrow> string \<Rightarrow> ('w, 'd, unit) action" where
  "create_file_local n X p =
     bind (file_load X (File_Metadata p)) (\<lambda>loaded.
     seq (case loaded of
            Some _ \<Rightarrow> ret ()
          | None \<Rightarrow> ignore (file_store X (File_Metadata p))) (
     seq (ignore (addFileToDirectory X p)) (
     seq (ignore (createFile X p)) (
     ignore (uploadFile n X p)))))"

definition create_directory_local :: "('w, 'd, 'x) client_ext_scheme \<Rightarrow> string \<Rightarrow> ('w, 'd, unit) action" where
  "create_directory_local X p =
     bind (dir_load X (Directory_Metadata p)) (\<lambda>loaded.
     case loaded of
       Some _ \<Rightarrow> ret ()
     | None \<Rightarrow>
         seq (ignore (addDirectoryToDirectory X p)) (
         seq (ignore (createDir X p)) (
         ignore (dir_store X (Directory_Metadata p)))))"

definition file_modified :: "nat \<Rightarrow> ('w, 'd, 'x) client_ext_scheme \<Rightarrow> string \<Rightarrow> ('w, 'd, unit) action" where
  "file_modified n X p =
     bind (readTextFile p) (\<lambda>fileContent.
     bind (file_load X (File_Metadata p)) (\<lambda>loaded.
     case loaded of
       None \<Rightarrow> ret ()
     | Some fileMetadata \<Rightarrow>
         if content_hash fileMetadata = computeSHA256Hash X fileContent then ret ()
         else ignore (uploadFile n X p)))"

definition process_event_local ::
  "nat \<Rightarrow> ('w, 'd, 'x) client_ext_scheme \<Rightarrow> file_event \<Rightarrow> ('w, 'd, unit) action" where
  "process_event_local n X event =
     (if fileType event = FileT \<and> path_extension (path event) \<noteq> ''.txt'' then ret ()
      else
        bind (gets (\<lambda>s. buildKeyfromFullPath (g_basePath s) (path event))) (\<lambda>key.
        case eventType event of
          Created \<Rightarrow>
            (case fileType event of
               FileT \<Rightarrow> create_file_local n X key
             | DirectoryT \<Rightarrow> create_directory_local X key
             | UnknownT \<Rightarrow> ret ())
        | MovedTo \<Rightarrow>
            (case fileType event of
               FileT \<Rightarrow> create_file_local n X key
             | DirectoryT \<Rightarrow> create_directory_local X key
             | UnknownT \<Rightarrow> ret ())
        | Modified \<Rightarrow> file_modified n X key
        | MovedFrom \<Rightarrow> delete_event n X key (fileType event)
        | Deleted \<Rightarrow> delete_event n X key (fileType event)
        | Other \<Rightarrow> ret ()))"

text \<open>
  The client's threads share the queue of events; the loop takes the events that are queued, one by
  one.  It holds the queue's mutex while it works, so no event is added meanwhile.
\<close>

record ('w, 'd) local_client =
  client_state :: "('w, 'd) client"
  pending :: event_queue

definition on_client :: "('w, 'd, 'a) action \<Rightarrow> (('w, 'd) local_client, 'a) prog" where
  "on_client m = zoom client_state (\<lambda>t s. s\<lparr>client_state := t\<rparr>) m"

definition take_event :: "(('w, 'd) local_client, file_event option) prog" where
  "take_event = call (\<lambda>s.
     case pop_event (pending s) of
       None \<Rightarrow> (None, s)
     | Some (e, q) \<Rightarrow> (Some e, s\<lparr>pending := q\<rparr>))"

primrec drain_events ::
  "nat \<Rightarrow> nat \<Rightarrow> ('w, 'd, 'x) client_ext_scheme \<Rightarrow> (('w, 'd) local_client, unit) prog" where
  "drain_events 0 n X = ret ()"
| "drain_events (Suc k) n X =
     bind take_event (\<lambda>r.
       case r of
         None \<Rightarrow> ret ()
       | Some event \<Rightarrow> seq (on_client (process_event_local n X event)) (drain_events k n X))"

text \<open>One turn of the endless loop, after the wait: everything that is queued is processed.\<close>

definition process_local_events ::
  "nat \<Rightarrow> ('w, 'd, 'x) client_ext_scheme \<Rightarrow> (('w, 'd) local_client, unit) prog" where
  "process_local_events n X = (\<lambda>s. drain_events (length (queue (pending s))) n X s)"

end
