(* ===== verification/Process_Remote.thy ===== *)
theory Process_Remote
  imports Server_Utils
begin

text \<open>
  The thread that processes notifications, \<open>src/CODE/src/client/process_remote/process_remote.cpp\<close>,
  and the client that polls for them, \<open>src/CODE/src/client/notification/notification.cpp\<close>.
\<close>

section \<open>Processing a notification\<close>

text \<open>
  The subscripts are on a constant: a missing member is undefined behaviour, a value that is not an
  object throws.
\<close>

definition event_string :: "json \<Rightarrow> string \<Rightarrow> ('s, string) prog" where
  "event_string event k = bind (subscript_const event k) (\<lambda>v. lift_exn (get_string v))"

definition remote_dir_created :: "('w, 'd, 'x) client_ext_scheme \<Rightarrow> string \<Rightarrow> ('w, 'd, unit) action" where
  "remote_dir_created X p =
     seq (ignore (ensureDirectoryExists p)) (
     bind (dir_load X (Directory_Metadata p)) (\<lambda>loaded.
       case loaded of
         Some _ \<Rightarrow> ret ()
       | None \<Rightarrow>
           seq (ignore (dir_store X (Directory_Metadata p))) (
           ignore (addDirectoryToDirectory X p))))"

definition remote_dir_removed ::
  "nat \<Rightarrow> ('w, 'd, 'x) client_ext_scheme \<Rightarrow> string \<Rightarrow> ('w, 'd, unit) action" where
  "remote_dir_removed n X p =
     seq (removeEntry p) (
     seq (ignore (removeDirectoryFromDatabase n X p)) (
     ignore (removeDirectoryFromDirectory X p)))"

text \<open>
  A known file is checked for a conflict; an unknown one is fetched with whatever token there is, and
  is not added to the listing of its directory.
\<close>

definition remote_file_changed ::
  "nat \<Rightarrow> ('w, 'd, 'x) client_ext_scheme \<Rightarrow> string \<Rightarrow> ('w, 'd, unit) action" where
  "remote_file_changed n X p =
     bind (file_load X (File_Metadata p)) (\<lambda>loaded.
       case loaded of
         Some _ \<Rightarrow> Conflict n X p
       | None \<Rightarrow>
           bind (getFileEndpoints X p) (\<lambda>endpoints.
           if endpoints = [] then ret ()
           else
             bind (gets token) (\<lambda>t.
             bind (on_web (getFile X endpoints p t)) (\<lambda>response.
             if resp_success response then
               bind (lift_exn (remote_file X (resp_value response))) (\<lambda>r.
                 case r of
                   None \<Rightarrow> ret ()
                 | Some (txt, ver) \<Rightarrow>
                     seq (createTextFile p txt) (
                     ignore (file_store X (recorded X (File_Metadata p) txt ver))))
             else ret ()))))"

definition remote_file_removed :: "('w, 'd, 'x) client_ext_scheme \<Rightarrow> string \<Rightarrow> ('w, 'd, unit) action" where
  "remote_file_removed X p =
     seq (removeEntry p) (
     seq (ignore (removeFileFromDatabase X p)) (
     ignore (removeFileFromDirectory X p)))"

definition process_event_remote ::
  "nat \<Rightarrow> ('w, 'd, 'x) client_ext_scheme \<Rightarrow> json \<Rightarrow> ('w, 'd, unit) action" where
  "process_event_remote n X event =
     bind (lift_exn (dump X event)) (\<lambda>_.
     if event = JBool False then ret ()
     else
       bind (event_string event ''device_id'') (\<lambda>dev.
       bind (gets device_id) (\<lambda>own.
       if dev = own then ret ()
       else
         bind (event_string event ''type'') (\<lambda>ty.
         bind (event_string event ''path'') (\<lambda>p.
         if ty = ''DIR+'' then remote_dir_created X p
         else if ty = ''DIR-'' then remote_dir_removed n X p
         else if ty = ''FILE+'' \<or> ty = ''FILE~'' then remote_file_changed n X p
         else if ty = ''FILE-'' then remote_file_removed X p
         else ret ())))))"

section \<open>Receiving notifications\<close>

record ('w, 'd) notified_client =
  ncl :: "('w, 'd) client"
  notification_queue :: "json list"
  running :: bool

definition on_ncl :: "('w, 'd, 'a) action \<Rightarrow> (('w, 'd) notified_client, 'a) prog" where
  "on_ncl m = zoom ncl (\<lambda>t s. s\<lparr>ncl := t\<rparr>) m"

definition notification_start :: "(('w, 'd) notified_client, unit) prog" where
  "notification_start = modify (\<lambda>s. if running s then s else s\<lparr>running := True\<rparr>)"

definition notification_stop :: "(('w, 'd) notified_client, unit) prog" where
  "notification_stop = modify (\<lambda>s. if \<not> running s then s else s\<lparr>running := False\<rparr>)"

text \<open>
  One request of the long poll; the socket functions throw when the request fails.  Only a parse error
  is caught here: the printing for the log may throw.
\<close>

definition poll_notifications ::
  "('w, 'd, 'x) client_ext_scheme \<Rightarrow> string \<Rightarrow> int \<Rightarrow> string \<Rightarrow> (('w, 'd) notified_client, unit) prog" where
  "poll_notifications X host_ip host_port user_id =
     bind (on_ncl (on_web (call (http_get X host_ip host_port (''/subscribe?userid='' @ user_id))))) (\<lambda>r.
       case r of
         None \<Rightarrow> throw (Library_error ''socket'')
       | Some body \<Rightarrow>
           (case parse X body of
              Inl e \<Rightarrow> ret ()
            | Inr n \<Rightarrow>
                bind (lift_exn (dump X n)) (\<lambda>_.
                modify (\<lambda>s. s\<lparr>notification_queue := notification_queue s @ [n]\<rparr>))))"

text \<open>One turn of the loop of \<open>run\<close>: every exception is caught.\<close>

definition run_turn ::
  "('w, 'd, 'x) client_ext_scheme \<Rightarrow> string \<Rightarrow> int \<Rightarrow> string \<Rightarrow> (('w, 'd) notified_client, unit) prog" where
  "run_turn X host_ip host_port user_id =
     bind (gets running) (\<lambda>b.
     if b then try_catch (poll_notifications X host_ip host_port user_id) (\<lambda>e. ret ())
     else ret ())"

definition take_notification :: "(('w, 'd) notified_client, json option) prog" where
  "take_notification = call (\<lambda>s.
     case notification_queue s of
       [] \<Rightarrow> (None, s)
     | e # es \<Rightarrow> (Some e, s\<lparr>notification_queue := es\<rparr>))"

primrec drain_notifications ::
  "nat \<Rightarrow> nat \<Rightarrow> ('w, 'd, 'x) client_ext_scheme \<Rightarrow> (('w, 'd) notified_client, unit) prog" where
  "drain_notifications 0 n X = ret ()"
| "drain_notifications (Suc k) n X =
     bind take_notification (\<lambda>r.
       case r of
         None \<Rightarrow> ret ()
       | Some event \<Rightarrow> seq (on_ncl (process_event_remote n X event)) (drain_notifications k n X))"

text \<open>One turn of the endless loop, under the queue's mutex: all that is queued is processed.\<close>

definition process_remote_events ::
  "nat \<Rightarrow> ('w, 'd, 'x) client_ext_scheme \<Rightarrow> (('w, 'd) notified_client, unit) prog" where
  "process_remote_events n X = (\<lambda>s. drain_notifications (length (notification_queue s)) n X s)"

end
