(* ===== verification/Client_Main.thy ===== *)
theory Client_Main
  imports Boot Process_Local Process_Remote
begin

text \<open>
  The client's \<open>main\<close>, \<open>src/CODE/src/client/client.cpp\<close>, up to the moment it starts its
  threads: configuration, sign-up, the database, and the three synchronisations in their order.  An
  exception that leaves \<open>main\<close> ends the process.
\<close>

record settings =
  monitoring_path :: string
  wait_threshold :: nat
  wait_time :: nat

text \<open>
  The thresholds are \<open>unsigned int\<close>: a negative value of the configuration wraps around.
  \<open>None\<close> is the exit with status 1 when the database does not open.
\<close>

definition client_start ::
  "nat \<Rightarrow> nat \<Rightarrow> ('w, 'd, 'x) client_ext_scheme \<Rightarrow> string list \<Rightarrow> ('w, 'd, settings option) action" where
  "client_start k n X args =
     seq (ignore (handle_server_info X)) (
     seq (ignore (handle_user_info X args JNull ''config/user_info.json'')) (
     bind (config_load X ''config/user_config.json'') (\<lambda>user_info.
     bind (on_web (call (db_open X (get_config_string ''metadata_path'' user_info)))) (\<lambda>opened.
     case opened of
       None \<Rightarrow> ret None
     | Some d \<Rightarrow>
         seq (setDatabase d) (
         let monitoring = get_config_string ''monitoring_path'' user_info in
         seq (modify (\<lambda>s. s\<lparr>device_id := get_config_string ''device_id'' user_info\<rparr>)) (
         bind (gets username) (\<lambda>user.
         seq (fsutils_initialize monitoring user) (
         seq initializeCache (
         seq (localSync k n X) (
         seq (RemoteToLocal k n X) (
         seq (localToRemote k n X) (
         ret (Some \<lparr>monitoring_path = monitoring,
                    wait_threshold = nat (get_config_value ''wait_threshold'' user_info mod 2 ^ 32),
                    wait_time = nat (get_config_value ''wait_time'' user_info mod 2 ^ 32)\<rparr>)))))))))))))"

end
