(* ===== verification/Notification_Server.thy ===== *)
theory Notification_Server
  imports Initiation
begin

text \<open>
  The notification server, \<open>src/CODE/src/notification_server\<close>: long-polling sessions subscribe for
  a user, and a broadcast answers and unsubscribes all sessions of its user.  The server runs on one
  thread, so every completion handler is one step; the state machine interleaves accepted
  connections, requests, expiring timers and broadcasts.  Boost is modelled by what it promises: a
  timer that expired before it is cancelled still runs its handler.
\<close>

section \<open>Sessions\<close>

text \<open>
  \<open>timer\<close> is idle, armed, or expired with its handler in the queue; \<open>written\<close> are the
  response bodies passed to \<open>async_write\<close>, in order; \<open>shut\<close>: the completion handler of a
  write has shut the socket down for sending, after which a write fails; \<open>received\<close> are the
  bodies that were sent over the socket.
\<close>

datatype timer_state = Idle | Armed | Expired

record session =
  session_user :: string
  timer :: timer_state
  written :: "string list"
  received :: "string list"
  shut :: bool

record notification_server =
  sessions :: "nat \<rightharpoonup> session"
  next_session :: nat
  subscriptions :: "string \<rightharpoonup> nat list"

definition new_server :: notification_server where
  "new_server = \<lparr>sessions = Map.empty, next_session = 0, subscriptions = Map.empty\<rparr>"

text \<open>An accepted connection gets a session, which starts reading.\<close>

definition accept_session :: "notification_server \<Rightarrow> notification_server" where
  "accept_session s =
     s\<lparr>sessions := (sessions s)(next_session s \<mapsto> \<lparr>session_user = [], timer = Idle, written = [], received = [], shut = False\<rparr>),
       next_session := Suc (next_session s)\<rparr>"

definition target_user :: "string \<Rightarrow> string" where
  "target_user target =
     (case find_sub ''userid='' target of None \<Rightarrow> ''default'' | Some pos \<Rightarrow> drop (pos + 7) target)"

definition waiting :: "notification_server \<Rightarrow> string \<Rightarrow> nat list" where
  "waiting s u = (case subscriptions s u of None \<Rightarrow> [] | Some ids \<Rightarrow> ids)"

definition handle_request :: "nat \<Rightarrow> string \<Rightarrow> notification_server \<Rightarrow> notification_server" where
  "handle_request i target s =
     (case sessions s i of
        None \<Rightarrow> s
      | Some se \<Rightarrow>
          let u = target_user target in
          s\<lparr>subscriptions := (subscriptions s)(u \<mapsto> waiting s u @ [i]),
            sessions := (sessions s)(i \<mapsto> se\<lparr>session_user := u, timer := Armed\<rparr>)\<rparr>)"

text \<open>Cancelling has no effect on a handler that is already queued.\<close>

definition write_body :: "string \<Rightarrow> session \<Rightarrow> session" where
  "write_body body se =
     se\<lparr>written := written se @ [body], received := received se @ (if shut se then [] else [body])\<rparr>"

definition sendNotification :: "string \<Rightarrow> session \<Rightarrow> session" where
  "sendNotification msg se = write_body msg (se\<lparr>timer := (if timer se = Armed then Idle else timer se)\<rparr>)"

definition sendTimeoutResponse :: "session \<Rightarrow> session" where
  "sendTimeoutResponse se = write_body ''false'' (se\<lparr>timer := Idle\<rparr>)"

text \<open>The completion handler of a write.\<close>

definition write_completes :: "nat \<Rightarrow> notification_server \<Rightarrow> notification_server" where
  "write_completes i s = s\<lparr>sessions := (sessions s)(i := map_option (\<lambda>se. se\<lparr>shut := True\<rparr>) (sessions s i))\<rparr>"

definition timer_expires :: "nat \<Rightarrow> notification_server \<Rightarrow> notification_server" where
  "timer_expires i s = s\<lparr>sessions := (sessions s)(i := map_option (\<lambda>se. se\<lparr>timer := Expired\<rparr>) (sessions s i))\<rparr>"

text \<open>The handler of the timer; the session stays in the subscription map.\<close>

definition timer_handler :: "nat \<Rightarrow> notification_server \<Rightarrow> notification_server" where
  "timer_handler i s = s\<lparr>sessions := (sessions s)(i := map_option sendTimeoutResponse (sessions s i))\<rparr>"

section \<open>Broadcasting\<close>

text \<open>The sessions of the user leave the map, then each is sent the message.\<close>

definition deliver :: "string \<Rightarrow> nat list \<Rightarrow> notification_server \<Rightarrow> notification_server" where
  "deliver msg ids s =
     fold (\<lambda>i t. t\<lparr>sessions := (sessions t)(i := map_option (sendNotification msg) (sessions t i))\<rparr>) ids s"

text \<open>
  Only a parse error of the message is caught; it is printed for the log, which may throw after the
  sessions have left the map.
\<close>

definition broadcastNotification ::
  "('x) codec_scheme \<Rightarrow> string \<Rightarrow> string \<Rightarrow> (notification_server, unit) prog" where
  "broadcastNotification X user_id message =
     bind (gets (\<lambda>s. waiting s user_id)) (\<lambda>ids.
     seq (modify (\<lambda>s. s\<lparr>subscriptions := (subscriptions s)(user_id := None)\<rparr>)) (
     seq (case parse X message of
            Inl e \<Rightarrow> ret ()
          | Inr json_obj \<Rightarrow>
              (case json_pretty X json_obj of None \<Rightarrow> throw Json_type_error | Some _ \<Rightarrow> ret ())) (
     modify (deliver message ids))))"

text \<open>\<open>j.value(k, default)\<close>: a value that is not an object throws, and so does a member of another type.\<close>

definition value_string :: "json \<Rightarrow> string \<Rightarrow> string \<Rightarrow> exn + string" where
  "value_string j k dflt =
     (case j of
        JObj m \<Rightarrow> (case fmlookup m k of None \<Rightarrow> Inr dflt | Some v \<Rightarrow> get_string v)
      | _ \<Rightarrow> Inl Json_type_error)"

definition value_int :: "('x) codec_scheme \<Rightarrow> json \<Rightarrow> string \<Rightarrow> int \<Rightarrow> exn + int" where
  "value_int X j k dflt =
     (case j of
        JObj m \<Rightarrow>
          (case fmlookup m k of
             None \<Rightarrow> Inr dflt
           | Some v \<Rightarrow> (case get_int X v of Inl e \<Rightarrow> Inl e | Inr i \<Rightarrow> Inr (wrap_int i)))
      | _ \<Rightarrow> Inl Json_type_error)"

text \<open>The handler that \<open>main\<close> gives the HTTP listener; every exception is caught.\<close>

definition httpRequestHandler :: "('x) codec_scheme \<Rightarrow> string \<Rightarrow> (notification_server, unit) prog" where
  "httpRequestHandler X body =
     try_catch
       (bind (lift_exn (parse X body)) (\<lambda>parsed.
        bind (lift_exn (value_string parsed ''user_id'' ''default'')) (\<lambda>target_user.
        broadcastNotification X target_user body)))
       (\<lambda>e. ret ())"

text \<open>The listener answers every request the same way.\<close>

definition handleRequest ::
  "('x) codec_scheme \<Rightarrow> string \<Rightarrow> string \<Rightarrow> string \<Rightarrow> (notification_server, int \<times> string) prog" where
  "handleRequest X verb target body =
     seq (if verb = ''POST'' \<and> target = ''/broadcast'' then httpRequestHandler X body else ret ())
       (ret (200, ''Notification processed''))"

section \<open>Start-up\<close>

record notification_config =
  conf_ip :: string
  conf_port :: nat
  conf_http_port :: nat
  conf_timeout :: int

text \<open>
  \<open>None\<close> is the exit with status 1.  An exception of the conversions leaves \<open>main\<close>.
\<close>

definition notification_main ::
  "('x) codec_scheme \<Rightarrow> (string \<Rightarrow> string option) \<Rightarrow> string option \<Rightarrow> exn + notification_config option" where
  "notification_main X files arg =
     (let config_file = (case arg of None \<Rightarrow> ''config.json'' | Some a \<Rightarrow> a) in
      case files config_file of
        None \<Rightarrow> Inr None
      | Some text \<Rightarrow>
          (case read_json X text of
             Inl e \<Rightarrow> Inr None
           | Inr config \<Rightarrow>
               (case value_string config ''server_ip'' ''0.0.0.0'' of Inl e \<Rightarrow> Inl e | Inr addr \<Rightarrow>
               (case value_int X config ''server_port'' 8080 of Inl e \<Rightarrow> Inl e | Inr p \<Rightarrow>
               (case value_int X config ''http_port'' 8081 of Inl e \<Rightarrow> Inl e | Inr hp \<Rightarrow>
               (case value_int X config ''timeout_seconds'' 10 of Inl e \<Rightarrow> Inl e | Inr t \<Rightarrow>
               (case value_string config ''user_id'' ''default'' of Inl e \<Rightarrow> Inl e | Inr _ \<Rightarrow>
                  Inr (Some \<lparr>conf_ip = addr, conf_port = nat (p mod 65536),
                             conf_http_port = nat (hp mod 65536), conf_timeout = t\<rparr>))))))))"

section \<open>The state machine\<close>

text \<open>
  A session handles one request, when it has not handled one yet: its timer is idle, nothing has been
  written and it is in no list of the map (\<open>fresh\<close>).
\<close>

definition fresh :: "nat \<Rightarrow> notification_server \<Rightarrow> bool" where
  "fresh i s \<longleftrightarrow> (\<exists>se. sessions s i = Some se \<and> timer se = Idle \<and> written se = [] \<and>
                  (\<forall>u. i \<notin> set (waiting s u)))"

text \<open>
  The labels name what happens; a broadcast is a run of the listener's handler on a request, which
  always returns.
\<close>

inductive ns_step :: "('x) codec_scheme \<Rightarrow> notification_server \<Rightarrow> notification_server \<Rightarrow> bool" for X where
  accept: "ns_step X s (accept_session s)"
| request: "fresh i s \<Longrightarrow> ns_step X s (handle_request i target s)"
| expire: "sessions s i = Some se \<Longrightarrow> timer se = Armed \<Longrightarrow> ns_step X s (timer_expires i s)"
| timeout: "sessions s i = Some se \<Longrightarrow> timer se = Expired \<Longrightarrow> ns_step X s (timer_handler i s)"
| written: "sessions s i = Some se \<Longrightarrow> written se \<noteq> [] \<Longrightarrow> ns_step X s (write_completes i s)"
| http: "handleRequest X verb target body s = Ret r t \<Longrightarrow> ns_step X s t"

inductive_cases ns_stepE: "ns_step X s t"

end
