(* ===== verification/Server_Utils_Props.thy ===== *)
theory Server_Utils_Props
  imports Server_Utils Kv_Node Metadata_Props
begin

text \<open>
  Properties of the client's operations on the service: endpoints come from the cache while they are
  alive, an accepted upload and a fetch leave file and record in step, and a conflict that is merged uploads
  the merged text under the version on record; one that cannot be merged is in \<open>Conflict_Props\<close>.
\<close>

section \<open>Requests and the cache\<close>

lemma answers_log_json [answers_intros]: "answers P (log_json X j)"
  by (simp add: log_json_def answers_ret answers_throw split: option.split)

lemma answers_ask_meta [answers_intros]: "answers (same_local s0) (ask_meta X endpoint key)"
  unfolding ask_meta_def by (intro answers_intros)

lemma ask_meta_RetD: "ask_meta X endpoint key s = Ret j t \<Longrightarrow> same_local s t"
  using answersE [OF answers_ask_meta same_local_refl, of X endpoint key s] by force

lemma answers_obtain_token [answers_intros]: "answers (same_local s0) (obtain_token X)"
  unfolding obtain_token_def by (intro answers_intros)

lemma obtain_token_present [simp]: "token s \<noteq> [] \<Longrightarrow> obtain_token X s = Ret True s"
  by (simp add: obtain_token_def)

text \<open>The client's cache as the contract sees it.\<close>

definition endpoints_alive ::
  "('w, 'd, 'x) client_ext_scheme \<Rightarrow> ('w, 'd) client \<Rightarrow> string \<Rightarrow> string list \<Rightarrow> bool" where
  "endpoints_alive X s key es \<longleftrightarrow>
     (case cache_instance s of
        None \<Rightarrow> False
      | Some c \<Rightarrow> lru_timed.alive (steady_now X (web s)) key es c)"

lemma cached_endpoints:
  assumes "endpoints_alive X s key es" and "es \<noteq> []"
  obtains d where "getFileEndpoints X key s = Ret es (s\<lparr>cache_instance := Some d\<rparr>)"
    and "\<And>w. endpoints_alive X (s\<lparr>web := w\<rparr>) key es \<Longrightarrow>
           endpoints_alive X (s\<lparr>cache_instance := Some d, web := w\<rparr>) key es"
proof -
  let ?now = "steady_now X (web s)"
  from assms(1) obtain c where c: "cache_instance s = Some c" and a: "lru_timed.alive ?now key es c"
    by (auto simp: endpoints_alive_def split: option.splits)
  show ?thesis
    by (rule that [of "snd (cache_get ?now key c)"])
       (use c lru_timed.alive_look [OF a] lru_timed.alive_look_later [OF a] assms(2) in
         \<open>simp_all add: getFileEndpoints_def cache_lookup_def endpoints_alive_def\<close>)
qed

lemma cache_get_limits:
  "defaultTTL (snd (cache_get now k c)) = defaultTTL c" "maxSize (snd (cache_get now k c)) = maxSize c"
  by (auto simp: cache_get_def drop_entry_def split: option.split)

text \<open>Endpoints that the metadata server gave for a file are remembered: as long as their time to
  live is not over, every further lookup of the file answers with the same endpoints without a request
  and without changing anything but the order of use in the cache.\<close>

lemma endpoints_are_cached:
  assumes c: "cache_instance s = Some c" "cache_inv c"
    and miss: "fst (cache_get (steady_now X (web s)) k c) = []"
    and ask: "ask_meta X ''/get-file-endpoints'' k
        (s\<lparr>cache_instance := Some (snd (cache_get (steady_now X (web s)) k c))\<rparr>) = Ret resp s1"
    and resp: "resp \<noteq> JNull" "endpoints_of resp = Inr es" "es \<noteq> []"
    and room: "fits k es" "list_size k es \<le> unat (maxSize c)"
  shows "\<exists>t. getFileEndpoints X k s = Ret es t \<and> web t = web s1 \<and>
    (\<forall>u. cache_instance u = cache_instance t \<and>
         steady_now X (web u) < steady_now X (web s1) + defaultTTL c \<longrightarrow>
       (\<exists>d. getFileEndpoints X k u = Ret es (u\<lparr>cache_instance := Some d\<rparr>)))"
proof -
  let ?c1 = "snd (cache_get (steady_now X (web s)) k c)" and ?now = "steady_now X (web s1)"
  have c1: "cache_instance s1 = Some ?c1"
    using same_local_fields(3) [OF ask_meta_RetD [OF ask]] by simp
  have inv1: "cache_inv ?c1" using cache_get_spec(1) [OF c(2)] .
  have room1: "list_size k es \<le> unat (maxSize ?c1)" using room(2) by (simp add: cache_get_limits)
  obtain d where d: "cache_set ?now k es 0 ?c1 = Some d"
    and alive: "\<And>later. later < ?now + defaultTTL c \<Longrightarrow> lru_timed.alive later k es d"
  proof -
    from lru.store_ok [OF inv1 room(1), of ?now 0] obtain d where
      d: "cache_set ?now k es 0 ?c1 = Some d" "cache_inv d" by blast
    have "lru_timed.alive later k es d" if "later < ?now + defaultTTL c" for later
      using lru_timed.store_fresh [OF inv1 room(1) room1 d(1)] d(2) that
      by (auto simp: lru_timed.alive_def cache_get_limits)
    with d(1) show ?thesis by (rule that)
  qed
  let ?t = "s1\<lparr>cache_instance := Some d\<rparr>"
  have "getFileEndpoints X k s = Ret es ?t"
    using c(1) miss ask resp c1 d by (simp add: getFileEndpoints_def cache_lookup_def cache_store_def)
  moreover have "\<exists>e. getFileEndpoints X k u = Ret es (u\<lparr>cache_instance := Some e\<rparr>)"
    if "cache_instance u = Some d" "steady_now X (web u) < ?now + defaultTTL c" for u
  proof -
    have "endpoints_alive X u k es" using that alive by (simp add: endpoints_alive_def)
    then show ?thesis by (rule cached_endpoints [OF _ resp(3)]) blast
  qed
  ultimately show ?thesis by (intro exI [of _ ?t]) auto
qed

section \<open>Uploading\<close>

lemma recorded_name [simp]: "fileName (recorded X m txt ver) = fileName m"
  by (simp add: recorded_def)

lemma next_version_run:
  "stoi ver = Inr v \<Longrightarrow> v < int_max \<Longrightarrow> next_version ver s = Ret (to_string (v + 1)) s"
  by (auto simp: next_version_def)

text \<open>An accepted upload, once the endpoints are known, from the cache or from the metadata server.\<close>

lemma upload_with_endpoints:
  assumes ok: "db_ok X view s" and m: "db_docs X view s k = Some (file_json m)" "fileName m = k"
    and d: "getFileEndpoints X k s = Ret es (s\<lparr>cache_instance := Some d\<rparr>)" and es: "es \<noteq> []" and tok: "token s \<noteq> []"
    and ver: "stoi (version m) = Inr v" "v < int_max"
    and sent: "setFile X es k (local_text s k) (version m) (token s) (device_id s) (web s) = Ret r w"
      "resp_success r"
  shows "\<exists>e. uploadFile (Suc n) X k s = Ret True (s\<lparr>cache_instance := Some d, web := w, db := Some e\<rparr>) \<and>
    db_docs X view (s\<lparr>cache_instance := Some d, web := w, db := Some e\<rparr>) = (db_docs X view s)
      (k \<mapsto> file_json (recorded X m (local_text s k) (to_string (v + 1)))) \<and>
    (\<forall>x. x \<noteq> k \<longrightarrow> db_view view (s\<lparr>cache_instance := Some d, web := w, db := Some e\<rparr>) x = db_view view s x)"
proof -
  have load: "file_load X (File_Metadata k) s = Ret (Some m) s"
    by (rule file_load_Some [OF ok]) (use m in simp)
  let ?s2 = "s\<lparr>cache_instance := Some d, web := w\<rparr>"
  have ok2: "db_ok X view ?s2" using ok by simp
  obtain e where e: "db_store X k (file_json (recorded X m (local_text s k) (to_string (v + 1)))) ?s2
      = Ret True (?s2\<lparr>db := Some e\<rparr>)"
    "db_docs X view (?s2\<lparr>db := Some e\<rparr>) = (db_docs X view ?s2)
      (k \<mapsto> file_json (recorded X m (local_text s k) (to_string (v + 1))))"
    using db_storeE [OF ok2] by metis
  have "uploadFile (Suc n) X k s = Ret True (?s2\<lparr>db := Some e\<rparr>)"
    using load d es tok sent e(1) m(2)
    by (simp add: next_version_run [OF ver] on_web_def file_store_def)
  moreover have "db_view view ?s2 = db_view view s" by (simp add: db_view_def)
  ultimately show ?thesis using e(2) db_store_view [OF ok2 e(1)] by (intro exI [of _ e]) simp
qed

lemma upload_run:
  assumes ok: "db_ok X view s" and m: "db_docs X view s k = Some (file_json m)" "fileName m = k"
    and es: "endpoints_alive X s k es" "es \<noteq> []" and tok: "token s \<noteq> []"
    and ver: "stoi (version m) = Inr v" "v < int_max"
    and sent: "setFile X es k (local_text s k) (version m) (token s) (device_id s) (web s) = Ret r w"
      "resp_success r"
  shows "\<exists>t. uploadFile (Suc n) X k s = Ret True t \<and> fs t = fs s \<and> g_basePath t = g_basePath s \<and> web t = w \<and>
    db_docs X view t = (db_docs X view s)
      (k \<mapsto> file_json (recorded X m (local_text s k) (to_string (v + 1))))"
proof -
  from cached_endpoints [OF es] obtain d where
    d: "getFileEndpoints X k s = Ret es (s\<lparr>cache_instance := Some d\<rparr>)" by blast
  from upload_with_endpoints [OF ok m d es(2) tok ver sent] obtain e where
    "uploadFile (Suc n) X k s = Ret True (s\<lparr>cache_instance := Some d, web := w, db := Some e\<rparr>)"
    "db_docs X view (s\<lparr>cache_instance := Some d, web := w, db := Some e\<rparr>) = (db_docs X view s)
      (k \<mapsto> file_json (recorded X m (local_text s k) (to_string (v + 1))))" by blast
  then show ?thesis by (intro exI [of _ "s\<lparr>cache_instance := Some d, web := w, db := Some e\<rparr>"]) (simp del: uploadFile.simps)
qed

text \<open>An upload that the storage servers accept sends the file's text with the version of the
  record, and afterwards the record has that text, its hash and size, and the next version; the file
  and every other document are as before.\<close>

lemma upload_records_next_version:
  assumes "db_ok X view s" and "db_docs X view s k = Some (file_json m)" "fileName m = k"
    and "endpoints_alive X s k es" "es \<noteq> []" and "token s \<noteq> []"
    and "stoi (version m) = Inr v" "v < int_max"
    and "setFile X es k (local_text s k) (version m) (token s) (device_id s) (web s) = Ret r w"
      "resp_success r"
  shows "\<exists>t. uploadFile (Suc n) X k s = Ret True t \<and> fs t = fs s \<and> web t = w \<and>
    db_docs X view t = (db_docs X view s)
      (k \<mapsto> file_json (recorded X m (local_text s k) (to_string (v + 1))))"
  using upload_run [OF assms] by blast

section \<open>Fetching\<close>

text \<open>What a download gives, when endpoints and token are at hand.\<close>

lemma download_run:
  assumes "endpoints_alive X s k es" and "es \<noteq> []" and "token s \<noteq> []"
    and "getFile X es k (token s) (web s) = Ret r w" and "resp_success r"
    and "remote_file X (resp_value r) = Inr (Some (txt, ver))"
  obtains d where "download X k s = Ret (Some (txt, ver)) (s\<lparr>cache_instance := Some d, web := w\<rparr>)"
    and "\<And>v. endpoints_alive X (s\<lparr>web := v\<rparr>) k es \<Longrightarrow>
           endpoints_alive X (s\<lparr>cache_instance := Some d, web := v\<rparr>) k es"
proof -
  from cached_endpoints [OF assms(1,2)] obtain d where
    d: "getFileEndpoints X k s = Ret es (s\<lparr>cache_instance := Some d\<rparr>)"
    "\<And>v. endpoints_alive X (s\<lparr>web := v\<rparr>) k es \<Longrightarrow>
       endpoints_alive X (s\<lparr>cache_instance := Some d, web := v\<rparr>) k es" by metis
  show ?thesis
    by (rule that [OF _ d(2)]) (use d(1) assms in \<open>simp add: download_def on_web_def\<close>)
qed

text \<open>What a fetch leaves behind.\<close>

lemma fetch_run:
  assumes ok: "db_ok X view s" and es: "endpoints_alive X s k es" "es \<noteq> []" and tok: "token s \<noteq> []"
    and got: "getFile X es k (token s) (web s) = Ret r w" "resp_success r"
      "remote_file X (resp_value r) = Inr (Some (rtxt, ver))"
    and place: "can_write (fs s) (g_basePath s) k"
  obtains t where "fetchNewFile X k s = Ret True t" and "local_text t k = rtxt"
    and "db_docs X view t = (db_docs X view s)(k \<mapsto> file_json (recorded X (File_Metadata k) rtxt ver))"
    and "db_ok X view t" and "g_basePath t = g_basePath s"
proof -
  from download_run [OF es tok got] obtain d where
    d: "download X k s = Ret (Some (rtxt, ver)) (s\<lparr>cache_instance := Some d, web := w\<rparr>)" by blast
  let ?s1 = "s\<lparr>cache_instance := Some d, web := w\<rparr>"
  let ?s2 = "?s1\<lparr>fs := written (fs s) (g_basePath s) k rtxt\<rparr>"
  have ok2: "db_ok X view ?s2" using ok by simp
  obtain e where e: "db_store X k (file_json (recorded X (File_Metadata k) rtxt ver)) ?s2
      = Ret True (?s2\<lparr>db := Some e\<rparr>)"
    "db_docs X view (?s2\<lparr>db := Some e\<rparr>) = (db_docs X view ?s2)
      (k \<mapsto> file_json (recorded X (File_Metadata k) rtxt ver))"
    using db_storeE [OF ok2] by metis
  have "fetchNewFile X k s = Ret True (?s2\<lparr>db := Some e\<rparr>)"
    using d e(1) by (simp add: fetchNewFile_def file_store_def)
  moreover have "local_text (?s2\<lparr>db := Some e\<rparr>) k = rtxt"
    using local_text_written [of ?s1 k rtxt] place by simp
  ultimately show ?thesis
    using e(2) db_ok_db [OF ok2, of e] by (intro that [of "?s2\<lparr>db := Some e\<rparr>"]) simp_all
qed

section \<open>Conflicts\<close>

text \<open>What \<open>keep_both\<close> leaves behind.\<close>

lemma keep_both_run:
  assumes ok: "db_ok X view s" and ck: "ck = generateConflictFilename k (device_id s)"
    and m: "fileName m = k"
    and par: "parent_of ck = Some p" "db_docs X view s p = Some (dir_json dm)" "directoryName dm = p"
      "p \<noteq> k"
    and place: "can_write (fs s) (g_basePath s) k"
      "can_write (written (fs s) (g_basePath s) k rtxt) (g_basePath s) ck"
    and apart: "fpath_of (buildFullPath (g_basePath s) k) \<noteq> fpath_of (buildFullPath (g_basePath s) ck)"
  obtains u where "keep_both X k m ltxt rtxt ver s = Ret ck u"
    and "local_text u k = rtxt" and "local_text u ck = ltxt"
    and "db_docs X view u = (db_docs X view s)
      (k \<mapsto> file_json (recorded X m rtxt ver),
       p \<mapsto> dir_json (dm\<lparr>files := files dm @ (if ck \<in> set (files dm) then [] else [ck])\<rparr>),
       ck \<mapsto> file_json (recorded X (File_Metadata ck) ltxt ''0''))"
    and "\<exists>f e. u = s\<lparr>fs := f, db := Some e\<rparr>"
proof -
  let ?f1 = "written (fs s) (g_basePath s) k rtxt" and ?b = "g_basePath s"
  let ?s2 = "s\<lparr>fs := written ?f1 ?b ck ltxt\<rparr>"
  have ok2: "db_ok X view ?s2" using ok by simp
  obtain e1 where e1: "db_store X k (file_json (recorded X m rtxt ver)) ?s2 = Ret True (?s2\<lparr>db := Some e1\<rparr>)"
    "db_docs X view (?s2\<lparr>db := Some e1\<rparr>) = (db_docs X view ?s2)(k \<mapsto> file_json (recorded X m rtxt ver))"
    using db_storeE [OF ok2] by metis
  let ?s3 = "?s2\<lparr>db := Some e1\<rparr>"
  have ok3: "db_ok X view ?s3" by (rule db_ok_db [OF ok2])
  have dm3: "db_docs X view ?s3 p = Some (dir_json dm)" using par(2,4) e1(2) by simp
  obtain e2 where e2: "addFileToDirectory X ck ?s3 = Ret True (?s3\<lparr>db := Some e2\<rparr>)"
    "db_docs X view (?s3\<lparr>db := Some e2\<rparr>) = (db_docs X view ?s3)
      (p \<mapsto> dir_json (dm\<lparr>files := files dm @ (if ck \<in> set (files dm) then [] else [ck])\<rparr>))"
    using listing_operations [OF ok3 par(1) dm3 par(3)] by metis
  let ?s4 = "?s3\<lparr>db := Some e2\<rparr>" and ?j = "file_json (recorded X (File_Metadata ck) ltxt ''0'')"
  obtain e3 where e3: "db_store X ck ?j ?s4 = Ret True (?s4\<lparr>db := Some e3\<rparr>)"
    "db_docs X view (?s4\<lparr>db := Some e3\<rparr>) = (db_docs X view ?s4)(ck \<mapsto> ?j)"
    using db_storeE [OF db_ok_db [OF ok3]] by metis
  have "keep_both X k m ltxt rtxt ver s = Ret ck (?s4\<lparr>db := Some e3\<rparr>)"
    using e1(1) e2(1) e3(1) m by (simp add: keep_both_def ck [symmetric] file_store_def Let_def)
  moreover have "local_text ?s2 ck = ltxt"
    using local_text_written [of "s\<lparr>fs := ?f1\<rparr>" ck ltxt] place(2) by simp
  moreover have "local_text ?s2 k = rtxt"
    using read_other_written [OF apart] read_written [OF place(1)] place(1)
    by (simp add: local_text_def can_write_def)
  ultimately show ?thesis
    using e1(2) e2(2) e3(2)
    by (intro that [of "?s4\<lparr>db := Some e3\<rparr>"])
      (simp_all add: exI [of _ "written ?f1 ?b ck ltxt"] exI [of _ e3])
qed

text \<open>A conflict that merges, when the service takes the upload of the merged text.\<close>

lemma merge_upload_run:
  assumes ok: "db_ok X view s" and m: "db_docs X view s k = Some (file_json m)" "fileName m = k"
    and es: "endpoints_alive X s k es" "es \<noteq> []" and tok: "token s \<noteq> []"
    and got: "getFile X es k (token s) (web s) = Ret r v" "resp_success r"
      "remote_file X (resp_value r) = Inr (Some (rtxt, rver))"
    and differ: "local_text s k \<noteq> rtxt"
    and merge: "mergeCheck X (file_content m) (local_text s k) rtxt = (True, merged)"
    and alive: "endpoints_alive X (s\<lparr>web := v\<rparr>) k es"
    and ver: "stoi (version m) = Inr i" "i < int_max"
    and sent: "setFile X es k merged (version m) (token s) (device_id s) v = Ret q w" "resp_success q"
    and place: "can_write (fs s) (g_basePath s) k"
  shows "\<exists>t. Conflict (Suc (Suc n)) X k s = Ret () t \<and> web t = w \<and> local_text t k = merged \<and>
    db_docs X view t = (db_docs X view s)(k \<mapsto> file_json (recorded X m merged (to_string (i + 1))))"
proof -
  from download_run [OF es tok got] obtain d where
    d: "download X k s = Ret (Some (rtxt, rver)) (s\<lparr>cache_instance := Some d, web := v\<rparr>)"
    "\<And>x. endpoints_alive X (s\<lparr>web := x\<rparr>) k es \<Longrightarrow>
       endpoints_alive X (s\<lparr>cache_instance := Some d, web := x\<rparr>) k es" by metis
  let ?s1 = "s\<lparr>cache_instance := Some d, web := v\<rparr>"
  let ?s2 = "?s1\<lparr>fs := written (fs s) (g_basePath s) k merged\<rparr>"
  have load: "file_load X (File_Metadata k) ?s1 = Ret (Some m) ?s1"
    by (rule file_load_Some; use ok m in simp)
  have ok2: "db_ok X view ?s2" "db_docs X view ?s2 k = Some (file_json m)" using ok m(1) by simp_all
  have alive2: "endpoints_alive X ?s2 k es" using d(2) [OF alive] by (simp add: endpoints_alive_def)
  have body: "local_text ?s2 k = merged"
    using local_text_written [of ?s1 k merged] place by simp
  obtain t where t: "uploadFile (Suc n) X k ?s2 = Ret True t" "fs t = fs ?s2" "g_basePath t = g_basePath ?s2" "web t = w"
    "db_docs X view t = (db_docs X view ?s2)(k \<mapsto> file_json (recorded X m merged (to_string (i + 1))))"
    using upload_run [OF ok2 m(2) alive2 es(2) _ ver, of q w n] tok sent body by auto
  have "Conflict (Suc (Suc n)) X k s = Ret () t"
    using d(1) load differ merge t(1) by (simp del: uploadFile.simps)
  moreover have "local_text t k = local_text ?s2 k" by (simp add: local_text_def t(2,3))
  with body have "local_text t k = merged" by (rule trans [rotated])
  ultimately show ?thesis using t(4,5) by (intro exI [of _ t]) simp
qed

section \<open>A service for the witnesses\<close>

text \<open>One server that hands out a text, and takes an upload or does not.\<close>

definition served :: json where
  "served = obj [(''data'', JStr ''remote''), (''version_number'', JStr ''5'')]"

definition serving_ext :: "bool \<Rightarrow> bool \<Rightarrow> (unit, (string, string) fmap) client_ext" where
  "serving_ext accepts mergeable = toy_client_ext\<lparr>
     curl_perform := (\<lambda>_ method _ w.
       (if method = ''GET'' then Curl_done 200 (curl_chunks (enc (obj [(''payload'', served)])))
        else if accepts then Curl_done 200 (curl_chunks (enc (obj [(''code'', JStr ''success'')])))
        else Curl_error ''down'', w)),
     git_merge := (\<lambda>b l r. (0, Some (''merged'', mergeable)))\<rparr>"

lemma serving_simps [simp]:
  "json_parse (serving_ext a b) = toy_parse" "json_dump (serving_ext a b) = toy_dump"
  "json_pretty (serving_ext a b) = toy_dump" "shuffled (serving_ext a b) = (\<lambda>ss c. (ss, c))"
  "curl_init (serving_ext a b) = (\<lambda>c. (True, c))" "steady_now (serving_ext a b) = (\<lambda>_. 0)"
  "db_get (serving_ext a b) = db_get toy_client_ext" "db_put (serving_ext a b) = db_put toy_client_ext"
  "db_delete (serving_ext a b) = db_delete toy_client_ext" "db_seek (serving_ext a b) = db_seek toy_client_ext"
  "git_merge (serving_ext a b) = (\<lambda>_ _ _. (0, Some (''merged'', b)))"
  "sha256 (serving_ext a b) = sha256 toy_client_ext"
  by (simp_all add: serving_ext_def toy_client_ext_def)

lemma serving_reply:
  "sendRequest (serving_ext a b) url reqType message w =
     Ret (if reqType \<noteq> ''put'' then mk_response (enc (obj [(''payload'', served)])) [] True
          else if a then mk_response (enc (obj [(''code'', JStr ''success'')])) [] True
          else mk_response [] ''down'' False) w"
  by (simp add: sendRequest_def dump_def toy_dump_def request_method_def) (simp add: serving_ext_def)

lemma serving_request:
  "tryServers (serving_ext a b) [e] reqType message w =
     Ret (if reqType \<noteq> ''put'' then mk_response (enc (obj [(''payload'', served)])) [] True
          else if a then mk_response (enc (obj [(''code'', JStr ''success'')])) [] True
          else mk_response [] ''All servers unreachable or returned errors.'' False) w"
proof -
  have "redirectToLeader (serving_ext a b) (e @ ''/request'') reqType message w =
      sendRequest (serving_ext a b) (e @ ''/request'') reqType message w"
    unfolding serving_reply
    by (rule redirect_loop_final [OF serving_reply])
      (auto simp: redirect_target_def parse_def served_def)
  then show ?thesis by (simp add: tryServers_def serving_reply)
qed

lemma serving_get:
  "getFile (serving_ext a b) [e] k t w = Ret (mk_response (enc served) [] True) w"
proof -
  have "kv_get_reply (serving_ext a b) (mk_response (enc (obj [(''payload'', served)])) [] True)
      = Inr (mk_response (enc served) ''Success'' True)"
    by (simp add: kv_get_reply_def parse_def dump_def toy_dump_def served_def DELETE_VALUE_def
        obj_def fmlookup_of_list del: enc.simps)
  then show ?thesis
    by (simp add: getFile_def kv_get_def serving_request parse_def dump_def toy_dump_def del: enc.simps)
qed

lemma serving_file: "remote_file (serving_ext a b) (enc served) = Inr (Some (''remote'', ''5''))"
  by (simp add: remote_file_def parse_def served_def string_at_def get_string_def)

lemma serving_set:
  "setFile (serving_ext a b) [e] k c v t d w =
     Ret (if a then mk_response (enc (obj [(''code'', JStr ''success'')])) [] True
          else mk_response [] ''All servers unreachable or returned errors.'' False) w"
  by (simp add: setFile_def kv_set_def serving_request file_response_def dump_def toy_dump_def)

definition stocked :: cache where
  "stocked = \<lparr>cache_map = [(''dropbox/a.txt'', \<lparr>entry_value = [''s1''], expireTime = 9, lruIterator = 0\<rparr>)],
     lru_list = [(0, ''dropbox/a.txt'')], fresh_node = 1, defaultTTL = 4, maxSize = 60, currentSize = 15,
     stopCleaner = False\<rparr>"

definition online_at :: "'w \<Rightarrow> (string \<times> json) list \<Rightarrow> ('w, (string, string) fmap) client" where
  "online_at w kvs = (toy_client_at w (toy_db_of kvs))\<lparr>cache_instance := Some stocked\<rparr>"

abbreviation online :: "(string \<times> json) list \<Rightarrow> (unit, (string, string) fmap) client" where
  "online \<equiv> online_at ()"

lemmas online_def = online_at_def

lemma stocked_inv: "cache_inv stocked"
  by (auto simp: cache_inv_def stocked_def list_size_def)

lemma online_alive: "endpoints_alive (serving_ext a b) (online kvs) ''dropbox/a.txt'' [''s1'']"
  using stocked_inv
  by (simp add: endpoints_alive_def online_def lru_timed.alive_def cached_def expiry_def)
     (simp add: stocked_def)

lemma online_simps [simp]:
  "fs (online_at w kvs) = fmempty" "token (online_at w kvs) = ''t''" "web (online_at w kvs) = w"
  "device_id (online_at w kvs) = ''d1''" "g_basePath (online_at w kvs) = ''/h/''"
  "cache_instance (online_at w kvs) = Some stocked"
  by (simp_all add: online_def toy_client_def)

lemma online_db_ok: "db_ok (serving_ext a b) fmlookup (online kvs)"
  using toy_rocks_ok by (simp add: db_ok_def rocks_ok_def online_def)

lemma online_docs: "db_docs (serving_ext a b) fmlookup (online kvs) = map_of kvs"
proof -
  have "db_docs (serving_ext a b) fmlookup (online kvs) = db_docs toy_client_ext fmlookup (toy_client (toy_db_of kvs))"
    by (rule ext) (simp add: db_docs_def online_def)
  then show ?thesis by (simp add: toy_docs)
qed

definition old_file :: file_meta where
  "old_file = recorded (serving_ext True True) (File_Metadata ''dropbox/a.txt'') ''base'' ''4''"

lemma online_paths:
  "can_write fmempty ''/h/'' ''dropbox/a.txt''"
  "can_write (written fmempty ''/h/'' ''dropbox/a.txt'' ''remote'') ''/h/'' ''dropbox/a$d1_conflict$.txt''"
  "fpath_of (buildFullPath ''/h/'' ''dropbox/a.txt'') \<noteq> fpath_of (buildFullPath ''/h/'' ''dropbox/a$d1_conflict$.txt'')"
  "generateConflictFilename ''dropbox/a.txt'' ''d1'' = ''dropbox/a$d1_conflict$.txt''"
  "parent_of ''dropbox/a$d1_conflict$.txt'' = Some ''dropbox''"
  by code_simp+

lemma old_file_simps [simp]: "fileName old_file = ''dropbox/a.txt''" "version old_file = ''4''"
  by (simp_all add: old_file_def recorded_def)

lemma local_text_online [simp]: "local_text (online_at w kvs) k = []"
  by (simp add: local_text_def read_file_def node_at_def split: option.split)

lemma stoi_4: "stoi ''4'' = Inr 4"
  by code_simp

section \<open>Witnesses\<close>

lemma upload_records_next_version_witness:
  "\<exists>t. uploadFile 1 (serving_ext True True) ''dropbox/a.txt'' (online [(''dropbox/a.txt'', file_json old_file)]) = Ret True t \<and>
    db_docs (serving_ext True True) fmlookup t ''dropbox/a.txt''
      = Some (file_json (recorded (serving_ext True True) old_file [] (to_string 5)))"
  using upload_records_next_version [OF online_db_ok [of True True] _ _ online_alive, of
      "[(''dropbox/a.txt'', file_json old_file)]" old_file 4 _ _ 0] stoi_4
  by (auto simp: online_docs serving_set int_max_def)

definition home :: dir_meta where
  "home = (Directory_Metadata ''dropbox'')\<lparr>files := [''dropbox/a.txt'']\<rparr>"

definition endpoint_ext :: "(unit, (string, string) fmap) client_ext" where
  "endpoint_ext = toy_client_ext\<lparr>http_post := (\<lambda>_ _ _ _ _ w.
     (Some (200, enc (obj [(''endpoints'', JArr [JStr ''s1''])])), w))\<rparr>"

lemma endpoints_are_cached_witness:
  "\<exists>t. getFileEndpoints endpoint_ext ''k'' (toy_client fmempty) = Ret [''s1''] t \<and>
    (\<exists>d. getFileEndpoints endpoint_ext ''k'' t = Ret [''s1''] (t\<lparr>cache_instance := Some d\<rparr>))"
proof -
  let ?c = "new_cache 60000 1000" and ?r = "obj [(''endpoints'', JArr [JStr ''s1''])]"
  let ?s = "toy_client fmempty"
  have c: "cache_instance ?s = Some ?c" "token ?s = ''t''" "device_id ?s = ''d1''" by (simp_all add: toy_client_def)
  have inv: "cache_inv ?c" by (rule new_cache_inv) simp
  have same: "?s\<lparr>cache_instance := Some ?c\<rparr> = ?s" by (simp add: toy_client_def)
  have X: "json_parse endpoint_ext = toy_parse" "json_dump endpoint_ext = toy_dump"
    "json_pretty endpoint_ext = toy_dump" "steady_now endpoint_ext = (\<lambda>_. 0)"
    by (simp_all add: endpoint_ext_def toy_client_ext_def)
  have get: "cache_get now ''k'' ?c = ([], ?c)" for now by (simp add: cache_get_def new_cache_def)
  have post: "http_post endpoint_ext a p path hs b w = (Some (200, enc ?r), w)" for a p path hs b w
    by (simp add: endpoint_ext_def)
  have body: "parse_body endpoint_ext (enc ?r) = Inr ?r"
    by (simp add: parse_body_def parse_def X obj_def del: enc.simps)
  have ask: "ask_meta endpoint_ext ''/get-file-endpoints'' ''k'' ?s = Ret ?r ?s"
    using c X body post
    by (simp add: ask_meta_def makeRequest_def send_authorized_def post_def on_web_def log_json_def
        path_payload_def obj_def set_key_def dump_def toy_dump_def del: enc.simps)
  have resp: "endpoints_of ?r = Inr [''s1'']" "?r \<noteq> JNull"
    by (simp_all add: endpoints_of_def obj_def fmlookup_of_list get_strings_def)
  have fit: "fits ''k'' [''s1'']" "list_size ''k'' [''s1''] \<le> unat (maxSize ?c)"
    by (simp_all add: fits_def list_size_def new_cache_def)
  have "\<exists>t. getFileEndpoints endpoint_ext ''k'' ?s = Ret [''s1''] t \<and> web t = web ?s \<and>
      (\<forall>u. cache_instance u = cache_instance t \<and>
           steady_now endpoint_ext (web u) < steady_now endpoint_ext (web ?s) + defaultTTL ?c \<longrightarrow>
         (\<exists>d. getFileEndpoints endpoint_ext ''k'' u = Ret [''s1''] (u\<lparr>cache_instance := Some d\<rparr>)))"
    by (rule endpoints_are_cached [OF c(1) inv _ _ resp(2,1)])
       (use fit get ask c(1) in \<open>simp_all only: X same fst_conv snd_conv list.simps not_False_eq_True\<close>)
  moreover have "0 < defaultTTL ?c" by (simp add: new_cache_def)
  ultimately show ?thesis by (auto simp: X)
qed

end
