(* ===== verification/Watcher_Props.thy ===== *)
theory Watcher_Props
  imports Watcher
begin

text \<open>
  Properties of the directory watcher.  The queue without duplicates is stated as an interface
  (locale \<open>dedup_queue\<close>) and interpreted on the queue and the set of the code; every event that
  the watcher handles is a run of insertions into it.
\<close>

section \<open>A queue that holds each element once\<close>

locale dedup_queue =
  fixes push :: "'e \<Rightarrow> 'q \<Rightarrow> 'q"
    and pop :: "'q \<Rightarrow> ('e \<times> 'q) option"
    and contents :: "'q \<Rightarrow> 'e list"
    and ok :: "'q \<Rightarrow> bool"
  assumes push_ok: "ok q \<Longrightarrow> ok (push e q)"
    and push_contents: "ok q \<Longrightarrow>
      contents (push e q) = (if e \<in> set (contents q) then contents q else contents q @ [e])"
    and pop_None: "pop q = None \<longleftrightarrow> contents q = []"
    and pop_Some: "ok q \<Longrightarrow> pop q = Some (e, r) \<Longrightarrow> ok r \<and> contents q = e # contents r"
    and ok_distinct: "ok q \<Longrightarrow> distinct (contents q)"
begin

lemma pushes_ok: "ok q \<Longrightarrow> ok (fold push es q)"
  by (induction es arbitrary: q) (simp_all add: push_ok)

text \<open>What is queued stays where it is; the new elements follow, each once.\<close>

lemma pushes_contents:
  "ok q \<Longrightarrow> \<exists>ns. contents (fold push es q) = contents q @ ns \<and>
     set (contents (fold push es q)) = set (contents q) \<union> set es"
proof (induction es arbitrary: q)
  case (Cons e es)
  from Cons.IH [OF push_ok [OF Cons.prems, of e]] push_contents [OF Cons.prems, of e]
  show ?case by (auto split: if_splits)
qed simp

lemma pushes_new:
  "ok q \<Longrightarrow> distinct es \<Longrightarrow> set es \<inter> set (contents q) = {} \<Longrightarrow>
     contents (fold push es q) = contents q @ es"
proof (induction es arbitrary: q)
  case (Cons e es)
  have "contents (push e q) = contents q @ [e]" using Cons.prems by (simp add: push_contents)
  with Cons.IH [OF push_ok [OF Cons.prems(1)], of e] Cons.prems show ?case by auto
qed simp

lemma popped_once: "ok q \<Longrightarrow> pop q = Some (e, r) \<Longrightarrow> e \<notin> set (contents r)"
  using pop_Some [of q e r] ok_distinct [of q] by simp

end

definition queue_ok :: "event_queue \<Rightarrow> bool" where
  "queue_ok q \<longleftrightarrow> distinct (queue q) \<and> event_map q = set (queue q)"

interpretation evq: dedup_queue push_event pop_event queue queue_ok
  by unfold_locales (auto simp: queue_ok_def push_event_def pop_event_def split: list.splits)

section \<open>What the watcher does is pushing\<close>

definition pushes :: "watcher \<Rightarrow> watcher \<Rightarrow> bool" where
  "pushes w v \<longleftrightarrow> (\<exists>es. events v = fold push_event es (events w))"

named_theorems pushes_intros "steps of the watcher that only push events"

lemma pushes_refl [pushes_intros]: "pushes w w"
  unfolding pushes_def by (rule exI [of _ "[]"]) simp

lemma pushes_trans: "pushes w v \<Longrightarrow> pushes v u \<Longrightarrow> pushes w u"
  unfolding pushes_def by (metis comp_def fold_append)

lemma pushes_same: "pushes w v \<Longrightarrow> events u = events v \<Longrightarrow> pushes w u"
  by (simp add: pushes_def)

lemma pushes_report [pushes_intros]: "pushes w v \<Longrightarrow> pushes w (report e v)"
  by (rule pushes_trans, assumption) (auto simp: pushes_def report_def intro: exI [of _ "[e]"])

lemma pushes_quiet [pushes_intros]:
  "pushes w v \<Longrightarrow> pushes w (forget p v)" "pushes w v \<Longrightarrow> pushes w (remember p v)"
  "pushes w v \<Longrightarrow> pushes w (add_watch X p v)" "pushes w v \<Longrightarrow> pushes w (v\<lparr>wd_to_path := m\<rparr>)"
  "pushes w v \<Longrightarrow> pushes w (v\<lparr>move_cookie_map := c\<rparr>)"
  by (simp_all add: pushes_def forget_def remember_def add_watch_def Let_def)

lemma pushes_fold [pushes_intros]:
  assumes "pushes w v" and "\<And>x u. pushes w u \<Longrightarrow> pushes w (g x u)" shows "pushes w (fold g xs v)"
  using assms(1) by (induction xs arbitrary: v) (simp_all add: assms(2))

lemma pushes_handlers [pushes_intros]:
  "pushes w v \<Longrightarrow> pushes w (on_delete X f b p v)"
  "pushes w v \<Longrightarrow> pushes w (on_moved_from_dir X f p c v)"
  "pushes w v \<Longrightarrow> pushes w (on_moved_to_dir X f p p' c v)"
  "pushes w v \<Longrightarrow> pushes w (report_generic e p t v)"
  by (auto simp: on_delete_def on_moved_from_dir_def on_moved_to_dir_def report_generic_def Let_def
      split: option.split intro!: pushes_intros)

lemma pushes_handle_event [pushes_intros]: "pushes w v \<Longrightarrow> pushes w (handle_event X f ev v)"
  by (auto simp: handle_event_def Let_def split: option.split intro!: pushes_intros)

text \<open>C21: The queue of the watcher and the set beside it name the same events, each once, whatever
  happens in the watched directory: a turn of the watcher only appends events that are not queued, and
  an event that is taken out can be queued again.\<close>

theorem events_queued_once_in_order:
  assumes "queue_ok (events w)" and "watch_turn X f r w = Some v"
  shows "queue_ok (events v) \<and> (\<exists>ns. queue (events v) = queue (events w) @ ns) \<and>
    (\<forall>e q. pop_event (events v) = Some (e, q) \<longrightarrow>
       queue_ok q \<and> queue (events v) = e # queue q \<and> queue (push_event e q) = queue q @ [e])"
proof -
  have "pushes w v"
    using assms(2) by (auto simp: watch_turn_def split: read_result.splits intro!: pushes_intros)
  then obtain es where es: "events v = fold push_event es (events w)" by (auto simp: pushes_def)
  have ok: "queue_ok (events v)" using evq.pushes_ok [OF assms(1), of es] es by simp
  have "queue_ok q \<and> queue (events v) = e # queue q \<and> queue (push_event e q) = queue q @ [e]"
    if "pop_event (events v) = Some (e, q)" for e q
    using evq.pop_Some [OF ok that] evq.popped_once [OF ok that] evq.push_contents by simp
  with ok evq.pushes_contents [OF assms(1), of es] es show ?thesis by auto
qed

section \<open>A directory that is moved away\<close>

lemma fold_forget: "fold forget ps w = w\<lparr>snapshot := snapshot w |-| fset_of_list ps\<rparr>"
proof (induction ps arbitrary: w)
  case (Cons p ps)
  have "snapshot w |-| {|p|} |-| fset_of_list ps = snapshot w |-| finsert p (fset_of_list ps)" by auto
  with Cons show ?case by (simp add: forget_def)
qed simp

lemma fold_report: "fold (\<lambda>c. report (E c)) cs w = w\<lparr>events := fold push_event (map E cs) (events w)\<rparr>"
  by (induction cs arbitrary: w) (simp_all add: report_def)

text \<open>C22: When a directory p that the watcher knows is moved away, everything the watcher knew below it is
  reported as moved, each path once and the deepest first, then the directory itself, and the snapshot
  forgets exactly these paths.  The paths are gone when their kind is asked for, so a sub-directory is
  reported as a file.\<close>

theorem moved_directory_reported_deepest_first:
  assumes ev: "in_moved_from ev" "in_isdir ev" "\<not> in_create ev" "\<not> in_delete ev" "\<not> in_modify ev"
      "cookie ev \<noteq> 0"
    and dir: "wd_to_path w (wd ev) = Some d" and p: "p = path_append d (ev_name ev)"
    and known: "p |\<in>| snapshot w" and X: "scan_ok X"
    and gone: "\<And>q. is_descendant p q \<Longrightarrow> \<not> fs_is_directory f q"
    and q: "queue_ok (events w)" "\<And>e. e \<in> set (queue (events w)) \<Longrightarrow> eventType e \<noteq> MovedFrom"
  shows "\<exists>cs. set cs = {c. c |\<in>| snapshot w \<and> is_descendant p c \<and> c \<noteq> p} \<and> distinct cs \<and>
    sorted_wrt (\<lambda>a b. path_depth b \<le> path_depth a) cs \<and>
    queue (events (handle_event X f ev w)) =
      queue (events w) @ map (\<lambda>c. mk_event MovedFrom c FileT) cs @ [mk_event MovedFrom p DirectoryT] \<and>
    fset (snapshot (handle_event X f ev w)) = {c. c |\<in>| snapshot w \<and> \<not> is_descendant p c} \<and>
    move_cookie_map (handle_event X f ev w) (cookie ev) = Some p"
proof -
  let ?all = "get_snapshot_entries X (snapshot w) p"
  let ?cs = "sort_key (\<lambda>c. - int (path_depth c)) (filter (\<lambda>q. q \<noteq> p) ?all)"
  let ?es = "map (\<lambda>c. mk_event MovedFrom c FileT) ?cs @ [mk_event MovedFrom p DirectoryT]"
  have all: "set ?all = {c. c |\<in>| snapshot w \<and> is_descendant p c}" "distinct ?all"
    using X by (auto simp: get_snapshot_entries_def scan_ok_def)
  have p_in: "p \<in> set ?all" using known by (simp add: all is_descendant_def)
  have kinds: "map (\<lambda>c. mk_event MovedFrom c (kind_of f c)) ?cs = map (\<lambda>c. mk_event MovedFrom c FileT) ?cs"
    using gone by (auto simp: kind_of_def all)
  have w: "w\<lparr>wd_to_path := (wd_to_path w)(wd ev \<mapsto> d)\<rparr> = w" using dir by (simp add: fun_upd_idem)
  have moved: "on_moved_from_dir X f p (cookie ev) w = w\<lparr>
      events := fold push_event ?es (events w), snapshot := snapshot w |-| fset_of_list ?all,
      move_cookie_map := (move_cookie_map w)(cookie ev \<mapsto> p)\<rparr>"
    using p_in by (simp add: on_moved_from_dir_def Let_def fold_forget fold_report [of _ ?cs] kinds report_def)
  have none: "mk_event MovedFrom c t \<notin> set (queue (events w))" for c t using q(2) by fastforce
  have new: "queue (fold push_event ?es (events w)) = queue (events w) @ ?es"
    by (rule evq.pushes_new [OF q(1)]) (use all(2) none in \<open>auto simp: distinct_map inj_on_def\<close>)
  have again: "push_event (mk_event MovedFrom p DirectoryT) (fold push_event ?es (events w))
      = fold push_event ?es (events w)"
    using evq.pushes_ok [OF q(1), of ?es] new by (simp add: push_event_def queue_ok_def)
  have "handle_event X f ev w = on_moved_from_dir X f p (cookie ev) w"
    using ev dir again w by (simp add: handle_event_def p [symmetric] Let_def report_generic_def moved report_def)
  moreover have "sorted_wrt (\<lambda>a b. path_depth b \<le> path_depth a) ?cs"
    using sorted_sort_key [of "\<lambda>c. - int (path_depth c)" "filter (\<lambda>q. q \<noteq> p) ?all"]
    by (simp add: sorted_map)
  ultimately show ?thesis
    using moved new all by (intro exI [of _ ?cs]) (auto simp: fset_of_list.rep_eq)
qed

section \<open>Witnesses\<close>

lemma two_elements:
  assumes "set xs = {a, b}" and "distinct xs" and "a \<noteq> b" shows "xs = [a, b] \<or> xs = [b, a]"
proof -
  have "length xs = 2" using assms distinct_card [of xs] by simp
  then obtain c d where "xs = [c, d]" by (auto simp: numeral_2_eq_2 length_Suc_conv)
  with assms show ?thesis by (auto simp: doubleton_eq_iff)
qed

definition move_out :: inotify_event where
  "move_out = \<lparr>wd = 1, in_create = False, in_delete = False, in_modify = False, in_moved_from = True,
     in_moved_to = False, in_isdir = True, cookie = 7, ev_name = ''d''\<rparr>"

definition listing_watch :: watch_ext where
  "listing_watch = \<lparr>inotify_init = True, inotify_add_watch = (\<lambda>_. 2), iterate = Some,
     scan = (\<lambda>S. sorted_list_of_fset S)\<rparr>"

definition watched :: watcher where
  "watched = \<lparr>events = \<lparr>queue = [], event_map = {}\<rparr>, snapshot = {|''/h'', ''/h/d'', ''/h/d/e'', ''/h/d/e/f.txt''|},
     wd_to_path = [1 \<mapsto> ''/h''], move_cookie_map = Map.empty\<rparr>"

lemma move_out_simps:
  "in_moved_from move_out" "in_isdir move_out" "\<not> in_create move_out" "\<not> in_delete move_out"
  "\<not> in_modify move_out" "cookie move_out \<noteq> 0"
  by (simp_all add: move_out_def)

lemma watched_simps:
  "wd_to_path watched (wd move_out) = Some ''/h''" "''/h/d'' |\<in>| snapshot watched" "queue (events watched) = []"
  by (simp_all add: watched_def move_out_def)

lemma watched_ok: "queue_ok (events watched)"
  by (simp add: queue_ok_def watched_def)

lemma listing_ok: "scan_ok listing_watch"
  by (simp add: scan_ok_def listing_watch_def sorted_list_of_fset.rep_eq)

theorem events_queued_once_in_order_witness:
  "\<exists>v. watch_turn listing_watch fmempty (Read_events [move_out, move_out]) watched = Some v \<and>
     queue_ok (events v)"
  using events_queued_once_in_order [OF watched_ok, of listing_watch fmempty "Read_events [move_out, move_out]"]
  by (simp add: watch_turn_def)

theorem moved_directory_reported_deepest_first_witness:
  "queue (events (handle_event listing_watch fmempty move_out watched)) =
     [mk_event MovedFrom ''/h/d/e/f.txt'' FileT, mk_event MovedFrom ''/h/d/e'' FileT,
      mk_event MovedFrom ''/h/d'' DirectoryT]"
proof -
  have gone: "\<not> fs_is_directory fmempty q" if "is_descendant ''/h/d'' q" for q
    using that by (auto simp: fs_is_directory_def node_at_def is_descendant_def with_sep_def prefix_def
        fpath_of_def split: option.split list.splits)
  have path: "path_append ''/h'' (ev_name move_out) = ''/h/d''" by code_simp
  obtain cs where cs: "set cs = {c. c |\<in>| snapshot watched \<and> is_descendant ''/h/d'' c \<and> c \<noteq> ''/h/d''}"
      "distinct cs" "sorted_wrt (\<lambda>a b. path_depth b \<le> path_depth a) cs"
      "queue (events (handle_event listing_watch fmempty move_out watched)) =
        map (\<lambda>c. mk_event MovedFrom c FileT) cs @ [mk_event MovedFrom ''/h/d'' DirectoryT]"
    using moved_directory_reported_deepest_first
        [OF move_out_simps watched_simps(1) path [symmetric] watched_simps(2) listing_ok gone watched_ok]
    by (auto simp: watched_simps(3))
  have "{c. c |\<in>| snapshot watched \<and> is_descendant ''/h/d'' c \<and> c \<noteq> ''/h/d''} = {''/h/d/e/f.txt'', ''/h/d/e''}"
    by (auto simp: watched_def is_descendant_def with_sep_def)
  with cs(1,2) have "cs = [''/h/d/e/f.txt'', ''/h/d/e''] \<or> cs = [''/h/d/e'', ''/h/d/e/f.txt'']"
    by (intro two_elements) auto
  moreover have "path_depth ''/h/d/e/f.txt'' = 4" "path_depth ''/h/d/e'' = 3"
    by (simp_all add: path_depth_def)
  ultimately show ?thesis using cs(3,4) by auto
qed

end
