(* ===== verification/Notification_Props.thy ===== *)
theory Notification_Props
  imports Notification_Server Toy_Codec
begin

text \<open>
  Properties of the notification server, over every interleaving of its steps: what the responses of
  a session can be, whom a broadcast reaches, and that a session whose time is over stays subscribed.
\<close>

section \<open>Delivery\<close>

lemma deliver_simps [simp]:
  "subscriptions (deliver msg ids s) = subscriptions s" "next_session (deliver msg ids s) = next_session s"
  unfolding deliver_def by (induction ids arbitrary: s) simp_all

lemma waiting_deliver [simp]: "waiting (deliver msg ids s) u = waiting s u"
  by (simp add: waiting_def)

lemma deliver_sessions:
  "distinct ids \<Longrightarrow> sessions (deliver msg ids s) i =
     (if i \<in> set ids then map_option (sendNotification msg) (sessions s i) else sessions s i)"
  unfolding deliver_def by (induction ids arbitrary: s) auto

text \<open>The user a message is for, as the listener's handler reads it.\<close>

definition addressed :: "('x) codec_scheme \<Rightarrow> string \<Rightarrow> string \<Rightarrow> bool" where
  "addressed X u m \<longleftrightarrow> (\<exists>j. parse X m = Inr j \<and> value_string j ''user_id'' ''default'' = Inr u)"

text \<open>A request of the listener does nothing, unsubscribes only, or delivers to one user.\<close>

lemma handler_cases:
  obtains (ignored) "handleRequest X verb target body s = Ret (200, ''Notification processed'') s"
  | (broken) u where "handleRequest X verb target body s = Ret (200, ''Notification processed'')
        (s\<lparr>subscriptions := (subscriptions s)(u := None)\<rparr>)"
      and "addressed X u body" "\<exists>j. parse X body = Inr j \<and> json_pretty X j = None"
  | (sent) u where "handleRequest X verb target body s = Ret (200, ''Notification processed'')
        (deliver body (waiting s u) (s\<lparr>subscriptions := (subscriptions s)(u := None)\<rparr>))"
      and "addressed X u body"
proof -
  consider "\<not> (verb = ''POST'' \<and> target = ''/broadcast'')" | e where "parse X body = Inl e"
    | j e where "parse X body = Inr j" "value_string j ''user_id'' ''default'' = Inl e"
    | j u where "parse X body = Inr j" "value_string j ''user_id'' ''default'' = Inr u"
    by (cases "parse X body") (auto, meson sum.exhaust)
  then show ?thesis
  proof cases
    case (4 j u)
    then have "addressed X u body" by (auto simp: addressed_def)
    then show ?thesis
      by (cases "verb = ''POST'' \<and> target = ''/broadcast''"; cases "json_pretty X j")
        (use 4 ignored broken [of u] sent [of u] in
          \<open>auto simp: handleRequest_def httpRequestHandler_def broadcastNotification_def\<close>)
  qed (use ignored in \<open>auto simp: handleRequest_def httpRequestHandler_def\<close>)
qed

section \<open>The invariant\<close>

text \<open>
  A subscribed session waits, or its time is over and it has been told \<open>false\<close>; a session that is not
  subscribed has not asked yet, or has been sent one message for its user.  What reaches the peer is
  everything, or only the first response, when the socket was shut down after it.
\<close>

definition session_ok :: "('x) codec_scheme \<Rightarrow> bool \<Rightarrow> session \<Rightarrow> bool" where
  "session_ok X subscribed se \<longleftrightarrow>
     (if subscribed then (timer se, written se) \<in> {(Armed, []), (Expired, []), (Idle, [''false''])}
      else (timer se, written se) = (Idle, []) \<or>
        (\<exists>m. addressed X (session_user se) m \<and>
           (timer se, written se) \<in>
             {(Idle, [m]), (Expired, [m]), (Idle, [''false'', m]), (Idle, [m, ''false''])})) \<and>
     (shut se \<longrightarrow> written se \<noteq> []) \<and>
     (received se = written se \<or> shut se \<and> received se = take 1 (written se))"

definition ns_ok :: "('x) codec_scheme \<Rightarrow> notification_server \<Rightarrow> bool" where
  "ns_ok X s \<longleftrightarrow>
     (\<forall>i se. sessions s i = Some se \<longrightarrow>
        i < next_session s \<and> session_ok X (i \<in> set (waiting s (session_user se))) se) \<and>
     (\<forall>u. distinct (waiting s u) \<and>
        (\<forall>i \<in> set (waiting s u). \<exists>se. sessions s i = Some se \<and> session_user se = u))"

lemma ns_okD:
  assumes "ns_ok X s"
  shows "sessions s i = Some se \<Longrightarrow> i < next_session s"
    and "sessions s i = Some se \<Longrightarrow> session_ok X (i \<in> set (waiting s (session_user se))) se"
    and "distinct (waiting s u)"
    and "i \<in> set (waiting s u) \<Longrightarrow> \<exists>se. sessions s i = Some se \<and> session_user se = u"
  using assms by (auto simp: ns_ok_def)

lemma waiting_simps [simp]:
  "waiting (s\<lparr>sessions := m\<rparr>) u = waiting s u" "waiting (s\<lparr>next_session := n\<rparr>) u = waiting s u"
  "waiting (s\<lparr>subscriptions := (subscriptions s)(v := None)\<rparr>) u = (if u = v then [] else waiting s u)"
  by (simp_all add: waiting_def)

lemma ns_okI:
  assumes "\<And>i se. sessions s i = Some se \<Longrightarrow> i < next_session s"
    and "\<And>i se. sessions s i = Some se \<Longrightarrow> session_ok X (i \<in> set (waiting s (session_user se))) se"
    and "\<And>u. distinct (waiting s u)"
    and "\<And>i u. i \<in> set (waiting s u) \<Longrightarrow> \<exists>se. sessions s i = Some se \<and> session_user se = u"
  shows "ns_ok X s"
  using assms by (simp add: ns_ok_def)

lemma new_server_ok: "ns_ok X new_server"
  by (simp add: ns_ok_def new_server_def waiting_def)

lemma accept_ok:
  assumes "ns_ok X s" shows "ns_ok X (accept_session s)"
proof -
  have "next_session s \<notin> set (waiting s u)" for u using ns_okD(1,4) [OF assms] by blast
  with assms show ?thesis
    by (auto simp: ns_ok_def accept_session_def session_ok_def less_Suc_eq split: if_splits)
qed

lemma request_ok:
  assumes ok: "ns_ok X s" and "fresh i s" shows "ns_ok X (handle_request i target s)"
proof -
  from assms(2) obtain se where se: "sessions s i = Some se" "written se = []"
      and out: "\<And>u. i \<notin> set (waiting s u)" by (auto simp: fresh_def)
  have new: "\<not> shut se" "received se = []"
    using ns_okD(2) [OF ok se(1)] se(2) by (auto simp: session_ok_def)
  let ?u = "target_user target"
  have w: "waiting (handle_request i target s) v = (if v = ?u then waiting s ?u @ [i] else waiting s v)" for v
    by (simp add: handle_request_def se Let_def waiting_def)
  have t: "sessions (handle_request i target s) = (sessions s)(i \<mapsto> se\<lparr>session_user := ?u, timer := Armed\<rparr>)"
    "next_session (handle_request i target s) = next_session s"
    by (simp_all add: handle_request_def se Let_def)
  show ?thesis
  proof (rule ns_okI)
    fix j st assume st: "sessions (handle_request i target s) j = Some st"
    then show "j < next_session (handle_request i target s)"
      using t ns_okD(1) [OF ok] se(1) by (auto split: if_splits)
    show "session_ok X (j \<in> set (waiting (handle_request i target s) (session_user st))) st"
    proof (cases "j = i")
      case True
      with st t se(2) have "st = se\<lparr>session_user := ?u, timer := Armed\<rparr>" by simp
      with True w se(2) new show ?thesis by (simp add: session_ok_def)
    next
      case False
      with st t have "sessions s j = Some st" by simp
      with ns_okD(2) [OF ok this] False w show ?thesis by (auto split: if_splits)
    qed
  next
    show "distinct (waiting (handle_request i target s) v)" for v
      using ns_okD(3) [OF ok] out w by simp
    show "\<exists>st. sessions (handle_request i target s) j = Some st \<and> session_user st = v"
      if "j \<in> set (waiting (handle_request i target s) v)" for j v
      using that w t ns_okD(4) [OF ok, of j v] out by (auto split: if_splits)
  qed
qed

lemma session_change_ok:
  assumes ok: "ns_ok X s" and se: "sessions s i = Some se" and "session_user se' = session_user se"
    and "\<And>b. session_ok X b se \<Longrightarrow> session_ok X b se'"
  shows "ns_ok X (s\<lparr>sessions := (sessions s)(i \<mapsto> se')\<rparr>)"
proof (rule ns_okI)
  fix j st assume st: "sessions (s\<lparr>sessions := (sessions s)(i \<mapsto> se')\<rparr>) j = Some st"
  then show "j < next_session (s\<lparr>sessions := (sessions s)(i \<mapsto> se')\<rparr>)"
    using ns_okD(1) [OF ok] se by (auto split: if_splits)
  show "session_ok X (j \<in> set (waiting (s\<lparr>sessions := (sessions s)(i \<mapsto> se')\<rparr>) (session_user st))) st"
    using st assms(3,4) ns_okD(2) [OF ok] se by (auto split: if_splits)
next
  show "distinct (waiting (s\<lparr>sessions := (sessions s)(i \<mapsto> se')\<rparr>) u)" for u
    using ns_okD(3) [OF ok] by simp
  show "\<exists>st. sessions (s\<lparr>sessions := (sessions s)(i \<mapsto> se')\<rparr>) j = Some st \<and> session_user st = u"
    if "j \<in> set (waiting (s\<lparr>sessions := (sessions s)(i \<mapsto> se')\<rparr>) u)" for j u
    using that ns_okD(4) [OF ok, of j u] assms(2,3) by auto
qed

lemma deliver_ok:
  assumes ok: "ns_ok X s" and m: "addressed X u m"
  shows "ns_ok X (deliver m (waiting s u) (s\<lparr>subscriptions := (subscriptions s)(u := None)\<rparr>))"
    (is "ns_ok X ?t")
proof -
  have w: "waiting ?t v = (if v = u then [] else waiting s v)" for v by simp
  have se: "sessions ?t i = (if i \<in> set (waiting s u) then map_option (sendNotification m) (sessions s i)
      else sessions s i)" for i
    using deliver_sessions [OF ns_okD(3) [OF ok]] by simp
  have "session_ok X (i \<in> set (waiting ?t (session_user st))) st \<and> i < next_session ?t"
    if st: "sessions ?t i = Some st" for i st
  proof (cases "i \<in> set (waiting s u)")
    case True
    with ns_okD(4) [OF ok True] st se obtain sa where
      sa: "sessions s i = Some sa" "session_user sa = u" "st = sendNotification m sa" by auto
    with ns_okD(1,2) [OF ok sa(1)] True m w show ?thesis
      by (auto simp: session_ok_def sendNotification_def write_body_def)
  next
    case False
    with st se have sa: "sessions s i = Some st" by simp
    with ns_okD(1,2) [OF ok sa] False w show ?thesis by auto
  qed
  moreover have "\<exists>st. sessions ?t i = Some st \<and> session_user st = v" if "i \<in> set (waiting ?t v)" for i v
  proof -
    from that w have v: "v \<noteq> u" "i \<in> set (waiting s v)" by (auto split: if_splits)
    with ns_okD(4) [OF ok v(2)] obtain sa where "sessions s i = Some sa" "session_user sa = v" by auto
    with se v ns_okD(4) [OF ok, of i u] show ?thesis by auto
  qed
  ultimately show ?thesis using ns_okD(3) [OF ok] w unfolding ns_ok_def by auto
qed

text \<open>What the parser accepts can be printed again, so the log line of a broadcast does not throw.\<close>

definition prints :: "('x) codec_scheme \<Rightarrow> bool" where
  "prints X \<longleftrightarrow> (\<forall>m j. parse X m = Inr j \<longrightarrow> json_pretty X j \<noteq> None)"

lemma ns_step_ok:
  assumes "prints X" and "ns_step X s t" and "ns_ok X s" shows "ns_ok X t"
  using assms(2)
proof (cases rule: ns_step.cases)
  case accept
  with assms(3) show ?thesis by (simp add: accept_ok)
next
  case (request i target)
  with assms(3) show ?thesis by (simp add: request_ok)
next
  case (expire i se)
  have "ns_ok X (s\<lparr>sessions := (sessions s)(i \<mapsto> se\<lparr>timer := Expired\<rparr>)\<rparr>)"
    by (rule session_change_ok [OF assms(3) expire(2)])
       (use expire(3) in \<open>auto simp: session_ok_def split: if_splits\<close>)
  with expire show ?thesis by (simp add: timer_expires_def)
next
  case (timeout i se)
  have "ns_ok X (s\<lparr>sessions := (sessions s)(i \<mapsto> sendTimeoutResponse se)\<rparr>)"
    by (rule session_change_ok [OF assms(3) timeout(2)])
       (use timeout(3) in \<open>auto simp: session_ok_def sendTimeoutResponse_def write_body_def split: if_splits\<close>)
  with timeout show ?thesis by (simp add: timer_handler_def)
next
  case (written i se)
  have "ns_ok X (s\<lparr>sessions := (sessions s)(i \<mapsto> se\<lparr>shut := True\<rparr>)\<rparr>)"
    by (rule session_change_ok [OF assms(3) written(2)])
       (use written(3) in \<open>auto simp: session_ok_def split: if_splits\<close>)
  with written show ?thesis by (simp add: write_completes_def)
next
  case (http verb target body r)
  show ?thesis
  proof (cases rule: handler_cases [of X verb target body s])
    case (broken u)
    with assms(1) show ?thesis unfolding prints_def by blast
  next
    case (sent u)
    with http deliver_ok [OF assms(3), of u body] show ?thesis by simp
  qed (use http assms(3) in auto)
qed

lemma reachable_ok:
  assumes "prints X" and "(ns_step X)\<^sup>*\<^sup>* new_server s" shows "ns_ok X s"
  using assms(2) by (induction rule: rtranclp_induct) (auto intro: new_server_ok ns_step_ok [OF assms(1)])

lemma broadcast_run:
  assumes "prints X" and ok: "ns_ok X s" and m: "addressed X u m"
  obtains t where "handleRequest X ''POST'' ''/broadcast'' m s = Ret (200, ''Notification processed'') t"
    and "\<And>v. waiting t v = (if v = u then [] else waiting s v)"
    and "\<And>i. sessions t i = (if i \<in> set (waiting s u) then map_option (sendNotification m) (sessions s i)
           else sessions s i)"
proof -
  let ?t = "deliver m (waiting s u) (s\<lparr>subscriptions := (subscriptions s)(u := None)\<rparr>)"
  from m obtain j where j: "parse X m = Inr j" "value_string j ''user_id'' ''default'' = Inr u"
    by (auto simp: addressed_def)
  with assms(1) obtain p where "json_pretty X j = Some p" by (auto simp: prints_def)
  with j have "handleRequest X ''POST'' ''/broadcast'' m s = Ret (200, ''Notification processed'') ?t"
    by (simp add: handleRequest_def httpRequestHandler_def broadcastNotification_def)
  with that [of ?t] deliver_sessions [OF ns_okD(3) [OF ok]] show ?thesis by simp
qed

lemma distinct_count_list_1: "distinct xs \<Longrightarrow> x \<in> set xs \<Longrightarrow> count_list xs x = 1"
  by (induction xs) auto

section \<open>Properties\<close>

text \<open>C27: In every reachable state, a session has been given at most one message, one for its user, and at
  most one timeout response to write, in either order; both reach the peer, or only the first, when the
  socket was shut down after it, and nothing is lost while the socket is open.  While a session is
  subscribed, it is so for its user only, once, and has not been given a message.\<close>

theorem session_responses:
  assumes "prints X" and "(ns_step X)\<^sup>*\<^sup>* new_server s" and "sessions s i = Some se"
  shows "\<exists>ms. length ms \<le> 1 \<and> (\<forall>m \<in> set ms. addressed X (session_user se) m) \<and>
    written se \<in> {ms, ms @ [''false''], ''false'' # ms} \<and>
    (received se = written se \<or> shut se \<and> received se = take 1 (written se)) \<and>
    (\<forall>u. i \<in> set (waiting s u) \<longrightarrow> u = session_user se \<and> ms = [] \<and> count_list (waiting s u) i = 1)"
proof -
  have ok: "ns_ok X s" using reachable_ok [OF assms(1,2)] .
  have sub: "u = session_user se \<and> count_list (waiting s u) i = 1" if "i \<in> set (waiting s u)" for u
    using ns_okD(4) [OF ok that] ns_okD(3) [OF ok, of u] assms(3) that
    by (simp add: distinct_count_list_1)
  have got: "received se = written se \<or> shut se \<and> received se = take 1 (written se)"
    using ns_okD(2) [OF ok assms(3)] by (simp add: session_ok_def)
  from ns_okD(2) [OF ok assms(3)] consider (waits) "written se \<in> {[], [''false'']}"
    | (told) m where "addressed X (session_user se) m" "written se \<in> {[m], [''false'', m], [m, ''false'']}"
        "i \<notin> set (waiting s (session_user se))"
    by (auto simp: session_ok_def split: if_splits)
  then show ?thesis
  proof cases
    case waits
    then show ?thesis using sub got by (intro exI [of _ "[]"]) auto
  next
    case (told m)
    then show ?thesis using sub got by (intro exI [of _ "[m]"]) auto
  qed
qed

text \<open>A message posted to the listener is written to every session that waits for its user, and to
  no other session; all of them are unsubscribed, and the subscriptions of other users stay.\<close>

lemma broadcast_reaches_all_waiting:
  assumes "prints X" and "(ns_step X)\<^sup>*\<^sup>* new_server s" and "addressed X u m"
  shows "\<exists>t. handleRequest X ''POST'' ''/broadcast'' m s = Ret (200, ''Notification processed'') t \<and>
    waiting t u = [] \<and> (\<forall>v. v \<noteq> u \<longrightarrow> waiting t v = waiting s v) \<and>
    (\<forall>i se. sessions s i = Some se \<longrightarrow>
       sessions t i = Some (if i \<in> set (waiting s u) then sendNotification m se else se)) \<and>
    (\<forall>i \<in> set (waiting s u). sessions s i \<noteq> None)"
proof -
  have ok: "ns_ok X s" using reachable_ok [OF assms(1,2)] .
  obtain t where t: "handleRequest X ''POST'' ''/broadcast'' m s = Ret (200, ''Notification processed'') t"
    "\<And>v. waiting t v = (if v = u then [] else waiting s v)"
    "\<And>i. sessions t i = (if i \<in> set (waiting s u) then map_option (sendNotification m) (sessions s i)
       else sessions s i)"
    using broadcast_run [OF assms(1) ok assms(3)] by metis
  have "\<forall>i \<in> set (waiting s u). sessions s i \<noteq> None" using ns_okD(4) [OF ok] by fastforce
  with t show ?thesis by (intro exI [of _ t]) simp
qed

text \<open>A session whose time is over is answered with false but stays subscribed: the next message for
  its user is given to it as a second response, and with that it is used up; the message is lost if the
  socket has been shut down in between.\<close>

lemma timed_out_session_stays_subscribed:
  assumes "prints X" and "(ns_step X)\<^sup>*\<^sup>* new_server s" and "addressed X u m"
    and "i \<in> set (waiting s u)" and "sessions s i = Some se" "timer se = Expired"
  shows "i \<in> set (waiting (timer_handler i s) u) \<and>
    (\<exists>t st. handleRequest X ''POST'' ''/broadcast'' m (timer_handler i s) = Ret (200, ''Notification processed'') t \<and>
       sessions t i = Some st \<and> written st = [''false'', m] \<and> i \<notin> set (waiting t u)) \<and>
    (\<exists>t st. handleRequest X ''POST'' ''/broadcast'' m (write_completes i (timer_handler i s))
         = Ret (200, ''Notification processed'') t \<and>
       sessions t i = Some st \<and> received st = [''false''] \<and> i \<notin> set (waiting t u))"
proof -
  have ok: "ns_ok X s" using reachable_ok [OF assms(1,2)] .
  let ?s1 = "timer_handler i s" and ?s2 = "write_completes i (timer_handler i s)"
  have wait: "i \<in> set (waiting ?s1 u)" "i \<in> set (waiting ?s2 u)"
    using assms(4) by (simp_all add: timer_handler_def write_completes_def)
  have "ns_step X s ?s1" using assms(5,6) by (rule ns_step.timeout)
  from ns_step_ok [OF assms(1) this ok] have ok1: "ns_ok X ?s1" .
  have "u = session_user se" using ns_okD(4) [OF ok assms(4)] assms(5) by simp
  then have "written se = []" "received se = []" "\<not> shut se"
    using ns_okD(2) [OF ok assms(5)] assms(4,6) by (auto simp: session_ok_def)
  then have s1: "sessions ?s1 i = Some (se\<lparr>timer := Idle, written := [''false''], received := [''false'']\<rparr>)"
    by (simp add: timer_handler_def assms(5) sendTimeoutResponse_def write_body_def)
  then have s2: "sessions ?s2 i =
      Some (se\<lparr>timer := Idle, written := [''false''], received := [''false''], shut := True\<rparr>)"
    by (simp add: write_completes_def)
  have "ns_step X ?s1 ?s2" using s1 by (rule ns_step.written) simp
  from ns_step_ok [OF assms(1) this ok1] have ok2: "ns_ok X ?s2" .
  from broadcast_run [OF assms(1) ok1 assms(3)] obtain t1 where
    t1: "handleRequest X ''POST'' ''/broadcast'' m ?s1 = Ret (200, ''Notification processed'') t1"
    "i \<notin> set (waiting t1 u)" "sessions t1 i = map_option (sendNotification m) (sessions ?s1 i)"
    using wait(1) by (metis empty_iff list.set(1))
  from broadcast_run [OF assms(1) ok2 assms(3)] obtain t2 where
    t2: "handleRequest X ''POST'' ''/broadcast'' m ?s2 = Ret (200, ''Notification processed'') t2"
    "i \<notin> set (waiting t2 u)" "sessions t2 i = map_option (sendNotification m) (sessions ?s2 i)"
    using wait(2) by (metis empty_iff list.set(1))
  show ?thesis using wait t1 t2 s1 s2 by (simp add: sendNotification_def write_body_def)
qed

section \<open>Witnesses\<close>

definition ann_waits :: notification_server where
  "ann_waits = handle_request 0 ''/subscribe?userid=ann'' (accept_session new_server)"

definition ann_message :: string where
  "ann_message = enc (obj [(''user_id'', JStr ''ann'')])"

lemma toy_prints: "prints toy_codec"
  by (simp add: prints_def toy_dump_def)

lemma ann_addressed: "addressed toy_codec ''ann'' ann_message"
  by (simp add: addressed_def ann_message_def parse_def value_string_def obj_def fmlookup_of_list
      get_string_def del: enc.simps)

lemma ann_target: "target_user ''/subscribe?userid=ann'' = ''ann''"
  by code_simp

lemma ann_waits_run: "(ns_step X)\<^sup>*\<^sup>* new_server ann_waits"
proof -
  have "ns_step X new_server (accept_session new_server)" by (rule ns_step.accept)
  moreover have "fresh 0 (accept_session new_server)"
    by (simp add: fresh_def accept_session_def new_server_def waiting_def)
  then have "ns_step X (accept_session new_server) ann_waits"
    unfolding ann_waits_def by (rule ns_step.request)
  ultimately show ?thesis by (meson converse_rtranclp_into_rtranclp rtranclp.rtrancl_refl)
qed

lemma ann_waits_simps:
  "sessions ann_waits 0 = Some \<lparr>session_user = ''ann'', timer = Armed, written = [], received = [], shut = False\<rparr>"
  "waiting ann_waits ''ann'' = [0]"
  by (simp_all add: ann_waits_def handle_request_def ann_target accept_session_def new_server_def
      waiting_def Let_def)

theorem session_responses_witness:
  "0 \<notin> set (waiting ann_waits ''bob'')"
  using session_responses [OF toy_prints ann_waits_run ann_waits_simps(1)] by auto

lemma broadcast_reaches_all_waiting_witness:
  "\<exists>t. handleRequest toy_codec ''POST'' ''/broadcast'' ann_message ann_waits
      = Ret (200, ''Notification processed'') t \<and>
    sessions t 0 = Some \<lparr>session_user = ''ann'', timer = Idle, written = [ann_message],
      received = [ann_message], shut = False\<rparr>"
proof -
  from broadcast_reaches_all_waiting [OF toy_prints ann_waits_run ann_addressed]
  obtain t where t: "handleRequest toy_codec ''POST'' ''/broadcast'' ann_message ann_waits
      = Ret (200, ''Notification processed'') t"
    "\<forall>i se. sessions ann_waits i = Some se \<longrightarrow>
       sessions t i = Some (if i \<in> set (waiting ann_waits ''ann'') then sendNotification ann_message se else se)"
    by (elim exE conjE)
  from t(2) ann_waits_simps have
    "sessions t 0 = Some \<lparr>session_user = ''ann'', timer = Idle, written = [ann_message],
      received = [ann_message], shut = False\<rparr>"
    by (simp add: sendNotification_def write_body_def)
  with t(1) show ?thesis by blast
qed

lemma timed_out_session_stays_subscribed_witness:
  "\<exists>t st. handleRequest toy_codec ''POST'' ''/broadcast'' ann_message (timer_handler 0 (timer_expires 0 ann_waits))
      = Ret (200, ''Notification processed'') t \<and>
    sessions t 0 = Some st \<and> written st = [''false'', ann_message]"
proof -
  have "ns_step toy_codec ann_waits (timer_expires 0 ann_waits)"
    by (rule ns_step.expire [OF ann_waits_simps(1)]) simp
  with ann_waits_run have run: "(ns_step toy_codec)\<^sup>*\<^sup>* new_server (timer_expires 0 ann_waits)"
    by (rule rtranclp.rtrancl_into_rtrancl)
  have i: "0 \<in> set (waiting (timer_expires 0 ann_waits) ''ann'')"
    by (simp add: timer_expires_def ann_waits_simps)
  have s: "sessions (timer_expires 0 ann_waits) 0 = Some \<lparr>session_user = ''ann'', timer = Expired, written = [], received = [], shut = False\<rparr>"
    by (simp add: timer_expires_def ann_waits_simps)
  show ?thesis
    using timed_out_session_stays_subscribed [OF toy_prints run ann_addressed i s] by auto
qed

end
