(* ===== verification/Client_Events.thy ===== *)
theory Client_Events
  imports Process_Local Process_Remote Server_Utils_Props Watcher_Props Notification_Props Metaserver
begin

text \<open>
  How events travel: a local event from the watcher's queue to the record and the service, and a
  change on the service, announced by the metadata server and passed on by the notification server,
  to the directories of the user's other devices.
\<close>

section \<open>Local events\<close>

text \<open>The loop takes the events one by one, so an exception leaves the later ones in the queue.\<close>

lemma drain_events_run:
  assumes "queue_ok q" and "length (queue q) \<le> k"
  shows "case for_each (queue q) (process_event_local n X) c of
      Ret u t \<Rightarrow> drain_events k n X \<lparr>client_state = c, pending = q\<rparr> =
        Ret () \<lparr>client_state = t, pending = \<lparr>queue = [], event_map = {}\<rparr>\<rparr>
    | Throw ex t \<Rightarrow> \<exists>es e r u. queue_ok r \<and> queue q = es @ e # queue r \<and>
        for_each es (process_event_local n X) c = Ret () u \<and> process_event_local n X e u = Throw ex t \<and>
        drain_events k n X \<lparr>client_state = c, pending = q\<rparr> = Throw ex \<lparr>client_state = t, pending = r\<rparr>
    | Exit m \<Rightarrow> drain_events k n X \<lparr>client_state = c, pending = q\<rparr> = Exit m
    | Undef \<Rightarrow> drain_events k n X \<lparr>client_state = c, pending = q\<rparr> = Undef
    | Diverge \<Rightarrow> drain_events k n X \<lparr>client_state = c, pending = q\<rparr> = Diverge"
  using assms
proof (induction k arbitrary: q c)
  case 0
  then show ?case by (cases q) (simp add: queue_ok_def)
next
  case (Suc k)
  show ?case
  proof (cases "pop_event q")
    case None
    then have "queue q = []" using evq.pop_None by blast
    with Suc.prems None show ?thesis by (cases q) (simp add: take_event_def queue_ok_def)
  next
    case (Some p)
    then obtain e r where p: "pop_event q = Some (e, r)" by (cases p) auto
    with evq.pop_Some [OF Suc.prems(1)] have r: "queue_ok r" "queue q = e # queue r" by auto
    have IH: "length (queue r) \<le> k" using r(2) Suc.prems(2) by simp
    show ?thesis
    proof (cases "process_event_local n X e c")
      case (Ret u t)
      note IH1 = Suc.IH [OF r(1) IH, of t]
      have step: "drain_events (Suc k) n X \<lparr>client_state = c, pending = q\<rparr> =
          drain_events k n X \<lparr>client_state = t, pending = r\<rparr>"
        using p Ret by (simp add: take_event_def on_client_def)
      show ?thesis
      proof (cases "for_each (queue r) (process_event_local n X) t")
        case (Throw ex v)
        with IH1 obtain es e1 r1 u where "queue_ok r1" "queue r = es @ e1 # queue r1"
          "for_each es (process_event_local n X) t = Ret () u" "process_event_local n X e1 u = Throw ex v"
          "drain_events k n X \<lparr>client_state = t, pending = r\<rparr> = Throw ex \<lparr>client_state = v, pending = r1\<rparr>"
          by auto
        with Ret r(2) Throw step show ?thesis
          by (auto intro!: exI [of _ "e # es"] exI [of _ e1] exI [of _ r1])
      qed (use IH1 Ret r(2) step in simp_all)
    next
      case (Throw ex t)
      have "drain_events (Suc k) n X \<lparr>client_state = c, pending = q\<rparr> =
          Throw ex \<lparr>client_state = t, pending = r\<rparr>"
        using p Throw by (simp add: take_event_def on_client_def)
      with r Throw show ?thesis
        by (auto intro!: exI [of _ "[]"] exI [of _ e] exI [of _ r])
    qed (use p r in \<open>simp_all add: take_event_def on_client_def\<close>)
  qed
qed

text \<open>C23: One turn of the thread for local events is the processing of the queued events, one after the
  other in the order of the queue, on the client alone; afterwards the queue is empty.  If one of them
  throws, the events before it were processed without an exception, the client is in the state in
  which that event threw, and the events after it are still queued, all of them and in their order.\<close>

theorem local_events_processed_in_order:
  assumes "queue_ok (pending s)"
  shows "case for_each (queue (pending s)) (process_event_local n X) (client_state s) of
      Ret u t \<Rightarrow> process_local_events n X s =
        Ret () \<lparr>client_state = t, pending = \<lparr>queue = [], event_map = {}\<rparr>\<rparr>
    | Throw ex t \<Rightarrow> \<exists>es e r u. queue_ok r \<and> queue (pending s) = es @ e # queue r \<and>
        for_each es (process_event_local n X) (client_state s) = Ret () u \<and>
        process_event_local n X e u = Throw ex t \<and>
        process_local_events n X s = Throw ex \<lparr>client_state = t, pending = r\<rparr>
    | Exit m \<Rightarrow> process_local_events n X s = Exit m
    | Undef \<Rightarrow> process_local_events n X s = Undef
    | Diverge \<Rightarrow> process_local_events n X s = Diverge"
proof -
  have "process_local_events n X s =
      drain_events (length (queue (pending s))) n X \<lparr>client_state = client_state s, pending = pending s\<rparr>"
    by (cases s) (simp add: process_local_events_def)
  with drain_events_run [OF assms, of "length (queue (pending s))" n X "client_state s"] show ?thesis
    by (simp only: le_refl)
qed

text \<open>C24: Fetching a file puts the remote text into the local file and records text, hash, size and version
  of the remote file, and nothing else of the record changes.  The echo from the watcher does not loop:
  the event that the file was modified finds its hash in the record and sends nothing.  (The event that
  a file was created is not compared with the record and sends the file.)\<close>

theorem fetched_file_is_not_sent_back:
  assumes "db_ok X view s" and "endpoints_alive X s k es" "es \<noteq> []" and "token s \<noteq> []"
    and "getFile X es k (token s) (web s) = Ret r w" "resp_success r"
      "remote_file X (resp_value r) = Inr (Some (rtxt, ver))"
    and "can_write (fs s) (g_basePath s) k"
    and key: "buildKeyfromFullPath (g_basePath s) p = k"
  shows "\<exists>t. fetchNewFile X k s = Ret True t \<and> local_text t k = rtxt \<and>
    db_docs X view t = (db_docs X view s)(k \<mapsto> file_json (recorded X (File_Metadata k) rtxt ver)) \<and>
    process_event_local n X (mk_event Modified p FileT) t = Ret () t"
proof -
  from fetch_run [OF assms(1-8)] obtain t where t: "fetchNewFile X k s = Ret True t" "local_text t k = rtxt"
    "db_docs X view t = (db_docs X view s)(k \<mapsto> file_json (recorded X (File_Metadata k) rtxt ver))"
    "db_ok X view t" "g_basePath t = g_basePath s" by metis
  have "file_load X (File_Metadata k) t = Ret (Some (recorded X (File_Metadata k) rtxt ver)) t"
    by (rule file_load_Some [OF t(4)]) (simp add: t(3))
  moreover have "content_hash (recorded X (File_Metadata k) rtxt ver) = computeSHA256Hash X rtxt"
    by (simp add: recorded_def)
  ultimately have "process_event_local n X (mk_event Modified p FileT) t = Ret () t"
    using key t(2,5) by (simp add: process_event_local_def file_modified_def)
  with t(1-3) show ?thesis by blast
qed

section \<open>Remote events\<close>

text \<open>What the client does with a notification of the metadata server.\<close>

lemma process_notification:
  fixes s :: "('w, 'd) client"
  assumes "dump X (notification ty u k dev) = Inr v"
  shows "process_event_remote n X (notification ty u k dev) s =
    (if dev = device_id s then Ret () s
     else if ty = ''DIR+'' then remote_dir_created X k s
     else if ty = ''DIR-'' then remote_dir_removed n X k s
     else if ty = ''FILE+'' \<or> ty = ''FILE~'' then remote_file_changed n X k s
     else if ty = ''FILE-'' then remote_file_removed X k s
     else Ret () s)"
proof -
  have "notification ty u k dev \<noteq> JBool False" by (simp add: notification_def obj_def)
  moreover have "event_string (notification ty u k dev) ''device_id'' t = Ret dev t"
    "event_string (notification ty u k dev) ''type'' t = Ret ty t"
    "event_string (notification ty u k dev) ''path'' t = Ret k t" for t :: "('w, 'd) client"
    by (simp_all add: event_string_def notification_def get_string_def)
  ultimately show ?thesis using assms by (simp add: process_event_remote_def)
qed

text \<open>C25: A change that one device makes is passed on: the message the metadata server broadcasts is
  given to every session that waits for the user to write, and is what the peer receives last unless
  the socket was shut down before, which needs an earlier response; the client reads from it the
  notification that was sent, and the device that made the change ignores it.\<close>

theorem notification_passed_on_and_not_echoed:
  assumes X: "codec_total X" and run: "(ns_step X)\<^sup>*\<^sup>* new_server ns" and i: "i \<in> set (waiting ns u)"
    and m: "m = text_of X (notification ty u k dev)"
  shows "\<exists>t se. handleRequest X ''POST'' ''/broadcast'' m ns = Ret (200, ''Notification processed'') t \<and>
    sessions t i = Some se \<and> last (written se) = m \<and>
    (\<not> shut se \<longrightarrow> last (received se) = m) \<and> (shut se \<longrightarrow> 1 < length (written se)) \<and>
    parse X m = Inr (notification ty u k dev) \<and>
    (\<forall>s. device_id s = dev \<longrightarrow> process_event_remote n X (notification ty u k dev) s = Ret () s)"
proof -
  have prints: "prints X" using X by (auto simp: prints_def codec_total_def)
  have read: "parse X m = Inr (notification ty u k dev)"
    using codec_total_parse [OF X] by (simp add: m parse_def)
  have "addressed X u m"
    by (simp add: addressed_def read) (simp add: notification_def obj_def value_string_def fmlookup_of_list get_string_def)
  from broadcast_run [OF prints reachable_ok [OF prints run] this] obtain t where
    t: "handleRequest X ''POST'' ''/broadcast'' m ns = Ret (200, ''Notification processed'') t"
    "\<And>j. sessions t j = (if j \<in> set (waiting ns u) then map_option (sendNotification m) (sessions ns j)
      else sessions ns j)" by metis
  from ns_okD(4) [OF reachable_ok [OF prints run] i] obtain se where "sessions ns i = Some se" by auto
  with t(2) [of i] i have "sessions t i = Some (sendNotification m se)" by simp
  moreover have "shut se \<longrightarrow> written se \<noteq> []"
    using ns_okD(2) [OF reachable_ok [OF prints run] \<open>sessions ns i = Some se\<close>] by (simp add: session_ok_def)
  then have "last (written (sendNotification m se)) = m"
    "\<not> shut (sendNotification m se) \<longrightarrow> last (received (sendNotification m se)) = m"
    "shut (sendNotification m se) \<longrightarrow> 1 < length (written (sendNotification m se))"
    by (auto simp: sendNotification_def write_body_def Suc_lessI)
  moreover have "\<forall>s. device_id s = dev \<longrightarrow> process_event_remote n X (notification ty u k dev) s = Ret () s"
    using process_notification [OF dump_Some [OF codec_total_dump [OF X]]] by simp
  ultimately show ?thesis using t(1) read by blast
qed

text \<open>C26: When another device has deleted a file, the client removes the file, its document and its entry
  in the listing of its directory, and leaves the rest of the record alone.\<close>

theorem remote_deletion_removes_file:
  assumes ok: "db_ok X view s" and dev: "dev \<noteq> device_id s"
    and par: "parent_of k = Some p" "db_docs X view s p = Some (dir_json dm)" "directoryName dm = p"
    and below_root: "snd (fpath_of (buildFullPath (g_basePath s) k)) \<noteq> []"
  shows "\<exists>t. process_event_remote n X (notification ''FILE-'' u k dev) s = Ret () t \<and>
    \<not> fs_exists (fs t) (buildFullPath (g_basePath s) k) \<and>
    db_docs X view t = (db_docs X view s)
      (k := None, p \<mapsto> dir_json (dm\<lparr>files := removeAll k (files dm)\<rparr>))"
proof -
  obtain f where f: "removeEntry k s = Ret () (s\<lparr>fs := f\<rparr>)"
    "\<not> fs_exists f (buildFullPath (g_basePath s) k)" using removeEntry_removes [OF below_root] .
  have ok1: "db_ok X view (s\<lparr>fs := f\<rparr>)" using ok by simp
  obtain e1 where e1: "db_remove X k (s\<lparr>fs := f\<rparr>) = Ret True (s\<lparr>fs := f, db := Some e1\<rparr>)"
    "db_docs X view (s\<lparr>fs := f, db := Some e1\<rparr>) = (db_docs X view s)(k := None)"
    using db_removeE [OF ok1] by (metis db_docs_frame(1))
  have ok2: "db_ok X view (s\<lparr>fs := f, db := Some e1\<rparr>)" by (rule db_ok_db [OF ok1])
  have dm: "db_docs X view (s\<lparr>fs := f, db := Some e1\<rparr>) p = Some (dir_json dm)"
    using par(2) parent_of_neq [OF par(1)] e1(2) by simp
  obtain e2 where e2: "removeFileFromDirectory X k (s\<lparr>fs := f, db := Some e1\<rparr>) = Ret True (s\<lparr>fs := f, db := Some e2\<rparr>)"
    "db_docs X view (s\<lparr>fs := f, db := Some e2\<rparr>) = (db_docs X view (s\<lparr>fs := f, db := Some e1\<rparr>))
      (p \<mapsto> dir_json (dm\<lparr>files := removeAll k (files dm)\<rparr>))"
    using listing_operations [OF ok2 par(1) dm par(3)] by auto
  have "dump X (notification ''FILE-'' u k dev) = Inr (text_of X (notification ''FILE-'' u k dev))"
    using ok by (intro dump_Some codec_total_dump) (simp add: db_ok_def)
  from process_notification [OF this, of n s] have
    "process_event_remote n X (notification ''FILE-'' u k dev) s = Ret () (s\<lparr>fs := f, db := Some e2\<rparr>)"
    using dev f(1) e1(1) e2(1) by (simp add: remote_file_removed_def removeFileFromDatabase_def)
  with f(2) e1(2) e2(2) show ?thesis by (intro exI [of _ "s\<lparr>fs := f, db := Some e2\<rparr>"]) simp
qed

section \<open>Witnesses\<close>

definition three_events :: "(unit, (string, string) fmap) local_client" where
  "three_events =
     (let q = foldl (\<lambda>q e. push_event e q) \<lparr>queue = [], event_map = {}\<rparr>
        [mk_event Created ''/h/a.bin'' FileT, mk_event Modified ''/h/b.txt'' FileT, mk_event Created ''/h/c.bin'' FileT]
      in \<lparr>client_state = toy_client (toy_db_of [(''dropbox/b.txt'', obj [(''fileName'', JNum 1)])]), pending = q\<rparr>)"

lemma three_events_simps [simp]:
  "queue (pending three_events) =
     [mk_event Created ''/h/a.bin'' FileT, mk_event Modified ''/h/b.txt'' FileT, mk_event Created ''/h/c.bin'' FileT]"
  "client_state three_events = toy_client (toy_db_of [(''dropbox/b.txt'', obj [(''fileName'', JNum 1)])])"
  "queue_ok (pending three_events)"
  by (simp_all add: three_events_def Let_def push_event_def insert_commute queue_ok_def)

text \<open>The record of the second file is damaged: its event throws, and the third event stays queued.\<close>

theorem local_events_processed_in_order_witness:
  "\<exists>r. process_local_events 0 toy_client_ext three_events =
     Throw Json_type_error \<lparr>client_state = client_state three_events, pending = r\<rparr> \<and>
     queue r = [mk_event Created ''/h/c.bin'' FileT]"
proof -
  let ?p = "process_event_local 0 toy_client_ext" and ?c = "client_state three_events"
  have ext: "path_extension ''/h/a.bin'' \<noteq> ''.txt''" "path_extension ''/h/b.txt'' = ''.txt''"
    "path_extension ''/h/c.bin'' \<noteq> ''.txt''" by code_simp+
  have key: "buildKeyfromFullPath ''/h/'' ''/h/b.txt'' = ''dropbox/b.txt''" by code_simp
  have a: "?p (mk_event Created ''/h/a.bin'' FileT) ?c = Ret () ?c"
    using ext by (simp add: process_event_local_def)
  have b: "?p (mk_event Modified ''/h/b.txt'' FileT) ?c = Throw Json_type_error ?c"
  proof -
    have "db_docs toy_client_ext fmlookup ?c ''dropbox/b.txt'' = Some (obj [(''fileName'', JNum 1)])"
      by (simp add: toy_docs)
    then have "db_load toy_client_ext ''dropbox/b.txt'' ?c = Ret (Some (obj [(''fileName'', JNum 1)])) ?c"
      using db_load_Some [OF toy_db_ok] by simp
    moreover have "file_of_json toy_client_ext (File_Metadata ''dropbox/b.txt'') (obj [(''fileName'', JNum 1)]) =
        Inl Json_type_error"
      by (simp add: file_of_json_def member_or_def get_string_def)
    moreover have "g_basePath ?c = ''/h/''" by (simp add: toy_client_def)
    ultimately show ?thesis using ext key
      by (simp add: process_event_local_def file_modified_def file_load_def File_Metadata_def)
  qed
  show ?thesis
    using local_events_processed_in_order [OF three_events_simps(3), of 0 toy_client_ext] a b
    by (auto simp: append_eq_Cons_conv Cons_eq_append_conv)
qed

theorem fetched_file_is_not_sent_back_witness:
  "\<exists>t. fetchNewFile (serving_ext True True) ''dropbox/a.txt'' (online []) = Ret True t \<and>
    local_text t ''dropbox/a.txt'' = ''remote'' \<and>
    process_event_local 0 (serving_ext True True) (mk_event Modified ''/h/a.txt'' FileT) t = Ret () t"
proof -
  have key: "buildKeyfromFullPath (g_basePath (online [])) ''/h/a.txt'' = ''dropbox/a.txt''"
    by (simp only: online_simps) code_simp
  show ?thesis
    using fetched_file_is_not_sent_back [OF online_db_ok [of True True] online_alive, of "[]" _ _ "''remote''"
        "''5''" "''/h/a.txt''" 0] key online_paths(1) serving_file
    by (auto simp: serving_get)
qed

lemma toy_client_total: "codec_total toy_client_ext"
  by (rule toy_codec_total) simp_all

theorem notification_passed_on_and_not_echoed_witness:
  "\<exists>t se. handleRequest toy_client_ext ''POST'' ''/broadcast''
      (text_of toy_client_ext (notification ''FILE~'' ''ann'' ''dropbox/a.txt'' ''d1'')) ann_waits
      = Ret (200, ''Notification processed'') t \<and> sessions t 0 = Some se \<and>
    last (written se) = text_of toy_client_ext (notification ''FILE~'' ''ann'' ''dropbox/a.txt'' ''d1'') \<and>
    process_event_remote 0 toy_client_ext (notification ''FILE~'' ''ann'' ''dropbox/a.txt'' ''d1'') (toy_client fmempty)
      = Ret () (toy_client fmempty)"
proof -
  have "0 \<in> set (waiting ann_waits ''ann'')" by (simp add: ann_waits_simps)
  moreover have "device_id (toy_client fmempty) = ''d1''" by (simp add: toy_client_def)
  ultimately show ?thesis
    using notification_passed_on_and_not_echoed [OF toy_client_total ann_waits_run _ refl] by metis
qed

theorem remote_deletion_removes_file_witness:
  "\<exists>t. process_event_remote 0 toy_client_ext (notification ''FILE-'' ''ann'' ''dropbox/a.txt'' ''d2'')
      (toy_client (toy_db_of [(''dropbox'', dir_json home)])) = Ret () t \<and>
    \<not> fs_exists (fs t) ''/h/a.txt''"
proof -
  let ?s = "toy_client (toy_db_of [(''dropbox'', dir_json home)])"
  have s: "device_id ?s = ''d1''" "g_basePath ?s = ''/h/''" by (simp_all add: toy_client_def)
  have paths: "parent_of ''dropbox/a.txt'' = Some ''dropbox''" "buildFullPath ''/h/'' ''dropbox/a.txt'' = ''/h/a.txt''"
    "snd (fpath_of ''/h/a.txt'') \<noteq> []" by code_simp+
  have "directoryName home = ''dropbox''" by (simp add: home_def Directory_Metadata_def)
  with remote_deletion_removes_file [where k = "''dropbox/a.txt''" and p = "''dropbox''" and dm = home and n = 0 and u = "''ann''" and dev = "''d2''", OF toy_db_ok [of "()" "toy_db_of [(''dropbox'', dir_json home)]"]]  s paths
  show ?thesis by (auto simp: toy_docs)
qed

end
