(* ===== verification/Auth_Server.thy ===== *)
theory Auth_Server
  imports Metaserver
begin

text \<open>
  The authentication server, \<open>src/CODE/src/authentication_server/authentication_server.cpp\<close>, and the
  signup server, \<open>src/CODE/src/signupserver/signup_server.cpp\<close>.  Both talk to Redis through hiredis,
  which is a parameter, as are the signing of a token and the clock.
\<close>

section \<open>Redis and tokens\<close>

datatype redis_reply = Redis_string string | Redis_status string | Redis_other

text \<open>
  \<open>redis_connect\<close> gives the text of the error, \<open>None\<close> when connected; the commands
  \<open>GET\<close> and \<open>SET .. NX\<close> give the reply, \<open>None\<close> when there is none.  \<open>jwt_sign\<close> is the
  token of the library for an issuer, a subject, the claim \<open>userID\<close>, an expiry and a private key.
\<close>

record 'w auth_ext = "'w meta_ext" +
  redis_connect :: "string \<Rightarrow> int \<Rightarrow> 'w \<Rightarrow> string option \<times> 'w"
  redis_get :: "string \<Rightarrow> 'w \<Rightarrow> redis_reply option \<times> 'w"
  redis_set_nx :: "string \<Rightarrow> string \<Rightarrow> 'w \<Rightarrow> redis_reply option \<times> 'w"
  jwt_sign :: "string \<Rightarrow> string \<Rightarrow> string \<Rightarrow> int \<Rightarrow> string \<Rightarrow> exn + string"

text \<open>\<open>s.c_str()\<close> as a C function reads it: up to the first zero byte.\<close>

definition c_str :: "string \<Rightarrow> string" where
  "c_str s = takeWhile (\<lambda>c. c \<noteq> char_of (0 :: nat)) s"

section \<open>The authentication server\<close>

record 'w auth_state =
  redis_ctx :: bool
  PRIVATE_KEY :: string
  auth_ip :: string
  auth_port :: int
  anet :: 'w

definition on_anet :: "('w, 'a) prog \<Rightarrow> ('w auth_state, 'a) prog" where
  "on_anet m = zoom anet (\<lambda>w s. s\<lparr>anet := w\<rparr>) m"

definition auth_loadKey :: "(string \<Rightarrow> string option) \<Rightarrow> string \<Rightarrow> exn + string" where
  "auth_loadKey files filename =
     (case files filename of
        None \<Rightarrow> Inl (Runtime_error (''Failed to open key file: '' @ filename))
      | Some key \<Rightarrow>
          if key = [] then Inl (Runtime_error (''Key file is empty: '' @ filename)) else Inr key)"

definition auth_loadConfig ::
  "('x) codec_scheme \<Rightarrow> (string \<Rightarrow> string option) \<Rightarrow> string \<Rightarrow> exn + json" where
  "auth_loadConfig X files p =
     (case files p of
        None \<Rightarrow> Inl (Runtime_error (''Could not open config file: '' @ p))
      | Some text \<Rightarrow> parse X text)"

definition initRedis :: "('w, 'x) auth_ext_scheme \<Rightarrow> string \<Rightarrow> int \<Rightarrow> ('w auth_state, unit) prog" where
  "initRedis X host prt =
     bind (on_anet (call (redis_connect X (c_str host) prt))) (\<lambda>r.
       case r of
         None \<Rightarrow> modify (\<lambda>s. s\<lparr>redis_ctx := True\<rparr>)
       | Some msg \<Rightarrow> throw (Runtime_error (''Failed to connect to Redis: '' @ msg)))"

text \<open>Thirty minutes; times are seconds.\<close>

definition generateJWT :: "('w, 'x) auth_ext_scheme \<Rightarrow> string \<Rightarrow> ('w auth_state, string) prog" where
  "generateJWT X userID =
     bind (gets (\<lambda>s. (time_now X (anet s), PRIVATE_KEY s))) (\<lambda>(now, key).
     lift_exn (jwt_sign X ''auth-server'' userID userID (now + 30 * 60) key))"

definition auth_error :: "string \<Rightarrow> json" where
  "auth_error msg = obj [(''status'', JStr ''error''), (''message'', JStr msg)]"

definition authenticateUser ::
  "('w, 'x) auth_ext_scheme \<Rightarrow> string \<Rightarrow> string \<Rightarrow> ('w auth_state, json) prog" where
  "authenticateUser X userID pass =
     bind (gets redis_ctx) (\<lambda>connected.
     if \<not> connected then ret (auth_error ''Redis not initialized'')
     else
       bind (on_anet (call (redis_get X (c_str userID)))) (\<lambda>r.
         case r of
           None \<Rightarrow> ret (auth_error ''Redis command error'')
         | Some rep \<Rightarrow>
             if (case rep of Redis_string s \<Rightarrow> c_str s = pass | _ \<Rightarrow> False) then
               bind (generateJWT X userID) (\<lambda>token.
               ret (obj [(''status'', JStr ''success''), (''token'', JStr token)]))
             else ret (auth_error ''Invalid credentials'')))"

definition auth_status :: "string \<Rightarrow> int" where
  "auth_status msg =
     (if msg = ''Invalid credentials'' then 401
      else if msg = ''Redis not initialized'' then 503
      else if msg = ''Redis command error'' then 500
      else 400)"

definition login_handler :: "('w, 'x) auth_ext_scheme \<Rightarrow> http_request \<Rightarrow> ('w auth_state, http_response) prog"
where
  "login_handler X req =
     try_catch
       (bind (lift_exn (parse X (req_body req))) (\<lambda>body.
        if \<not> contains body ''userID'' \<or> \<not> contains body ''password'' then
          ret (reply 400 ''{\"status\": \"error\", \"message\": \"Invalid JSON format\"}'')
        else
          bind (lift_exn (string_at body ''userID'')) (\<lambda>userID.
          bind (lift_exn (string_at body ''password'')) (\<lambda>pass.
          bind (authenticateUser X userID pass) (\<lambda>response.
          bind (if subscript response ''status'' = Inr (JStr ''error'') then
                  bind (lift_exn (string_at response ''message'')) (\<lambda>message.
                  ret (auth_status message))
                else ret 200) (\<lambda>st.
          bind (lift_exn (dump X response)) (\<lambda>text.
          ret (reply st text)))))))) 
       (\<lambda>e. ret (reply 500 ''{\"status\": \"error\", \"message\": \"Server error\"}''))"

text \<open>Start-up; the result is whether the server goes on to listen.\<close>

definition auth_start ::
  "('w, 'x) auth_ext_scheme \<Rightarrow> (string \<Rightarrow> string option) \<Rightarrow> string option \<Rightarrow> ('w auth_state, bool) prog" where
  "auth_start X files arg =
     try_catch
       (bind (lift_exn (auth_loadConfig X files
                (case arg of None \<Rightarrow> ''auth_config.json'' | Some a \<Rightarrow> a))) (\<lambda>config.
        bind (lift_exn (string_at config ''server_ip'')) (\<lambda>addr.
        seq (modify (\<lambda>s. s\<lparr>auth_ip := addr\<rparr>)) (
        bind (lift_exn (subscript config ''server_port'')) (\<lambda>jp.
        bind (lift_exn (get_int X jp)) (\<lambda>p.
        seq (modify (\<lambda>s. s\<lparr>auth_port := wrap_int p\<rparr>)) (
        bind (lift_exn (string_at config ''redis_host'')) (\<lambda>redis_host.
        bind (lift_exn (subscript config ''redis_port'')) (\<lambda>jr.
        bind (lift_exn (get_int X jr)) (\<lambda>redis_port.
        bind (lift_exn (string_at config ''private_key_path'')) (\<lambda>key_path.
        seq (initRedis X redis_host (wrap_int redis_port)) (
        bind (lift_exn (auth_loadKey files key_path)) (\<lambda>key.
        seq (modify (\<lambda>s. s\<lparr>PRIVATE_KEY := key\<rparr>)) (ret True))))))))))))))
       (\<lambda>e. ret False)"

section \<open>The signup server\<close>

record 'w signup_state =
  signup_groups :: "string list list"
  snet :: 'w

definition on_snet :: "('w, 'a) prog \<Rightarrow> ('w signup_state, 'a) prog" where
  "on_snet m = zoom snet (\<lambda>w s. s\<lparr>snet := w\<rparr>) m"

text \<open>\<open>None\<close> is the result false.\<close>

definition signup_loadConfig ::
  "('x) codec_scheme \<Rightarrow> (string \<Rightarrow> string option) \<Rightarrow> string \<Rightarrow> json option" where
  "signup_loadConfig X files filename =
     (case files filename of None \<Rightarrow> None | Some text \<Rightarrow> json_read X text)"

text \<open>The groups of the configuration: members that are arrays, without the elements that are no strings.\<close>

definition server_group :: "json list \<Rightarrow> string list" where
  "server_group js = concat (map (\<lambda>j. case j of JStr s \<Rightarrow> [s] | _ \<Rightarrow> []) js)"

definition server_groups :: "json \<Rightarrow> string list list" where
  "server_groups j =
     concat (map (\<lambda>v. case v of JArr js \<Rightarrow> [server_group js] | _ \<Rightarrow> []) (elements j))"

definition load_blockserver_config ::
  "('x) codec_scheme \<Rightarrow> (string \<Rightarrow> string option) \<Rightarrow> string \<Rightarrow> ('w signup_state, unit) prog" where
  "load_blockserver_config X files filepath =
     (case files filepath of
        None \<Rightarrow> ret ()
      | Some text \<Rightarrow>
          (case json_read X text of
             None \<Rightarrow> ret ()
           | Some config_json \<Rightarrow> modify (\<lambda>s. s\<lparr>signup_groups := server_groups config_json\<rparr>)))"

definition signup_select_group ::
  "('w, 'x) meta_ext_scheme \<Rightarrow> string \<Rightarrow> ('w signup_state, string list) prog" where
  "signup_select_group X key =
     bind (gets signup_groups) (\<lambda>groups.
       if groups = [] then undef else ret (group_of X groups key))"

text \<open>
  Whether the user signed up, and the error message.  The user's name is taken in Redis before the
  root directory is stored.
\<close>

definition create_root :: "('w, 'x) auth_ext_scheme \<Rightarrow> string \<Rightarrow> ('w signup_state, response) prog" where
  "create_root X user =
     (let RootKey = user @ '':dropbox'' in
      bind (signup_select_group X RootKey) (\<lambda>servers.
      bind (gets (\<lambda>s. time_now X (snet s))) (\<lambda>now.
      bind (lift_exn (dump X (obj [(''owner'', JStr user), (''timestamp'', JNum now),
                                   (''subdirectories'', JArr []), (''files'', JArr [])]))) (\<lambda>val.
      on_snet (dkv_set X servers RootKey val)))))"

definition signupUser ::
  "('w, 'x) auth_ext_scheme \<Rightarrow> string \<Rightarrow> string \<Rightarrow> string \<Rightarrow> int \<Rightarrow> ('w signup_state, bool \<times> string) prog" where
  "signupUser X user pass redis_ip redis_port =
     bind (on_snet (call (redis_connect X (c_str redis_ip) redis_port))) (\<lambda>r.
       case r of
         Some msg \<Rightarrow> ret (False, ''Redis connection error: '' @ msg)
       | None \<Rightarrow>
           bind (on_snet (call (redis_set_nx X (c_str user) (c_str pass)))) (\<lambda>rep.
             case rep of
               None \<Rightarrow> ret (False, ''Redis command error.'')
             | Some rp \<Rightarrow>
                 if (case rp of Redis_status st \<Rightarrow> c_str st = ''OK'' | _ \<Rightarrow> False) then
                   bind (create_root X user) (\<lambda>root.
                   if resp_success root then ret (True, [])
                   else ret (False, ''Failed to create root directory metadata.''))
                 else ret (False, ''Username already exists or Redis returned an error.'')))"

text \<open>
  The handler; a parse error has a response of its own.  Status -1 is a response to which none was
  given, which the HTTP library sends as 200.
\<close>

definition signup_handler ::
  "('w, 'x) auth_ext_scheme \<Rightarrow> string \<Rightarrow> int \<Rightarrow> http_request \<Rightarrow> ('w signup_state, http_response) prog" where
  "signup_handler X redis_ip redis_port req =
     try_catch
       (bind (lift_exn (parse X (req_body req))) (\<lambda>req_json.
        if \<not> contains req_json ''username'' \<or> \<not> contains req_json ''password'' then
          ret (reply 400 ''{\"error\": \"Missing username or password\"}'')
        else
          bind (lift_exn (string_at req_json ''username'')) (\<lambda>user.
          bind (lift_exn (string_at req_json ''password'')) (\<lambda>pass.
          bind (signupUser X user pass redis_ip redis_port) (\<lambda>(ok, errorMsg).
          if ok then ret (reply (-1) ''{\"status\": \"Signup successful\"}'')
          else ret (reply 409 (''{\"error\": \"'' @ errorMsg @ ''\"}'')))))))
       (\<lambda>e. if e = Json_parse_error then ret (reply 400 ''{\"error\": \"Invalid JSON in request\"}'')
            else ret (reply 500 ''{\"error\": \"Server error\"}''))"

text \<open>
  Start-up: address and port of the server and of Redis; \<open>None\<close> is the exit with status 1, an
  exception leaves \<open>main\<close>.
\<close>

definition endpoint_at :: "('x) codec_scheme \<Rightarrow> json \<Rightarrow> string \<Rightarrow> exn + (string \<times> int)" where
  "endpoint_at X config k =
     (case subscript config k of
        Inl e \<Rightarrow> Inl e
      | Inr j \<Rightarrow>
          (case string_at j ''ip'' of
             Inl e \<Rightarrow> Inl e
           | Inr addr \<Rightarrow>
               (case subscript j ''port'' of
                  Inl e \<Rightarrow> Inl e
                | Inr jp \<Rightarrow>
                    (case get_int X jp of Inl e \<Rightarrow> Inl e | Inr p \<Rightarrow> Inr (addr, wrap_int p)))))"

definition signup_start ::
  "('x) codec_scheme \<Rightarrow> (string \<Rightarrow> string option) \<Rightarrow> string option \<Rightarrow>
     ('w signup_state, ((string \<times> int) \<times> (string \<times> int)) option) prog" where
  "signup_start X files arg =
     (case signup_loadConfig X files (case arg of None \<Rightarrow> ''signup_config.json'' | Some a \<Rightarrow> a) of
        None \<Rightarrow> ret None
      | Some config \<Rightarrow>
          bind (lift_exn (string_at config ''blockserver_config_file'')) (\<lambda>path.
          seq (load_blockserver_config X files path) (
          bind (lift_exn (endpoint_at X config ''http_server'')) (\<lambda>http.
          bind (lift_exn (endpoint_at X config ''redis'')) (\<lambda>redis.
          ret (Some (http, redis)))))))"

end
