(* ===== verification/Signup_Props.thy ===== *)
theory Signup_Props
  imports Auth_Server Metaserver_Tree Metaserver_Demo
begin

text \<open>
  Signing up and logging in: what the login handler can answer, that a user who signed up can log in
  with the password and with no other and that the token is accepted by the metadata server, that
  signing up prepares the namespace the metadata server expects, and what is left when it fails half
  way.
\<close>

section \<open>Redis and tokens as documented\<close>

text \<open>
  \<open>rview\<close> is the content of the Redis database: \<open>SET .. NX\<close> stores a value under a new key only,
  \<open>GET\<close> reads it.
\<close>

definition redis_ok :: "('w, 'x) auth_ext_scheme \<Rightarrow> ('w \<Rightarrow> string \<rightharpoonup> string) \<Rightarrow> bool" where
  "redis_ok X rview \<longleftrightarrow>
     (\<forall>h p w. \<exists>w'. redis_connect X h p w = (None, w') \<and> rview w' = rview w) \<and>
     (\<forall>k v w. \<exists>w'. if rview w k = None
        then redis_set_nx X k v w = (Some (Redis_status ''OK''), w') \<and> rview w' = (rview w)(k \<mapsto> v)
        else redis_set_nx X k v w = (Some Redis_other, w') \<and> rview w' = rview w) \<and>
     (\<forall>k w. \<exists>w'. rview w' = rview w \<and>
        redis_get X k w = (Some (case rview w k of Some v \<Rightarrow> Redis_string v | None \<Rightarrow> Redis_other), w'))"

lemma redis_connectE:
  assumes "redis_ok X rview"
  obtains w' where "redis_connect X h p w = (None, w')" and "rview w' = rview w"
  using assms unfolding redis_ok_def by metis

lemma redis_setE:
  assumes "redis_ok X rview"
  obtains (new) w' where "rview w k = None" and "redis_set_nx X k v w = (Some (Redis_status ''OK''), w')"
      and "rview w' = (rview w)(k \<mapsto> v)"
    | (taken) w' where "rview w k \<noteq> None" and "redis_set_nx X k v w = (Some Redis_other, w')"
      and "rview w' = rview w"
  using assms unfolding redis_ok_def by metis

lemma redis_getE:
  assumes "redis_ok X rview"
  obtains w' where "rview w' = rview w"
    and "redis_get X k w = (Some (case rview w k of Some v \<Rightarrow> Redis_string v | None \<Rightarrow> Redis_other), w')"
  using assms unfolding redis_ok_def by metis

text \<open>Requests to the storage servers do not change Redis.\<close>

definition redis_apart :: "('w, 'x) auth_ext_scheme \<Rightarrow> ('w \<Rightarrow> string \<rightharpoonup> string) \<Rightarrow> bool" where
  "redis_apart X rview \<longleftrightarrow> (\<forall>r g k v. keeps (\<lambda>w. rview w = r) (dkv_set X g k v))"

text \<open>A token of the library verifies against the other key until it expires, and has three parts.\<close>

definition jwt_pair :: "('w, 'x) auth_ext_scheme \<Rightarrow> string \<Rightarrow> string \<Rightarrow> bool" where
  "jwt_pair X private public \<longleftrightarrow>
     (\<forall>u expires tok now. jwt_sign X ''auth-server'' u u expires private = Inr tok \<and> now < expires \<longrightarrow>
        tok \<noteq> [] \<and> count_list tok CHR ''.'' = 2 \<and> jwt_user X tok public now = Some u)"

section \<open>Logging in\<close>

lemma c_str_OK [simp]: "c_str ''OK'' = ''OK''"
  by code_simp

text \<open>What the check of the credentials gives.\<close>

lemma authenticateUser_cases:
  obtains (refused) msg w where "authenticateUser X u pw a = Ret (auth_error msg) (a\<lparr>anet := w\<rparr>)"
      and "msg \<in> {''Redis not initialized'', ''Redis command error'', ''Invalid credentials''}"
    | (failed) e w where "authenticateUser X u pw a = Throw e (a\<lparr>anet := w\<rparr>)"
    | (token) s w tok where "redis_get X (c_str u) (anet a) = (Some (Redis_string s), w)" and "c_str s = pw"
      and "authenticateUser X u pw a =
        Ret (obj [(''status'', JStr ''success''), (''token'', JStr tok)]) (a\<lparr>anet := w\<rparr>)"
proof (cases "redis_ctx a")
  case False
  have same: "a\<lparr>anet := anet a\<rparr> = a" by simp
  show ?thesis
    by (rule refused [of "''Redis not initialized''" "anet a"])
       (use False same in \<open>simp_all add: authenticateUser_def\<close>)
next
  case True
  obtain r w where r: "redis_get X (c_str u) (anet a) = (r, w)" by (cases "redis_get X (c_str u) (anet a)")
  consider "r = None" | rep where "r = Some rep" "\<not> (\<exists>s. rep = Redis_string s \<and> c_str s = pw)"
    | s where "r = Some (Redis_string s)" "c_str s = pw" by (cases r) auto
  then show ?thesis
  proof cases
    case 1
    with True r show ?thesis
      by (intro refused [of "''Redis command error''" w]) (simp_all add: authenticateUser_def on_anet_def)
  next
    case (2 rep)
    with True r show ?thesis
      by (intro refused [of "''Invalid credentials''" w])
         (auto simp: authenticateUser_def on_anet_def split: redis_reply.split)
  next
    case (3 s)
    show ?thesis
    proof (cases "jwt_sign X ''auth-server'' u u (time_now X w + 30 * 60) (PRIVATE_KEY a)")
      case (Inl e)
      with True r 3 show ?thesis
        by (intro failed [of e w]) (simp add: authenticateUser_def on_anet_def generateJWT_def)
    next
      case (Inr tok)
      with True r 3 show ?thesis
        by (intro token [of s w tok]) (simp_all add: authenticateUser_def on_anet_def generateJWT_def)
    qed
  qed
qed

text \<open>C28: The login handler answers every request, whatever its body, with one of five status codes, and
  with 200 only when the body names a user and the password that Redis has for that user; a request
  changes nothing but the outside world.\<close>

theorem login_answers_200_for_password_only:
  "\<exists>resp w. login_handler X req a = Ret resp (a\<lparr>anet := w\<rparr>) \<and> res_status resp \<in> {200, 400, 401, 500, 503} \<and>
    (res_status resp = 200 \<longrightarrow>
       (\<exists>body u pw s. parse X (req_body req) = Inr body \<and> string_at body ''userID'' = Inr u \<and>
          string_at body ''password'' = Inr pw \<and>
          fst (redis_get X (c_str u) (anet a)) = Some (Redis_string s) \<and> c_str s = pw))"
proof -
  have same: "a\<lparr>anet := anet a\<rparr> = a" by simp
  show ?thesis
  proof (cases "\<exists>body u pw. parse X (req_body req) = Inr body \<and> string_at body ''userID'' = Inr u \<and>
      string_at body ''password'' = Inr pw")
    case False
    have "\<exists>resp. login_handler X req a = Ret resp a \<and> res_status resp \<in> {400, 500}"
    proof (cases "parse X (req_body req)")
      case (Inr body)
      with False show ?thesis
        by (cases "string_at body ''userID''"; cases "string_at body ''password''")
           (simp_all add: login_handler_def)
    qed (simp add: login_handler_def)
    then obtain resp where "login_handler X req a = Ret resp a" "res_status resp \<in> {400, 500}" by blast
    with same show ?thesis by (intro exI [of _ resp] exI [of _ "anet a"]) auto
  next
    case True
    then obtain body u pw where b: "parse X (req_body req) = Inr body" "string_at body ''userID'' = Inr u"
      "string_at body ''password'' = Inr pw" by blast
    then have c: "contains body ''userID''" "contains body ''password''" by (auto dest: string_at_contains)
    show ?thesis
    proof (cases rule: authenticateUser_cases [of X u pw a])
      case (refused msg w)
      have m: "string_at (auth_error msg) ''message'' = Inr msg" "subscript (auth_error msg) ''status'' = Inr (JStr ''error'')"
        by (simp_all add: auth_error_def string_at_def get_string_def)
      have "\<exists>resp. login_handler X req a = Ret resp (a\<lparr>anet := w\<rparr>) \<and> res_status resp \<in> {auth_status msg, 500}"
        using b c m refused(1) by (cases "dump X (auth_error msg)") (simp_all add: login_handler_def)
      moreover have "auth_status msg \<in> {400, 401, 500, 503}" by (simp add: auth_status_def)
      ultimately show ?thesis by fastforce
    next
      case (failed e w)
      with b c show ?thesis by (simp add: login_handler_def) blast
    next
      case (token s w tok)
      let ?r = "obj [(''status'', JStr ''success''), (''token'', JStr tok)]"
      have "\<exists>resp. login_handler X req a = Ret resp (a\<lparr>anet := w\<rparr>) \<and> res_status resp \<in> {200, 500}"
        using b c token(3) by (cases "dump X ?r") (simp_all add: login_handler_def)
      with b token(1,2) show ?thesis by force
    qed
  qed
qed

section \<open>Signing up\<close>

lemma create_root_keeps:
  assumes "redis_apart X rview" shows "keeps (\<lambda>s. rview (snet s) = r) (create_root X u)"
proof -
  have "keeps (\<lambda>s. rview (snet s) = r) (on_snet (dkv_set X g k v))" for g k v
    unfolding on_snet_def
    by (rule keeps_zoom [of _ "\<lambda>w. rview w = r"]) (use assms in \<open>auto simp: redis_apart_def\<close>)
  then show ?thesis
    unfolding create_root_def signup_select_group_def Let_def by (intro keeps_intros)
qed

lemma redis_status_OK:
  "(case rp of Redis_string s \<Rightarrow> False | Redis_status st \<Rightarrow> c_str st = ''OK'' | Redis_other \<Rightarrow> False)
   \<longleftrightarrow> (\<exists>st. rp = Redis_status st \<and> c_str st = ''OK'')"
  by (cases rp) auto

text \<open>A sign-up with a working Redis: the name is free or not, and then the root is stored or not.\<close>

lemma signupUser_outcome:
  assumes redis: "redis_ok X rview" and apart: "redis_apart X rview"
    and run: "signupUser X u pw addr prt s = Ret (ok, msg) t"
  obtains (taken) "rview (snet s) (c_str u) \<noteq> None" and "rview (snet t) = rview (snet s)" and "\<not> ok"
      and "msg = ''Username already exists or Redis returned an error.''"
    | (new) "rview (snet s) (c_str u) = None" and "rview (snet t) = (rview (snet s))(c_str u \<mapsto> c_str pw)"
      and "msg = (if ok then [] else ''Failed to create root directory metadata.'')"
proof -
  obtain w1 where w1: "redis_connect X (c_str addr) prt (snet s) = (None, w1)" "rview w1 = rview (snet s)"
    using redis_connectE [OF redis] .
  show ?thesis
  proof (cases rule: redis_setE [OF redis, where w = w1 and k = "c_str u" and v = "c_str pw"])
    case (1 w2)
    with w1 run obtain root where
      root: "create_root X u (s\<lparr>snet := w2\<rparr>) = Ret root t" "ok = resp_success root"
      "msg = (if ok then [] else ''Failed to create root directory metadata.'')"
      by (auto simp: signupUser_def on_snet_def split: outcome.splits if_splits)
    have "rview (snet t) = rview w2"
      by (rule keeps_RetD [OF create_root_keeps [OF apart, of "rview w2"] _ root(1)]) simp
    with 1 w1 root(3) show ?thesis by (intro new) simp_all
  next
    case (2 w2)
    with w1 run show ?thesis by (intro taken) (auto simp: signupUser_def on_snet_def)
  qed
qed

text \<open>C29: Who has signed up can log in with the password and with no other, on an authentication server
  that uses the same Redis database; the token is good for thirty minutes at the metadata server, which
  takes its bearer for this user.\<close>

theorem login_after_signup:
  assumes redis: "redis_ok X rview" and apart: "redis_apart X rview"
    and signup: "signupUser X u pw addr prt s = Ret (True, msg) t"
    and plain: "c_str u = u" "c_str pw = pw"
    and auth: "redis_ctx a" "rview (anet a) = rview (snet t)"
    and pair: "jwt_pair X (PRIVATE_KEY a) public"
  shows "\<exists>w. (\<forall>pw'. pw' \<noteq> pw \<longrightarrow> authenticateUser X u pw' a = Ret (auth_error ''Invalid credentials'') (a\<lparr>anet := w\<rparr>)) \<and>
    (\<forall>tok. jwt_sign X ''auth-server'' u u (time_now X w + 1800) (PRIVATE_KEY a) = Inr tok \<longrightarrow>
       authenticateUser X u pw a =
         Ret (obj [(''status'', JStr ''success''), (''token'', JStr tok)]) (a\<lparr>anet := w\<rparr>) \<and>
       (\<forall>now req. now < time_now X w + 1800 \<and> req_header req ''Authorization'' = Some (''Bearer '' @ tok) \<longrightarrow>
          authenticate_request X public now req = Inr u))"
proof -
  have "rview (anet a) u = Some pw"
    by (cases rule: signupUser_outcome [OF redis apart signup]) (use auth(2) plain in auto)
  moreover obtain w where "redis_get X u (anet a) =
      (Some (case rview (anet a) u of Some v \<Rightarrow> Redis_string v | None \<Rightarrow> Redis_other), w)"
    using redis_getE [OF redis] by metis
  ultimately have get: "redis_get X u (anet a) = (Some (Redis_string pw), w)" by simp
  have bearer: "authenticate_request X public now req = Inr u"
    if "jwt_sign X ''auth-server'' u u (time_now X w + 1800) (PRIVATE_KEY a) = Inr tok"
      "now < time_now X w + 1800" "req_header req ''Authorization'' = Some (''Bearer '' @ tok)" for tok now req
    using pair that unfolding jwt_pair_def by (blast intro: authenticate_bearer)
  show ?thesis
    by (intro exI [of _ w])
       (use get plain auth(1) bearer in
         \<open>simp add: authenticateUser_def on_anet_def generateJWT_def del: append.simps\<close>)
qed

text \<open>C31: When the root directory cannot be stored the sign-up fails, but the name is used up: it can be
  logged in to with the password given, and no later sign-up with it succeeds.\<close>

theorem failed_signup_uses_up_name:
  assumes redis: "redis_ok X rview" and apart: "redis_apart X rview"
    and failed: "signupUser X u pw addr prt s = Ret (False, ''Failed to create root directory metadata.'') t"
  shows "rview (snet t) (c_str u) = Some (c_str pw) \<and>
    (\<exists>t'. signupUser X u pw' addr prt t =
       Ret (False, ''Username already exists or Redis returned an error.'') t' \<and> rview (snet t') = rview (snet t))"
proof -
  have key: "rview (snet t) (c_str u) = Some (c_str pw)"
    by (cases rule: signupUser_outcome [OF redis apart failed]) simp_all
  obtain w1 where w1: "redis_connect X (c_str addr) prt (snet t) = (None, w1)" "rview w1 = rview (snet t)"
    using redis_connectE [OF redis] .
  obtain w2 where "redis_set_nx X (c_str u) (c_str pw') w1 = (Some Redis_other, w2)" "rview w2 = rview w1"
    by (cases rule: redis_setE [OF redis, where w = w1 and k = "c_str u" and v = "c_str pw'"])
       (use w1(2) key in auto)
  with w1 key show ?thesis
    by (intro conjI exI [of _ "t\<lparr>snet := w2\<rparr>"]) (simp_all add: signupUser_def on_snet_def)
qed

section \<open>The namespace of a new user\<close>

lemma put_value_set:
  assumes "put_value X k v ms = Ret r (ms\<lparr>net := c\<rparr>)" and "metastorage_groups (init ms) \<noteq> []"
  shows "dkv_set X (group_of X (metastorage_groups (init ms)) k) k v (net ms) = Ret r c"
proof -
  have "c = c'" if "ms\<lparr>net := c'\<rparr> = ms\<lparr>net := c\<rparr>" for c'
    using arg_cong [OF that, of net] by simp
  with assms show ?thesis
    by (auto simp: put_value_def select_metastorage_group_def on_net_def split: outcome.splits)
qed

text \<open>C30: Signing up prepares the namespace that the metadata server works on: when Redis takes the name and
  both servers use the same groups of storage servers, the sign-up succeeds, the user's root directory,
  empty and owned by the user, is the only new document, and both invariants of namespaces hold for a
  user of whom nothing was stored.\<close>

theorem signup_prepares_namespace:
  assumes ready: "ready X ms" and marker: "marker_not_json X"
    and same: "net ms = snet s" "metastorage_groups (init ms) = signup_groups s"
    and redis: "redis_connect X (c_str addr) prt (snet s) = (None, snet s)"
      "redis_set_nx X (c_str u) (c_str pw) (snet s) = (Some (Redis_status ''OK''), snet s)"
    and docs: "dom (docs X ms) = dom (meta_view X ms)"
    and no_docs: "\<And>q. meta_view X ms (user_key u q) = None"
  shows "\<exists>c. signupUser X u pw addr prt s = Ret (True, []) (s\<lparr>snet := c\<rparr>) \<and> ready X (ms\<lparr>net := c\<rparr>) \<and>
    docs X (ms\<lparr>net := c\<rparr>) = (docs X ms)(user_key u ''dropbox'' \<mapsto> dir_metadata u (time_now X (snet s))) \<and>
    tree_ok X u (ms\<lparr>net := c\<rparr>) \<and> namespace_ok X u (ms\<lparr>net := c\<rparr>)"
proof -
  let ?k = "user_key u ''dropbox''" and ?root = "dir_metadata u (time_now X (snet s))"
  have X: "cluster_backed X" and groups: "metastorage_groups (init ms) \<noteq> []" and store: "store_ok X ms"
    using ready by (auto simp: ready_def store_ok_def)
  obtain r c where rc: "put_value X ?k (text_of X ?root) ms = Ret r (ms\<lparr>net := c\<rparr>)" "resp_success r"
      "store_ok X (ms\<lparr>net := c\<rparr>)"
      "meta_view X (ms\<lparr>net := c\<rparr>) = (meta_view X ms)(?k \<mapsto> text_of X ?root)"
    using put_value_stored [OF store, of ?k "text_of X ?root"] text_of_not_marker [OF X marker] by auto
  have "dkv_set X (group_of X (signup_groups s) ?k) ?k (text_of X ?root) (snet s) = Ret r c"
    using put_value_set [OF rc(1) groups] same by simp
  then have "create_root X u s = Ret r (s\<lparr>snet := c\<rparr>)"
    using groups same dump_backed [OF X, of ?root]
    by (simp add: create_root_def signup_select_group_def on_snet_def user_key_def dir_metadata_def Let_def)
  with rc(2) redis have run: "signupUser X u pw addr prt s = Ret (True, []) (s\<lparr>snet := c\<rparr>)"
    by (simp add: signupUser_def on_snet_def)
  have "\<not> is_string ?root" by (simp add: dir_metadata_def obj_def)
  then have new: "docs X (ms\<lparr>net := c\<rparr>) = (docs X ms)(?k \<mapsto> ?root)"
    using doc_of_text [OF X] by (auto simp: docs_def rc(4) fun_eq_iff)
  have none: "docs X ms (user_key u q) = None" for q
    unfolding docs_def no_docs by simp
  have "dom (docs X (ms\<lparr>net := c\<rparr>)) = dom (meta_view X (ms\<lparr>net := c\<rparr>))" using docs by (simp add: new rc(4))
  moreover have "directories_listed u (docs X (ms\<lparr>net := c\<rparr>))" "no_dangling u (docs X (ms\<lparr>net := c\<rparr>))"
    using none by (auto simp: directories_listed_def no_dangling_def new split: if_splits)
  moreover have "\<forall>p d. docs X (ms\<lparr>net := c\<rparr>) (user_key u p) = Some d \<longrightarrow> is_object d"
    "children_only u (docs X (ms\<lparr>net := c\<rparr>))"
    using none by (auto simp: children_only_def new split: if_splits)
  ultimately show ?thesis
    using run new ready_net [OF ready rc(3)] by (intro exI [of _ c]) (simp add: tree_ok_def namespace_ok_def)
qed

section \<open>Witnesses\<close>

text \<open>Redis is the world itself; the storage servers answer, or are down.\<close>

definition toy_auth_ext :: "bool \<Rightarrow> (string \<rightharpoonup> string) auth_ext" where
  "toy_auth_ext up = \<lparr>json_parse = toy_parse, json_dump = toy_dump, json_pretty = toy_dump,
     what = (\<lambda>_. ''what''), float_trunc = (\<lambda>_. 0), json_read = toy_parse, curl_init = (\<lambda>c. (True, c)),
     curl_perform = (\<lambda>_ _ _ w. (if up then Curl_done 200 (curl_chunks (enc JNull)) else Curl_error ''down'', w)),
     shuffled = (\<lambda>ss c. (ss, c)),
     jwt_user = (\<lambda>t k n. Some (drop 4 t)), hash = length, time_now = (\<lambda>_. 7),
     redis_connect = (\<lambda>_ _ w. (None, w)),
     redis_get = (\<lambda>k w. (Some (case w k of Some v \<Rightarrow> Redis_string v | None \<Rightarrow> Redis_other), w)),
     redis_set_nx = (\<lambda>k v w. if w k = None then (Some (Redis_status ''OK''), w(k \<mapsto> v)) else (Some Redis_other, w)),
     jwt_sign = (\<lambda>_ _ u _ _. if CHR ''.'' \<in> set u then Inl Json_type_error else Inr (''a.b.'' @ u))\<rparr>"

lemma toy_auth_simps [simp]:
  "json_parse (toy_auth_ext up) = toy_parse" "json_dump (toy_auth_ext up) = toy_dump"
  "curl_init (toy_auth_ext up) c = (True, c)" "shuffled (toy_auth_ext up) ss c = (ss, c)"
  "curl_perform (toy_auth_ext up) url m b w =
     (if up then Curl_done 200 (curl_chunks (enc JNull)) else Curl_error ''down'', w)"
  "redis_connect (toy_auth_ext up) h p w = (None, w)" "hash (toy_auth_ext up) = length"
  "redis_set_nx (toy_auth_ext up) k v w =
     (if w k = None then (Some (Redis_status ''OK''), w(k \<mapsto> v)) else (Some Redis_other, w))"
  by (simp_all add: toy_auth_ext_def)

lemma toy_redis_ok: "redis_ok (toy_auth_ext up) (\<lambda>w. w)"
  unfolding redis_ok_def by (auto simp: toy_auth_ext_def split: option.split)

lemma toy_redirect:
  "redirectToLeader (toy_auth_ext up) url ty m w =
     Ret (if up then mk_response (enc JNull) [] True else mk_response [] ''down'' False) w"
  by (rule redirect_loop_final)
     (auto simp: sendRequest_def dump_def toy_dump_def redirect_target_def parse_def)

lemma toy_redis_apart: "redis_apart (toy_auth_ext up) (\<lambda>w. w)"
proof -
  have "keeps (\<lambda>w. w = r) (try_each (toy_auth_ext up) ty m ss fin)" for r ty m ss fin
    by (induction ss arbitrary: fin)
       (simp_all add: keeps_def toy_redirect)
  then show ?thesis
    unfolding redis_apart_def
    by (auto simp: keeps_def dkv_set_def dkv_defs tryServers_def Let_def)
qed

lemma toy_jwt_pair: "jwt_pair (toy_auth_ext up) private public"
  by (auto simp: jwt_pair_def toy_auth_ext_def count_list_0_iff split: if_splits)

definition toy_signup :: "(string \<rightharpoonup> string) signup_state" where
  "toy_signup = \<lparr>signup_groups = [[''s1'']], snet = Map.empty\<rparr>"

lemma c_str_toy: "c_str ''ann'' = ''ann''" "c_str ''pw'' = ''pw''"
  by code_simp+

lemma toy_signup_run:
  "signupUser (toy_auth_ext up) ''ann'' ''pw'' addr prt toy_signup =
     Ret (up, if up then [] else ''Failed to create root directory metadata.'')
       (toy_signup\<lparr>snet := [''ann'' \<mapsto> ''pw'']\<rparr>)"
  by (simp add: signupUser_def on_snet_def toy_signup_def c_str_toy create_root_def Let_def
      signup_select_group_def group_of_def dkv_set_def dkv_defs tryServers_def toy_redirect dump_def
      toy_dump_def)

definition ann_auth :: "(string \<rightharpoonup> string) auth_state" where
  "ann_auth = \<lparr>redis_ctx = True, PRIVATE_KEY = ''k'', auth_ip = [], auth_port = 1, anet = [''ann'' \<mapsto> ''pw'']\<rparr>"

definition wrong_password :: http_request where
  "wrong_password = \<lparr>req_header = Map.empty,
     req_body = enc (obj [(''userID'', JStr ''ann''), (''password'', JStr ''other'')])\<rparr>"

theorem login_answers_200_for_password_only_witness:
  "\<exists>resp w. login_handler (toy_auth_ext True) wrong_password ann_auth = Ret resp (ann_auth\<lparr>anet := w\<rparr>) \<and>
     res_status resp \<noteq> 200"
proof -
  have body: "parse (toy_auth_ext True) (req_body wrong_password) =
      Inr (obj [(''userID'', JStr ''ann''), (''password'', JStr ''other'')])"
    by (simp add: wrong_password_def)
  have fields: "string_at (obj [(''userID'', JStr ''ann''), (''password'', JStr ''other'')]) ''userID'' = Inr ''ann''"
    "string_at (obj [(''userID'', JStr ''ann''), (''password'', JStr ''other'')]) ''password'' = Inr ''other''"
    by (simp_all add: string_at_def get_string_def)
  have get: "fst (redis_get (toy_auth_ext True) (c_str ''ann'') (anet ann_auth)) = Some (Redis_string ''pw'')"
    by (simp add: toy_auth_ext_def ann_auth_def c_str_toy)
  from login_answers_200_for_password_only [of "toy_auth_ext True" wrong_password ann_auth] obtain resp w where
    r: "login_handler (toy_auth_ext True) wrong_password ann_auth = Ret resp (ann_auth\<lparr>anet := w\<rparr>)"
    "res_status resp = 200 \<longrightarrow>
       (\<exists>body u pw s. parse (toy_auth_ext True) (req_body wrong_password) = Inr body \<and>
          string_at body ''userID'' = Inr u \<and> string_at body ''password'' = Inr pw \<and>
          fst (redis_get (toy_auth_ext True) (c_str u) (anet ann_auth)) = Some (Redis_string s) \<and> c_str s = pw)"
    by (elim exE conjE)
  have "res_status resp \<noteq> 200" using r(2) body fields get c_str_toy by auto
  with r(1) show ?thesis by blast
qed

theorem login_after_signup_witness:
  "\<exists>w. authenticateUser (toy_auth_ext True) ''ann'' ''other''
      \<lparr>redis_ctx = True, PRIVATE_KEY = ''k'', auth_ip = [], auth_port = 1, anet = [''ann'' \<mapsto> ''pw'']\<rparr>
    = Ret (auth_error ''Invalid credentials'')
      \<lparr>redis_ctx = True, PRIVATE_KEY = ''k'', auth_ip = [], auth_port = 1, anet = w\<rparr>"
proof -
  let ?a = "\<lparr>redis_ctx = True, PRIVATE_KEY = ''k'', auth_ip = [], auth_port = 1, anet = [''ann'' \<mapsto> ''pw'']\<rparr>"
  have "signupUser (toy_auth_ext True) ''ann'' ''pw'' [] 0 toy_signup = Ret (True, []) (toy_signup\<lparr>snet := [''ann'' \<mapsto> ''pw'']\<rparr>)"
    by (simp add: toy_signup_run)
  from login_after_signup [OF toy_redis_ok toy_redis_apart this c_str_toy, of ?a "''public''"]
  show ?thesis using toy_jwt_pair by fastforce
qed

theorem failed_signup_uses_up_name_witness:
  "\<exists>t'. signupUser (toy_auth_ext False) ''ann'' ''pw2'' [] 0 (toy_signup\<lparr>snet := [''ann'' \<mapsto> ''pw'']\<rparr>) =
     Ret (False, ''Username already exists or Redis returned an error.'') t'"
proof -
  have "signupUser (toy_auth_ext False) ''ann'' ''pw'' [] 0 toy_signup =
      Ret (False, ''Failed to create root directory metadata.'') (toy_signup\<lparr>snet := [''ann'' \<mapsto> ''pw'']\<rparr>)"
    by (simp add: toy_signup_run)
  from failed_signup_uses_up_name [OF toy_redis_ok toy_redis_apart this] show ?thesis by blast
qed

text \<open>Redis takes every name; the storage is that of \<open>Metaserver_Demo\<close>.\<close>

definition demo_auth_ext :: "cluster auth_ext" where
  "demo_auth_ext = \<lparr>json_parse = toy_parse, json_dump = toy_dump, json_pretty = toy_dump,
     what = (\<lambda>_. ''what''), float_trunc = (\<lambda>_. 0), json_read = toy_parse, curl_init = (\<lambda>c. (True, c)),
     curl_perform = cluster_perform toy_codec, shuffled = (\<lambda>ss c. (ss, c)),
     jwt_user = (\<lambda>t k n. None), hash = length, time_now = (\<lambda>_. 7), redis_connect = (\<lambda>_ _ w. (None, w)),
     redis_get = (\<lambda>k w. (None, w)), redis_set_nx = (\<lambda>k v w. (Some (Redis_status ''OK''), w)),
     jwt_sign = (\<lambda>_ _ u _ _. Inl Json_type_error)\<rparr>"

lemma demo_auth_simps [simp]:
  "json_parse demo_auth_ext = toy_parse" "json_dump demo_auth_ext = toy_dump"
  "json_pretty demo_auth_ext = toy_dump" "curl_init demo_auth_ext c = (True, c)"
  "curl_perform demo_auth_ext = cluster_perform toy_codec" "shuffled demo_auth_ext ss c = (ss, c)"
  "hash demo_auth_ext = length" "redis_connect demo_auth_ext h p w = (None, w)"
  "redis_set_nx demo_auth_ext k v w = (Some (Redis_status ''OK''), w)"
  by (simp_all add: demo_auth_ext_def)

lemma demo_auth_backed: "cluster_backed demo_auth_ext"
  by (simp add: cluster_backed_def cluster_perform_codec [of demo_auth_ext toy_codec])

lemma demo_groups: "metastorage_groups (init (demo_state d)) = [[''n1'']]"
  by (simp add: demo_state_def)

theorem signup_prepares_namespace_witness:
  "\<exists>c. signupUser demo_auth_ext ''bob'' ''pw'' [] 0
      \<lparr>signup_groups = [[''n1'']], snet = net (demo_state Map.empty)\<rparr>
      = Ret (True, []) \<lparr>signup_groups = [[''n1'']], snet = c\<rparr> \<and>
    tree_ok demo_auth_ext ''bob'' ((demo_state Map.empty)\<lparr>net := c\<rparr>)"
proof -
  let ?s = "\<lparr>signup_groups = [[''n1'']], snet = net (demo_state Map.empty)\<rparr>"
  have ready: "ready demo_auth_ext (demo_state Map.empty)"
    using demo_ready [of Map.empty] demo_auth_backed by (simp add: ready_def store_ok_def)
  have marker: "marker_not_json demo_auth_ext"
    using demo_marker by (simp add: marker_not_json_def)
  have view: "meta_view demo_auth_ext (demo_state Map.empty) = Map.empty"
    using demo_view [of Map.empty] by (simp add: meta_view_def group_of_def fun_eq_iff)
  then have docs: "docs demo_auth_ext (demo_state Map.empty) = Map.empty" by (simp add: docs_def fun_eq_iff)
  show ?thesis
    using signup_prepares_namespace [OF ready marker, of ?s "[]" 0 "''bob''" "''pw''"] view docs demo_groups [of Map.empty]
    by fastforce
qed

end
