(* ===== verification/Raft_Node.thy ===== *)
theory Raft_Node
  imports Kv_Node
begin

text \<open>
  Elections and replication among the storage servers of a group, \<open>node.py\<close> of
  \<open>src/CODE/src/meta_blockserver\<close>, which \<open>data_blockserver\<close> shares.  A handler runs without
  interruption; between handlers the threads of all servers interleave, and requests and replies may
  be delayed or lost.  Time is not modelled: a timeout may fire, and a wait may be given up, at any
  moment at which the code allows it.
\<close>

section \<open>Servers\<close>

text \<open>
  \<open>ticking\<close>: the thread of \<open>timeout_loop\<close> is alive; \<open>busy\<close>: the lock of
  \<open>handle_put\<close> is held.
\<close>

record raft = node +
  node_term :: nat
  voteCount :: nat
  ticking :: bool
  busy :: bool

definition new_node :: raft where
  "new_node = \<lparr>status = FOLLOWER, leader = None, DB = Map.empty, log = [], commitIdx = 0, staged = None,
     node_term = 0, voteCount = 0, ticking = True, busy = False\<rparr>"

text \<open>A condition that may be \<open>None\<close>, which is false.\<close>

definition py_true :: "json option \<Rightarrow> bool" where
  "py_true v = (case v of None \<Rightarrow> False | Some j \<Rightarrow> truthy j)"

text \<open>\<open>decide_vote\<close>: the choice, and the server afterwards, whose term is the second result.\<close>

definition decide_vote :: "raft \<Rightarrow> nat \<Rightarrow> nat \<Rightarrow> json option \<Rightarrow> bool \<times> raft" where
  "decide_vote n t k st =
     (if node_term n < t \<and> commitIdx n \<le> k \<and> (py_true st \<or> staged n = st)
      then (True, n\<lparr>node_term := t\<rparr>) else (False, n))"

record heartbeat =
  hb_term :: nat
  hb_addr :: string
  hb_action :: "string option"
  hb_payload :: "json option"
  hb_commitIdx :: "nat option"

definition heartbeat_follower :: "raft \<Rightarrow> heartbeat \<Rightarrow> bool \<times> raft" where
  "heartbeat_follower n m =
     (if node_term n \<le> hb_term m then
        (let n1 = n\<lparr>leader := Some (hb_addr m), status := FOLLOWER,
                    ticking := (ticking n \<or> status n = LEADER), node_term := hb_term m\<rparr>
         in case hb_action m of
              None \<Rightarrow> (True, n1)
            | Some a \<Rightarrow>
                if a = ''log'' then (True, n1\<lparr>staged := hb_payload m\<rparr>)
                else
                  (case hb_commitIdx m of
                     None \<Rightarrow> (True, n1)
                   | Some k \<Rightarrow>
                       if commitIdx n1 \<le> k then
                         commit (if py_true (staged n1) then n1 else n1\<lparr>staged := hb_payload m\<rparr>)
                       else (True, n1)))
      else (True, n))"

definition heartbeat_reply_handler :: "nat \<Rightarrow> raft \<Rightarrow> raft" where
  "heartbeat_reply_handler t n =
     (if node_term n < t then n\<lparr>node_term := t, status := FOLLOWER, ticking := True\<rparr> else n)"

section \<open>Threads\<close>

text \<open>
  The threads of all servers, with what they are waiting for.  \<open>Ask_for_vote\<close> is the head of the
  loop of \<open>ask_for_vote\<close>, \<open>Vote_sent\<close> its request on the way and \<open>Vote_back\<close> the reply.
  The request is built once, when the thread starts to run (\<open>None\<close> before), and repeated as it is;
  \<open>Catch_up\<close> and \<open>Catch_up_commit\<close> are the two messages of
  \<open>update_follower_commitIdx\<close>; \<open>Put\<close> is a \<open>handle_put\<close> that waits for the lock and
  \<open>Put_wait\<close> one that waits for confirmations, where the flag says that it was called by
  \<open>startHeartBeat\<close>; \<open>Spread\<close> is \<open>spread_update\<close> with the servers still to be told, the
  position of the next one, the \<open>Put_wait\<close> whose confirmations it marks, and whether it
  releases the lock.
\<close>

datatype thread =
    Ask_for_vote string string nat "(nat \<times> json option) option"
  | Vote_sent string string nat nat "json option"
  | Vote_back string string nat nat "json option" bool nat
  | Send_heartbeat string string
  | Catch_up string string nat json
  | Catch_up_commit string string nat json
  | Beat string string nat
  | Beat_back string string nat nat
  | Put string json bool
  | Put_wait string json "bool list" bool
  | Spread string heartbeat "string list" nat "nat option" bool
  | Ended

text \<open>
  \<open>answers\<close> are the results of \<open>handle_put\<close> for clients; \<open>grants\<close> (voter, candidate,
  term) and \<open>winners\<close> (candidate, term) record the votes given and the elections won.
\<close>

record system =
  peers :: "string list"
  servers :: "string \<Rightarrow> raft"
  threads :: "thread list"
  answers :: "(string \<times> json \<times> bool) list"
  grants :: "(string \<times> string \<times> nat) list"
  winners :: "(string \<times> nat) list"

definition boot :: "string list \<Rightarrow> system" where
  "boot ps = \<lparr>peers = ps, servers = (\<lambda>a. new_node), threads = [], answers = [], grants = [], winners = []\<rparr>"

definition fellow :: "system \<Rightarrow> string \<Rightarrow> string list" where
  "fellow s a = remove1 a (peers s)"

definition majority :: "system \<Rightarrow> string \<Rightarrow> nat" where
  "majority s a = (length (fellow s a) + 1) div 2 + 1"

definition on_server :: "string \<Rightarrow> (raft \<Rightarrow> raft) \<Rightarrow> system \<Rightarrow> system" where
  "on_server a f s = s\<lparr>servers := (servers s)(a := f (servers s a))\<rparr>"

definition spawn :: "thread list \<Rightarrow> system \<Rightarrow> system" where
  "spawn ts s = s\<lparr>threads := threads s @ ts\<rparr>"

definition goes_on :: "nat \<Rightarrow> thread \<Rightarrow> system \<Rightarrow> system" where
  "goes_on i t s = s\<lparr>threads := (threads s)[i := t]\<rparr>"

section \<open>Elections\<close>

definition start_beats :: "string \<Rightarrow> system \<Rightarrow> system" where
  "start_beats a s = spawn (map (Send_heartbeat a) (fellow s a)) s"

text \<open>A payload staged before the election is put first; the heartbeats start when that put returns.\<close>

definition startHeartBeat :: "string \<Rightarrow> system \<Rightarrow> system" where
  "startHeartBeat a s =
     (case staged (servers s a) of
        Some p \<Rightarrow> if truthy p then spawn [Put a p True] s else start_beats a s
      | None \<Rightarrow> start_beats a s)"

definition incrementVote :: "string \<Rightarrow> system \<Rightarrow> system" where
  "incrementVote a s =
     (let s1 = on_server a (\<lambda>n. n\<lparr>voteCount := voteCount n + 1\<rparr>) s
      in if majority s1 a \<le> voteCount (servers s1 a) then
           startHeartBeat a
             ((on_server a (\<lambda>n. n\<lparr>status := LEADER\<rparr>) s1)
                \<lparr>winners := winners s @ [(a, node_term (servers s a))]\<rparr>)
         else s1)"

definition startElection :: "string \<Rightarrow> system \<Rightarrow> system" where
  "startElection a s =
     (let t = node_term (servers s a) + 1;
          s1 = (on_server a (\<lambda>n. n\<lparr>node_term := t, voteCount := 0, status := CANDIDATE, ticking := True\<rparr>) s)
                 \<lparr>grants := grants s @ [(a, a, t)]\<rparr>
      in spawn (map (\<lambda>v. Ask_for_vote a v t None) (fellow s a)) (incrementVote a s1))"

definition ask_for_vote ::
  "nat \<Rightarrow> string \<Rightarrow> string \<Rightarrow> nat \<Rightarrow> (nat \<times> json option) option \<Rightarrow> system \<Rightarrow> system" where
  "ask_for_vote i c v t message s =
     (let n = servers s c;
          (k, st) = (case message of None \<Rightarrow> (commitIdx n, staged n) | Some m \<Rightarrow> m)
      in if status n = CANDIDATE \<and> node_term n = t
         then goes_on i (Vote_sent c v t k st) s
         else goes_on i Ended s)"

definition vote_req :: "nat \<Rightarrow> string \<Rightarrow> string \<Rightarrow> nat \<Rightarrow> nat \<Rightarrow> json option \<Rightarrow> system \<Rightarrow> system" where
  "vote_req i c v t k st s =
     (let (choice, n) = decide_vote (servers s v) t k st
      in goes_on i (Vote_back c v t k st choice (node_term n))
           ((on_server v (\<lambda>_. n) s)\<lparr>grants := grants s @ (if choice then [(v, c, t)] else [])\<rparr>))"

definition vote_reply :: "nat \<Rightarrow> string \<Rightarrow> bool \<Rightarrow> nat \<Rightarrow> system \<Rightarrow> system" where
  "vote_reply i c choice t s =
     (let s1 = goes_on i Ended s; n = servers s c
      in if choice \<and> status n = CANDIDATE then incrementVote c s1
         else if \<not> choice \<and> node_term n < t
         then on_server c (\<lambda>n. n\<lparr>node_term := t, status := FOLLOWER\<rparr>) s1
         else s1)"

section \<open>Heartbeats\<close>

text \<open>\<open>False\<close>: no usable reply, because the handler raised an exception.\<close>

definition deliver :: "string \<Rightarrow> heartbeat \<Rightarrow> system \<Rightarrow> bool \<times> system" where
  "deliver f m s =
     (let (ok, n) = heartbeat_follower (servers s f) m in (ok, on_server f (\<lambda>_. n) s))"

definition plain_beat :: "nat \<Rightarrow> string \<Rightarrow> heartbeat" where
  "plain_beat t l = \<lparr>hb_term = t, hb_addr = l, hb_action = None, hb_payload = None, hb_commitIdx = None\<rparr>"

definition second_message :: "nat \<Rightarrow> string \<Rightarrow> json \<Rightarrow> heartbeat" where
  "second_message t l e =
     (plain_beat t l)\<lparr>hb_action := Some ''commit'', hb_payload := py_value e\<rparr>"

definition beats_from_now :: "nat \<Rightarrow> string \<Rightarrow> string \<Rightarrow> system \<Rightarrow> system" where
  "beats_from_now i l f s = goes_on i (Beat l f (node_term (servers s l))) s"

definition send_heartbeat :: "nat \<Rightarrow> string \<Rightarrow> string \<Rightarrow> system \<Rightarrow> system" where
  "send_heartbeat i l f s =
     (let n = servers s l
      in if log n = [] then beats_from_now i l f s
         else goes_on i (Catch_up l f (node_term n) (last (log n))) s)"

definition update_follower_commitIdx :: "nat \<Rightarrow> string \<Rightarrow> string \<Rightarrow> nat \<Rightarrow> json \<Rightarrow> system \<Rightarrow> system" where
  "update_follower_commitIdx i l f t e s =
     (let (ok, s1) = deliver f (plain_beat t l) s
      in if ok \<and> commitIdx (servers s1 f) < commitIdx (servers s1 l)
         then goes_on i (Catch_up_commit l f t e) s1 else beats_from_now i l f s1)"

definition beat :: "nat \<Rightarrow> string \<Rightarrow> string \<Rightarrow> nat \<Rightarrow> system \<Rightarrow> system" where
  "beat i l f t s =
     (if status (servers s l) = LEADER then
        (let (ok, s1) = deliver f (plain_beat t l) s
         in if ok then goes_on i (Beat_back l f t (node_term (servers s1 f))) s1 else s1)
      else goes_on i Ended s)"

section \<open>Writes\<close>

definition log_message :: "nat \<Rightarrow> string \<Rightarrow> nat \<Rightarrow> json \<Rightarrow> heartbeat" where
  "log_message t l k p = \<lparr>hb_term = t, hb_addr = l, hb_action = Some ''log'', hb_payload = py_value p,
     hb_commitIdx = Some k\<rparr>"

definition commit_message :: "nat \<Rightarrow> string \<Rightarrow> nat \<Rightarrow> json \<Rightarrow> heartbeat" where
  "commit_message t l k p = (log_message t l k p)\<lparr>hb_action := Some ''commit''\<rparr>"

text \<open>\<open>handle_put\<close>: from the lock to the wait, the commit once a majority has confirmed, the end of the wait.\<close>

definition put_begin :: "nat \<Rightarrow> string \<Rightarrow> json \<Rightarrow> bool \<Rightarrow> system \<Rightarrow> system" where
  "put_begin i a p el s =
     (let s1 = on_server a (\<lambda>n. n\<lparr>busy := True, staged := py_value p\<rparr>) s; n = servers s1 a
      in spawn [Spread a (log_message (node_term n) a (commitIdx n) p) (fellow s a) 0 (Some i) False]
           (goes_on i (Put_wait a p (replicate (length (fellow s a)) False) el) s1))"

definition returned :: "string \<Rightarrow> json \<Rightarrow> bool \<Rightarrow> bool \<Rightarrow> system \<Rightarrow> system" where
  "returned a p el result s =
     (if el then start_beats a s else s\<lparr>answers := answers s @ [(a, p, result)]\<rparr>)"

definition put_commit :: "nat \<Rightarrow> string \<Rightarrow> json \<Rightarrow> bool \<Rightarrow> system \<Rightarrow> system" where
  "put_commit i a p el s =
     (let n = servers s a;
          m = commit_message (node_term n) a (commitIdx n) p;
          (ok, n1) = commit n;
          s1 = goes_on i Ended (on_server a (\<lambda>_. n1) s)
      in if ok then returned a p el True (spawn [Spread a m (fellow s a) 0 None True] s1) else s1)"

definition put_reject :: "nat \<Rightarrow> string \<Rightarrow> json \<Rightarrow> bool \<Rightarrow> system \<Rightarrow> system" where
  "put_reject i a p el s =
     returned a p el False (goes_on i Ended (on_server a (\<lambda>n. n\<lparr>busy := False\<rparr>) s))"

definition confirmed :: "system \<Rightarrow> string \<Rightarrow> bool list \<Rightarrow> bool" where
  "confirmed s a conf \<longleftrightarrow> majority s a \<le> length (filter id conf) + 1"

definition confirm :: "nat option \<Rightarrow> nat \<Rightarrow> system \<Rightarrow> system" where
  "confirm target k s =
     (case target of
        None \<Rightarrow> s
      | Some j \<Rightarrow>
          (case threads s ! j of
             Put_wait a p conf el \<Rightarrow> goes_on j (Put_wait a p (conf[k := True]) el) s
           | _ \<Rightarrow> s))"

definition spread_update ::
  "nat \<Rightarrow> string \<Rightarrow> heartbeat \<Rightarrow> string list \<Rightarrow> nat \<Rightarrow> nat option \<Rightarrow> bool \<Rightarrow> bool \<Rightarrow> system \<Rightarrow> system" where
  "spread_update i a m fs k target lock replied s =
     (case fs of
        [] \<Rightarrow> goes_on i Ended (if lock then on_server a (\<lambda>n. n\<lparr>busy := False\<rparr>) s else s)
      | f # rest \<Rightarrow>
          (let (ok, s1) = deliver f m s;
               s2 = goes_on i (Spread a m rest (k + 1) target lock) s1
           in if ok \<and> replied then confirm target k s2 else s2))"

section \<open>Steps\<close>

text \<open>
  \<open>Run i\<close> is the next step of a thread; \<open>Lost i\<close>: its request or the reply to it does not
  arrive; \<open>Reply_lost i\<close>: the request arrives, the reply does not; \<open>Give_up i\<close>: the wait
  for confirmations ends.  \<open>None\<close>: the event cannot happen.
\<close>

datatype event =
    Timeout string
  | Timeout_end string
  | Client_put string json
  | Run nat
  | Lost nat
  | Reply_lost nat
  | Give_up nat

definition run_thread :: "nat \<Rightarrow> system \<Rightarrow> system option" where
  "run_thread i s =
     (if length (threads s) \<le> i then None
      else
        (case threads s ! i of
           Ask_for_vote c v t m \<Rightarrow> Some (ask_for_vote i c v t m s)
         | Vote_sent c v t k st \<Rightarrow> Some (vote_req i c v t k st s)
         | Vote_back c v t k st choice rt \<Rightarrow> Some (vote_reply i c choice rt s)
         | Send_heartbeat l f \<Rightarrow> Some (send_heartbeat i l f s)
         | Catch_up l f t e \<Rightarrow> Some (update_follower_commitIdx i l f t e s)
         | Catch_up_commit l f t e \<Rightarrow> Some (beats_from_now i l f (snd (deliver f (second_message t l e) s)))
         | Beat l f t \<Rightarrow> Some (beat i l f t s)
         | Beat_back l f t rt \<Rightarrow>
             Some (goes_on i (Beat l f t) (on_server l (heartbeat_reply_handler rt) s))
         | Put a p el \<Rightarrow> if busy (servers s a) then None else Some (put_begin i a p el s)
         | Put_wait a p conf el \<Rightarrow> if confirmed s a conf then Some (put_commit i a p el s) else None
         | Spread a m fs k target lock \<Rightarrow> Some (spread_update i a m fs k target lock True s)
         | Ended \<Rightarrow> None))"

definition lose :: "nat \<Rightarrow> system \<Rightarrow> system option" where
  "lose i s =
     (if length (threads s) \<le> i then None
      else
        (case threads s ! i of
           Vote_sent c v t k st \<Rightarrow> Some (goes_on i (Ask_for_vote c v t (Some (k, st))) s)
         | Vote_back c v t k st choice rt \<Rightarrow> Some (goes_on i (Ask_for_vote c v t (Some (k, st))) s)
         | Catch_up l f t e \<Rightarrow> Some (beats_from_now i l f s)
         | Catch_up_commit l f t e \<Rightarrow> Some (beats_from_now i l f s)
         | Beat_back l f t rt \<Rightarrow> Some (goes_on i (Beat l f t) s)
         | Spread a m (f # fs) k target lock \<Rightarrow> Some (goes_on i (Spread a m fs (k + 1) target lock) s)
         | _ \<Rightarrow> None))"

definition lose_reply :: "nat \<Rightarrow> system \<Rightarrow> system option" where
  "lose_reply i s =
     (if length (threads s) \<le> i then None
      else
        (case threads s ! i of
           Catch_up l f t e \<Rightarrow> Some (beats_from_now i l f (snd (deliver f (plain_beat t l) s)))
         | Spread a m (f # fs) k target lock \<Rightarrow>
             Some (spread_update i a m (f # fs) k target lock False s)
         | _ \<Rightarrow> None))"

definition give_up :: "nat \<Rightarrow> system \<Rightarrow> system option" where
  "give_up i s =
     (if length (threads s) \<le> i then None
      else
        (case threads s ! i of
           Put_wait a p conf el \<Rightarrow> if confirmed s a conf then None else Some (put_reject i a p el s)
         | _ \<Rightarrow> None))"

definition happens :: "event \<Rightarrow> system \<Rightarrow> system option" where
  "happens e s =
     (case e of
        Timeout a \<Rightarrow>
          if a \<in> set (peers s) \<and> ticking (servers s a) \<and> status (servers s a) \<noteq> LEADER
          then Some (startElection a s) else None
      | Timeout_end a \<Rightarrow>
          if ticking (servers s a) \<and> status (servers s a) = LEADER
          then Some (on_server a (\<lambda>n. n\<lparr>ticking := False\<rparr>) s) else None
      | Client_put a p \<Rightarrow>
          if a \<in> set (peers s) \<and> status (servers s a) = LEADER then Some (spawn [Put a p False] s) else None
      | Run i \<Rightarrow> run_thread i s
      | Lost i \<Rightarrow> lose i s
      | Reply_lost i \<Rightarrow> lose_reply i s
      | Give_up i \<Rightarrow> give_up i s)"

fun run_all :: "event list \<Rightarrow> system \<Rightarrow> system option" where
  "run_all [] s = Some s"
| "run_all (e # es) s = Option.bind (happens e s) (run_all es)"

inductive reach :: "string list \<Rightarrow> system \<Rightarrow> bool" for ps where
  boot: "reach ps (boot ps)"
| step: "reach ps s \<Longrightarrow> happens e s = Some t \<Longrightarrow> reach ps t"

end
