(* ===== verification/Raft_Props.thy ===== *)
theory Raft_Props
  imports Raft_Node
begin

text \<open>
  Properties of elections and replication: what every server keeps to, when the winner of a term is
  unique and when it is not, how a write is replicated, and how an acknowledged one is lost.
\<close>

section \<open>What a step does to one server\<close>

lemma servers_simps [simp]:
  "servers (spawn ts s) = servers s" "servers (goes_on i t s) = servers s"
  "servers (on_server a f s) = (servers s)(a := f (servers s a))"
  "servers (start_beats a s) = servers s" "servers (startHeartBeat a s) = servers s"
  "servers (confirm target k s) = servers s" "servers (returned a p el r s) = servers s"
  "servers (beats_from_now i l g s) = servers s"
  by (auto simp: spawn_def goes_on_def on_server_def start_beats_def startHeartBeat_def confirm_def
      returned_def beats_from_now_def split: option.split thread.split)

text \<open>What the log does to the database.\<close>

definition apply_entry :: "(json \<rightharpoonup> json) \<Rightarrow> json \<Rightarrow> (json \<rightharpoonup> json)" where
  "apply_entry db e =
     (case (Option.bind (py_item e ''key'') py_key, py_item e ''value'') of
        (Some key, Some v) \<Rightarrow> db(key \<mapsto> v) | _ \<Rightarrow> db)"

definition replay :: "json list \<Rightarrow> (json \<rightharpoonup> json)" where
  "replay es = foldl apply_entry Map.empty es"

text \<open>
  The only way in which the data of a server changes: its term grows, entries are appended to the log
  and applied to the database.
\<close>

definition evolves :: "raft \<Rightarrow> raft \<Rightarrow> bool" where
  "evolves n m \<longleftrightarrow> node_term n \<le> node_term m \<and>
     (\<exists>es. log m = log n @ es \<and> commitIdx m = commitIdx n + length es \<and> DB m = foldl apply_entry (DB n) es)"

named_theorems evolves_intros

lemma evolves_frame [evolves_intros]:
  "node_term n \<le> node_term m \<Longrightarrow> log m = log n \<Longrightarrow> commitIdx m = commitIdx n \<Longrightarrow> DB m = DB n \<Longrightarrow> evolves n m"
  by (auto simp: evolves_def)

lemma evolves_refl [simp]: "evolves n n"
  by (simp add: evolves_frame)

lemma evolves_trans: "evolves n m \<Longrightarrow> evolves m k \<Longrightarrow> evolves n k"
  by (fastforce simp: evolves_def)

lemma evolves_commit [evolves_intros]: "evolves n (snd (commit n))"
  unfolding evolves_def
  by (intro conjI exI [of _ "[case staged n of None \<Rightarrow> JNull | Some p \<Rightarrow> p]"])
     (auto simp: commit_def apply_entry_def Let_def split: option.split json.split)

lemma evolves_vote [evolves_intros]: "evolves n (snd (decide_vote n t k st))"
  by (auto simp: decide_vote_def intro: evolves_frame)

lemma evolves_reply [evolves_intros]: "evolves n (heartbeat_reply_handler t n)"
  by (auto simp: heartbeat_reply_handler_def intro: evolves_frame)

lemma evolves_heartbeat [evolves_intros]: "evolves n (snd (heartbeat_follower n m))"
proof -
  let ?n1 = "n\<lparr>leader := Some (hb_addr m), status := FOLLOWER,
      ticking := (ticking n \<or> status n = LEADER), node_term := hb_term m\<rparr>"
  have "evolves n (snd (commit m2))"
    if "node_term n \<le> hb_term m" "m2 = ?n1 \<or> m2 = ?n1\<lparr>staged := hb_payload m\<rparr>" for m2
    by (rule evolves_trans [OF _ evolves_commit]) (use that in \<open>auto intro: evolves_frame\<close>)
  then show ?thesis
    by (auto simp: heartbeat_follower_def Let_def intro: evolves_frame split: option.split)
qed

lemma evolves_deliver: "evolves (servers s b) (servers (snd (deliver f m s)) b)"
  using evolves_heartbeat [of "servers s f" m]
  by (auto simp: deliver_def split: prod.split intro: evolves_frame)

lemma deliver_other [simp]: "b \<noteq> f \<Longrightarrow> servers (snd (deliver f m s)) b = servers s b"
  by (simp add: deliver_def split: prod.split)

lemma evolves_incrementVote: "evolves (servers s b) (servers (incrementVote a s) b)"
  by (auto simp: incrementVote_def Let_def intro: evolves_frame)

lemma evolves_startElection: "evolves (servers s b) (servers (startElection a s) b)"
proof -
  let ?s1 = "(on_server a (\<lambda>n. n\<lparr>node_term := node_term (servers s a) + 1, voteCount := 0, status := CANDIDATE,
      ticking := True\<rparr>) s)\<lparr>grants := grants s @ [(a, a, node_term (servers s a) + 1)]\<rparr>"
  have "evolves (servers s b) (servers ?s1 b)" by (auto intro: evolves_frame)
  then show ?thesis
    using evolves_trans [OF _ evolves_incrementVote [of ?s1 b a]] by (simp add: startElection_def Let_def)
qed

lemma evolves_run: "run_thread i s = Some t \<Longrightarrow> evolves (servers s b) (servers t b)"
  by (cases "threads s ! i")
    (auto simp: run_thread_def ask_for_vote_def vote_req_def vote_reply_def send_heartbeat_def
      update_follower_commitIdx_def beat_def put_begin_def put_commit_def spread_update_def Let_def case_prod_unfold
      evolves_deliver evolves_reply evolves_vote evolves_commit
      split: if_splits list.splits
      intro: evolves_frame evolves_deliver evolves_trans [OF _ evolves_incrementVote])

lemma evolves_other:
  "lose i s = Some t \<Longrightarrow> evolves (servers s b) (servers t b)"
  "lose_reply i s = Some t \<Longrightarrow> evolves (servers s b) (servers t b)"
  "give_up i s = Some t \<Longrightarrow> evolves (servers s b) (servers t b)"
  by (auto simp: lose_def lose_reply_def give_up_def put_reject_def spread_update_def case_prod_unfold evolves_deliver
      split: if_splits thread.splits list.splits intro: evolves_frame)

lemma evolves_happens: "happens e s = Some t \<Longrightarrow> evolves (servers s b) (servers t b)"
  by (cases e)
    (auto simp: happens_def evolves_startElection evolves_run evolves_other
      split: if_splits intro: evolves_frame)

text \<open>C36: Every server's commit index counts its log and its database is what the log says, whatever is
  delayed or lost and whoever is elected; and no step ever takes back a term or an entry of a log.\<close>

theorem servers_replay_their_log:
  assumes "reach ps s"
  shows "commitIdx (servers s a) = length (log (servers s a)) \<and>
    DB (servers s a) = replay (log (servers s a)) \<and>
    (\<forall>e t. happens e s = Some t \<longrightarrow>
       node_term (servers s a) \<le> node_term (servers t a) \<and> prefix (log (servers s a)) (log (servers t a)))"
proof -
  have "commitIdx (servers s a) = length (log (servers s a)) \<and> DB (servers s a) = replay (log (servers s a))"
    using assms
  proof (induction rule: reach.induct)
    case boot
    then show ?case by (simp add: boot_def new_node_def replay_def)
  next
    case (step s e t)
    from evolves_happens [OF step.hyps(2), of a] step.IH show ?case
      by (auto simp: evolves_def replay_def)
  qed
  moreover have "node_term (servers s a) \<le> node_term (servers t a) \<and> prefix (log (servers s a)) (log (servers t a))"
    if "happens e s = Some t" for e t
    using evolves_happens [OF that, of a] by (auto simp: evolves_def)
  ultimately show ?thesis by blast
qed

section \<open>Votes\<close>

text \<open>The vote a thread is about, and whether it carries one.\<close>

definition vote_of :: "thread \<Rightarrow> (string \<times> string \<times> nat \<times> bool) option" where
  "vote_of th = (case th of
       Ask_for_vote c v t m \<Rightarrow> Some (c, v, t, False)
     | Vote_sent c v t k st \<Rightarrow> Some (c, v, t, False)
     | Vote_back c v t k st choice rt \<Rightarrow> Some (c, v, t, choice)
     | _ \<Rightarrow> None)"

lemma vote_of_simps [simp]:
  "vote_of (Ask_for_vote c v t msg) = Some (c, v, t, False)"
  "vote_of (Vote_sent c v t k st) = Some (c, v, t, False)"
  "vote_of (Vote_back c v t k st choice rt) = Some (c, v, t, choice)"
  "vote_of (Send_heartbeat l f) = None" "vote_of (Catch_up l f t e) = None"
  "vote_of (Catch_up_commit l f t e) = None" "vote_of (Beat l f t) = None"
  "vote_of (Beat_back l f t rt) = None" "vote_of (Put a p el) = None"
  "vote_of (Put_wait a p conf el) = None" "vote_of (Spread a m fs k target lock) = None"
  "vote_of Ended = None"
  by (simp_all add: vote_of_def)

definition pend :: "system \<Rightarrow> string \<Rightarrow> string \<Rightarrow> nat \<Rightarrow> nat" where
  "pend s c v t = length (filter (\<lambda>th. vote_of th = Some (c, v, t, True)) (threads s))"

definition ballots :: "system \<Rightarrow> string \<Rightarrow> nat \<Rightarrow> string set" where
  "ballots s c t = {v. (v, c, t) \<in> set (grants s)}"

definition counted :: "system \<Rightarrow> string \<Rightarrow> nat \<Rightarrow> string set" where
  "counted s c t = {v \<in> ballots s c t. pend s c v t = 0}"

lemma finite_ballots [simp]: "finite (ballots s c t)"
proof -
  have "ballots s c t \<subseteq> fst ` set (grants s)" by (force simp: ballots_def)
  then show ?thesis by (rule finite_subset) simp
qed

lemma finite_counted [simp]: "finite (counted s c t)"
  by (simp add: counted_def)

lemma length_filter_update:
  "i < length xs \<Longrightarrow> length (filter P (xs[i := y])) + (if P (xs ! i) then 1 else 0) =
     length (filter P xs) + (if P y then 1 else (0 :: nat))"
proof (induction xs arbitrary: i)
  case (Cons x xs)
  then show ?case
  proof (cases i)
    case (Suc j)
    then show ?thesis using Cons.IH [of j] Cons.prems by auto
  qed auto
qed simp

text \<open>
  What holds of votes in every state: one vote of a server in a term; threads ask for the votes of
  elections that took place; a vote is on its way back once; the count of a candidate is backed by
  votes; winners have a majority.
\<close>

definition one_vote :: "system \<Rightarrow> bool" where
  "one_vote s \<longleftrightarrow> distinct (map (\<lambda>(v, c, t). (v, t)) (grants s)) \<and>
     (\<forall>v c t. (v, c, t) \<in> set (grants s) \<longrightarrow> t \<le> node_term (servers s v))"

definition vote_backed :: "system \<Rightarrow> string \<times> string \<times> nat \<times> bool \<Rightarrow> bool" where
  "vote_backed s x = (case x of (c, v, t, choice) \<Rightarrow>
     (c, c, t) \<in> set (grants s) \<and> c \<noteq> v \<and> v \<in> set (peers s) \<and> (choice \<longrightarrow> (v, c, t) \<in> set (grants s)))"

definition stands :: "system \<Rightarrow> string \<Rightarrow> bool" where
  "stands s c \<longleftrightarrow> status (servers s c) = CANDIDATE \<and> (c, c, node_term (servers s c)) \<in> set (grants s)"

definition elect_inv :: "string list \<Rightarrow> system \<Rightarrow> bool" where
  "elect_inv ps s \<longleftrightarrow>
     peers s = ps \<and> distinct ps \<and> one_vote s \<and>
     (\<forall>th x. th \<in> set (threads s) \<and> vote_of th = Some x \<longrightarrow> vote_backed s x) \<and>
     (\<forall>v c t. (v, c, t) \<in> set (grants s) \<longrightarrow> (c, c, t) \<in> set (grants s) \<and> v \<in> set ps) \<and>
     (\<forall>c v t. pend s c v t \<le> 1) \<and>
     (\<forall>c. stands s c \<longrightarrow> voteCount (servers s c) \<le> card (counted s c (node_term (servers s c)))) \<and>
     (\<forall>c t. (c, t) \<in> set (winners s) \<longrightarrow> length ps div 2 + 1 \<le> card (ballots s c t))"

lemma elect_invD:
  assumes "elect_inv ps s"
  shows "peers s = ps" "distinct ps" "one_vote s"
    "th \<in> set (threads s) \<Longrightarrow> vote_of th = Some x \<Longrightarrow> vote_backed s x"
    "(v, c, t) \<in> set (grants s) \<Longrightarrow> (c, c, t) \<in> set (grants s)"
    "(v, c, t) \<in> set (grants s) \<Longrightarrow> v \<in> set ps"
    "(v, c, t) \<in> set (grants s) \<Longrightarrow> t \<le> node_term (servers s v)"
    "pend s c v t \<le> 1"
    "stands s c \<Longrightarrow> voteCount (servers s c) \<le> card (counted s c (node_term (servers s c)))"
    "(c, t) \<in> set (winners s) \<Longrightarrow> length ps div 2 + 1 \<le> card (ballots s c t)"
  using assms unfolding elect_inv_def one_vote_def by blast+

section \<open>Steps that no vote depends on\<close>

definition weaker :: "(string \<times> string \<times> nat \<times> bool) option \<Rightarrow> (string \<times> string \<times> nat \<times> bool) option \<Rightarrow> bool" where
  "weaker y x \<longleftrightarrow> y = None \<or> y = x \<or>
     (\<exists>c v t choice. x = Some (c, v, t, choice) \<and> y = Some (c, v, t, False))"

definition vote_at :: "thread list \<Rightarrow> nat \<Rightarrow> (string \<times> string \<times> nat \<times> bool) option" where
  "vote_at ts k = (if k < length ts then vote_of (ts ! k) else None)"

definition calm :: "thread list \<Rightarrow> thread list \<Rightarrow> bool" where
  "calm ts us \<longleftrightarrow> length ts \<le> length us \<and> (\<forall>k. weaker (vote_at us k) (vote_at ts k))"

definition quiet :: "system \<Rightarrow> system \<Rightarrow> bool" where
  "quiet s t \<longleftrightarrow> peers t = peers s \<and> grants t = grants s \<and> winners t = winners s \<and>
     calm (threads s) (threads t) \<and>
     (\<forall>c. node_term (servers s c) \<le> node_term (servers t c) \<and>
        (status (servers t c) = CANDIDATE \<longrightarrow> status (servers s c) = CANDIDATE \<and>
           voteCount (servers t c) = voteCount (servers s c) \<and> node_term (servers t c) = node_term (servers s c)))"

lemma weaker_simps [simp]: "weaker None x" "weaker x x" "weaker (Some (c, v, t, False)) (Some (c, v, t, b))"
  by (simp_all add: weaker_def)

lemma weaker_trans: "weaker z y \<Longrightarrow> weaker y x \<Longrightarrow> weaker z x"
  by (auto simp: weaker_def)

lemma calm_append: "\<forall>w \<in> set ws. vote_of w = None \<Longrightarrow> calm ts (ts @ ws)"
  by (auto simp: calm_def vote_at_def nth_append)

lemma calm_update: "weaker (vote_of x) (vote_of (ts ! i)) \<Longrightarrow> calm ts (ts[i := x])"
  unfolding calm_def vote_at_def by simp (metis nth_list_update_eq nth_list_update_neq weaker_simps(2))

lemma calm_refl [simp]: "calm ts ts"
  by (simp add: calm_def)

lemma calm_trans: "calm ts us \<Longrightarrow> calm us vs \<Longrightarrow> calm ts vs"
  unfolding calm_def using weaker_trans le_trans by blast

lemma calm_thread:
  assumes "calm ts us" and "th \<in> set us" and "vote_of th = Some (c, v, t, choice)"
  obtains th' choice' where "th' \<in> set ts" and "vote_of th' = Some (c, v, t, choice')" and "choice \<longrightarrow> choice'"
proof -
  obtain k where k: "k < length us" "th = us ! k" using assms(2) by (auto simp: in_set_conv_nth)
  have "weaker (Some (c, v, t, choice)) (vote_at ts k)"
    using assms(1,3) k unfolding calm_def by (metis vote_at_def)
  then obtain choice' where "vote_at ts k = Some (c, v, t, choice')" "choice \<longrightarrow> choice'"
    by (cases "vote_at ts k") (auto simp: weaker_def)
  then show ?thesis using that nth_mem by (auto simp: vote_at_def split: if_splits)
qed

lemma filter_length_le:
  assumes "length ts \<le> length us"
    and "\<And>k. k < length us \<Longrightarrow> P (us ! k) \<Longrightarrow> k < length ts \<and> P (ts ! k)"
  shows "length (filter P us) \<le> length (filter P ts)"
proof -
  have "{k. k < length us \<and> P (us ! k)} \<subseteq> {k. k < length ts \<and> P (ts ! k)}" using assms(2) by auto
  then show ?thesis by (simp add: length_filter_conv_card card_mono)
qed

lemma calm_pend:
  assumes "calm (threads s) (threads t)" shows "pend t c v k \<le> pend s c v k"
  unfolding pend_def
proof (rule filter_length_le)
  show "length (threads s) \<le> length (threads t)" using assms by (simp add: calm_def)
  fix i assume i: "i < length (threads t)" "vote_of (threads t ! i) = Some (c, v, k, True)"
  have "weaker (vote_at (threads t) i) (vote_at (threads s) i)" using assms by (simp add: calm_def)
  with i show "i < length (threads s) \<and> vote_of (threads s ! i) = Some (c, v, k, True)"
    by (auto simp: weaker_def vote_at_def split: if_splits)
qed

lemma quiet_inv:
  assumes q: "quiet s t" and I: "elect_inv ps s" shows "elect_inv ps t"
proof -
  note D = elect_invD [OF I]
  have same: "peers t = peers s" "grants t = grants s" "winners t = winners s"
    and calm: "calm (threads s) (threads t)"
    and up: "\<And>c. node_term (servers s c) \<le> node_term (servers t c)"
    and cand: "\<And>c. status (servers t c) = CANDIDATE \<Longrightarrow> status (servers s c) = CANDIDATE \<and>
           voteCount (servers t c) = voteCount (servers s c) \<and> node_term (servers t c) = node_term (servers s c)"
    using q by (auto simp: quiet_def)
  have ballots: "ballots t = ballots s" by (simp add: ballots_def same fun_eq_iff)
  have counted: "counted s c k \<subseteq> counted t c k" for c k
    using calm_pend [OF calm, of c _ k] by (auto simp: counted_def ballots) (metis le_zero_eq)
  have votes: "one_vote t" using D(3) up same le_trans unfolding one_vote_def by metis
  have threads: "vote_backed t x" if th: "th \<in> set (threads t)" "vote_of th = Some x" for th x
  proof -
    obtain c v k choice where x: "x = (c, v, k, choice)" by (cases x)
    from calm_thread [OF calm th(1)] th(2) x obtain th' choice' where
      "th' \<in> set (threads s)" "vote_of th' = Some (c, v, k, choice')" "choice \<longrightarrow> choice'" by metis
    with D(4) show ?thesis by (fastforce simp: vote_backed_def x same)
  qed
  have pend: "pend t c v k \<le> 1" for c v k using calm_pend [OF calm] D(8) le_trans by blast
  have count: "voteCount (servers t c) \<le> card (counted t c (node_term (servers t c)))" if "stands t c" for c
  proof -
    have c: "stands s c" "voteCount (servers t c) = voteCount (servers s c)"
      "node_term (servers t c) = node_term (servers s c)" using that cand same by (auto simp: stands_def)
    have "card (counted s c (node_term (servers s c))) \<le> card (counted t c (node_term (servers s c)))"
      by (rule card_mono [OF finite_counted counted])
    with D(9) [OF c(1)] c show ?thesis by simp
  qed
  show ?thesis
    unfolding elect_inv_def using D(1,2,5,6,10) votes threads pend count same ballots by metis
qed

named_theorems quiet_intros

lemma quiet_refl [simp, quiet_intros]: "quiet s s"
  by (simp add: quiet_def)

lemma quiet_trans: "quiet s t \<Longrightarrow> quiet t u \<Longrightarrow> quiet s u"
  unfolding quiet_def by (metis calm_trans le_trans)

lemma threads_simps [simp]:
  "threads (spawn ts s) = threads s @ ts" "threads (goes_on i th s) = (threads s)[i := th]"
  "threads (on_server a f s) = threads s"
  by (simp_all add: spawn_def goes_on_def on_server_def)

lemma quiet_spawn: "\<forall>th \<in> set ts. vote_of th = None \<Longrightarrow> quiet s (spawn ts s)"
  by (simp add: quiet_def calm_append spawn_def)

lemma quiet_goes_on: "weaker (vote_of th) (vote_of (threads s ! i)) \<Longrightarrow> quiet s (goes_on i th s)"
  by (simp add: quiet_def calm_update goes_on_def)

definition demure :: "raft \<Rightarrow> raft \<Rightarrow> bool" where
  "demure n m \<longleftrightarrow> node_term n \<le> node_term m \<and>
     (status m = CANDIDATE \<longrightarrow> status n = CANDIDATE \<and> voteCount m = voteCount n \<and> node_term m = node_term n)"

lemma quiet_on_server: "demure (servers s a) (f (servers s a)) \<Longrightarrow> quiet s (on_server a f s)"
  by (simp add: quiet_def demure_def on_server_def)

lemma quiet_answers: "quiet s (s\<lparr>answers := x\<rparr>)"
  by (simp add: quiet_def)

lemma demure_commit [simp]: "demure n (snd (commit n))"
  by (simp add: demure_def commit_def Let_def split: option.split json.split)

lemma commit_keeps [simp]:
  "status (snd (commit n)) = status n" "node_term (snd (commit n)) = node_term n"
  by (simp_all add: commit_def Let_def split: option.split json.split)

lemma demure_heartbeat [simp]: "demure n (snd (heartbeat_follower n m))"
  by (auto simp: demure_def heartbeat_follower_def Let_def split: option.split)

lemma demure_reply [simp]: "demure n (heartbeat_reply_handler t n)"
  by (simp add: demure_def heartbeat_reply_handler_def)

lemma quiet_start_beats: "quiet s (start_beats a s)"
  by (simp add: start_beats_def quiet_spawn)

lemma quiet_startHeartBeat: "quiet s (startHeartBeat a s)"
  by (simp add: startHeartBeat_def quiet_spawn quiet_start_beats split: option.split)

lemma quiet_deliver: "quiet s (snd (deliver f m s))"
  by (simp add: deliver_def case_prod_unfold Let_def quiet_on_server)

lemma deliver_threads [simp]: "threads (snd (deliver f m s)) = threads s"
  by (simp add: deliver_def case_prod_unfold Let_def)

lemma quiet_returned: "quiet s (returned a p el r s)"
  by (simp add: returned_def quiet_start_beats quiet_answers)

lemma quiet_confirm: "quiet s (confirm target k s)"
  by (auto simp: confirm_def split: option.split thread.split intro: quiet_goes_on)

lemma quiet_ends: "quiet s u \<Longrightarrow> vote_of th = None \<Longrightarrow> quiet s (goes_on i th u)"
  by (rule quiet_trans [OF _ quiet_goes_on]) simp_all

lemma quiet_spread: "quiet s (spread_update i a m fs k target lock replied s)"
proof -
  have "quiet s (on_server a (\<lambda>n. n\<lparr>busy := False\<rparr>) s)" by (rule quiet_on_server) (simp add: demure_def)
  then show ?thesis
    by (auto simp: spread_update_def case_prod_unfold Let_def split: list.split
        intro!: quiet_ends quiet_deliver quiet_trans [OF quiet_ends quiet_confirm])
qed

lemma quiet_put:
  "quiet s (put_begin i a p el s)" "quiet s (put_commit i a p el s)" "quiet s (put_reject i a p el s)"
proof -
  have f: "quiet s (on_server a f s)" if "demure (servers s a) (f (servers s a))" for f
    by (rule quiet_on_server) (rule that)
  have g: "quiet u (spawn [Spread a m fs k target lock] u)" for u m fs k target lock
    by (simp add: quiet_spawn)
  show "quiet s (put_begin i a p el s)"
    unfolding put_begin_def Let_def
    by (rule quiet_trans [OF quiet_ends g], rule f) (simp_all add: demure_def)
  show "quiet s (put_commit i a p el s)"
    by (auto simp: put_commit_def case_prod_unfold Let_def
        intro!: f quiet_ends quiet_trans [OF quiet_trans [OF quiet_ends g] quiet_returned])
  show "quiet s (put_reject i a p el s)"
    unfolding put_reject_def
    by (rule quiet_trans [OF quiet_ends quiet_returned], rule f) (simp_all add: demure_def)
qed

text \<open>Every step is quiet but for elections that start, votes that are given and votes that are counted.\<close>

definition voting :: "event \<Rightarrow> system \<Rightarrow> bool" where
  "voting e s = (case e of
       Timeout a \<Rightarrow> True
     | Run i \<Rightarrow> i < length (threads s) \<and>
         (case threads s ! i of
            Vote_sent c v t k st \<Rightarrow> fst (decide_vote (servers s v) t k st)
          | Vote_back c v t k st choice rt \<Rightarrow> choice \<and> status (servers s c) = CANDIDATE
          | _ \<Rightarrow> False)
     | _ \<Rightarrow> False)"

lemma quiet_lose: "lose i s = Some t \<Longrightarrow> quiet s t"
  by (auto simp: lose_def beats_from_now_def split: if_splits thread.splits list.splits intro!: quiet_goes_on)

lemma quiet_refused:
  assumes "threads s ! i = Vote_sent c v t k st" and "\<not> fst (decide_vote (servers s v) t k st)"
  shows "quiet s (vote_req i c v t k st s)"
proof -
  have "decide_vote (servers s v) t k st = (False, servers s v)"
    using assms(2) by (auto simp: decide_vote_def split: if_splits)
  then show ?thesis
    using assms(1) by (simp add: vote_req_def quiet_def goes_on_def on_server_def calm_update)
qed

lemma quiet_steps_down:
  "node_term (servers s c) < t \<Longrightarrow>
     quiet s (on_server c (\<lambda>n. n\<lparr>node_term := t, status := FOLLOWER\<rparr>) (goes_on i Ended s))"
  by (rule quiet_trans [OF quiet_goes_on quiet_on_server]) (simp_all add: demure_def)

lemma quiet_run: "run_thread i s = Some t \<Longrightarrow> \<not> voting (Run i) s \<Longrightarrow> quiet s t"
  by (auto simp: run_thread_def voting_def ask_for_vote_def vote_reply_def send_heartbeat_def
      update_follower_commitIdx_def beat_def beats_from_now_def Let_def case_prod_unfold quiet_put quiet_spread quiet_deliver
      quiet_refused quiet_steps_down
      split: if_splits thread.splits
      intro!: quiet_goes_on quiet_ends quiet_on_server)

lemma quiet_happens: "happens e s = Some t \<Longrightarrow> \<not> voting e s \<Longrightarrow> quiet s t"
proof (cases e)
  case (Run i)
  then show "happens e s = Some t \<Longrightarrow> \<not> voting e s \<Longrightarrow> quiet s t"
    by (simp add: happens_def quiet_run)
next
  case (Reply_lost i)
  then show "happens e s = Some t \<Longrightarrow> quiet s t"
    by (auto simp: happens_def lose_reply_def beats_from_now_def quiet_spread quiet_deliver
        split: if_splits thread.splits list.splits intro!: quiet_ends)
qed (auto simp: happens_def voting_def give_up_def quiet_put demure_def
  split: if_splits thread.splits intro: quiet_lose intro!: quiet_spawn quiet_on_server)

section \<open>Elections\<close>

lemma inv_same_votes:
  assumes I: "elect_inv ps s"
    and same: "peers t = peers s" "grants t = grants s" "threads t = threads s"
    and terms: "\<And>c. node_term (servers t c) = node_term (servers s c)"
    and count: "\<And>c. stands t c \<Longrightarrow> voteCount (servers t c) \<le> card (counted s c (node_term (servers s c)))"
    and won: "\<And>c k. (c, k) \<in> set (winners t) \<Longrightarrow> length ps div 2 + 1 \<le> card (ballots s c k)"
  shows "elect_inv ps t"
proof -
  note D = elect_invD [OF I]
  have eqs: "ballots t = ballots s" "pend t = pend s" "counted t = counted s" "vote_backed t = vote_backed s"
    by (auto simp: fun_eq_iff ballots_def pend_def counted_def vote_backed_def same)
  have "one_vote t" using D(3) by (simp add: one_vote_def same terms)
  then show ?thesis
    unfolding elect_inv_def eqs terms same using D(1,2,4,5,6,8) count won by blast
qed

lemma majority_eq: "a \<in> set (peers s) \<Longrightarrow> majority s a = length (peers s) div 2 + 1"
  by (auto simp: majority_def fellow_def length_remove1 dest: length_pos_if_in_set)

lemma inv_incrementVote:
  assumes I: "elect_inv ps s" and a: "a \<in> set ps"
    and less: "voteCount (servers s a) < card (counted s a (node_term (servers s a)))"
  shows "elect_inv ps (incrementVote a s)"
proof -
  note D = elect_invD [OF I]
  let ?s1 = "on_server a (\<lambda>n. n\<lparr>voteCount := voteCount n + 1\<rparr>) s" and ?k = "node_term (servers s a)"
  let ?u = "(on_server a (\<lambda>n. n\<lparr>status := LEADER\<rparr>) ?s1)\<lparr>winners := winners s @ [(a, ?k)]\<rparr>"
  have one: "elect_inv ps ?s1"
  proof (rule inv_same_votes [OF I])
    show "voteCount (servers ?s1 c) \<le> card (counted s c (node_term (servers s c)))" if "stands ?s1 c" for c
      using that D(9) [of c] less by (cases "c = a") (simp_all add: stands_def on_server_def)
  qed (use D(10) in \<open>auto simp: on_server_def\<close>)
  have "elect_inv ps ?u" if "length ps div 2 + 1 \<le> voteCount (servers s a) + 1"
  proof (rule inv_same_votes [OF I])
    have "counted s a ?k \<subseteq> ballots s a ?k" by (auto simp: counted_def)
    then have "length ps div 2 + 1 \<le> card (ballots s a ?k)"
      using card_mono [of "ballots s a ?k" "counted s a ?k"] less that by simp
    then show "length ps div 2 + 1 \<le> card (ballots s c k)" if "(c, k) \<in> set (winners ?u)" for c k
      using that D(10) by auto
    show "voteCount (servers ?u c) \<le> card (counted s c (node_term (servers s c)))" if "stands ?u c" for c
      using that D(9) [of c] by (cases "c = a") (simp_all add: stands_def on_server_def)
  qed (auto simp: on_server_def)
  moreover have "peers ?s1 = ps" using D(1) by (simp add: on_server_def)
  ultimately show ?thesis
    using one quiet_inv [OF quiet_startHeartBeat] a majority_eq [of a ?s1]
    by (auto simp: incrementVote_def Let_def)
qed

lemma inv_stand:
  assumes I: "elect_inv ps s" and a: "a \<in> set ps"
    and s1: "s1 = (on_server a (\<lambda>n. n\<lparr>node_term := t, voteCount := 0, status := CANDIDATE, ticking := True\<rparr>) s)
                 \<lparr>grants := grants s @ [(a, a, t)]\<rparr>"
    and t: "t = node_term (servers s a) + 1"
  shows "elect_inv ps s1" and "counted s1 a t = {a}"
proof -
  note D = elect_invD [OF I]
  have new: "(v, a, t) \<notin> set (grants s)" for v using D(5,7) t by fastforce
  have pend: "pend s1 = pend s" by (simp add: pend_def s1 on_server_def fun_eq_iff)
  have none: "pend s a v t = 0" for v
  proof (rule ccontr)
    assume "pend s a v t \<noteq> 0"
    then obtain th where "th \<in> set (threads s)" "vote_of th = Some (a, v, t, True)"
      by (auto simp: pend_def filter_empty_conv)
    from D(4) [OF this] new show False by (simp add: vote_backed_def)
  qed
  have ball: "ballots s1 c k = (if c = a \<and> k = t then {a} else ballots s c k)" for c k
    using new by (auto simp: ballots_def s1)
  then show "counted s1 a t = {a}" by (simp add: counted_def pend none)
  have "one_vote s1"
    using D(3,7) by (force simp: one_vote_def s1 on_server_def t intro: le_SucI)
  moreover have "vote_backed s1 x" if "th \<in> set (threads s1)" "vote_of th = Some x" for th x
    using D(4) [of th x] that by (auto simp: vote_backed_def s1 on_server_def)
  moreover have "voteCount (servers s1 c) \<le> card (counted s1 c (node_term (servers s1 c)))" if "stands s1 c" for c
  proof (cases "c = a")
    case False
    then have "stands s c" using that by (auto simp: stands_def s1 on_server_def)
    with False D(9) show ?thesis by (simp add: s1 on_server_def counted_def ballots_def pend_def)
  qed (simp add: s1 on_server_def)
  moreover have "length ps div 2 + 1 \<le> card (ballots s1 c k)" if "(c, k) \<in> set (winners s1)" for c k
    using that D(10) [of c k] ball [of c k] new
    by (auto simp: s1 on_server_def ballots_def split: if_splits)
  ultimately show "elect_inv ps s1"
    using D(1,2,5,6,8) a pend by (auto simp: elect_inv_def s1 on_server_def)
qed

lemma inv_spawn_asks:
  assumes I: "elect_inv ps s" and own: "(a, a, t) \<in> set (grants s)"
  shows "elect_inv ps (spawn (map (\<lambda>v. Ask_for_vote a v t None) (fellow s a)) s)"
    (is "elect_inv ps ?u")
proof -
  note D = elect_invD [OF I]
  have "pend ?u = pend s" by (simp add: pend_def fun_eq_iff o_def)
  then have eqs: "ballots ?u = ballots s" "pend ?u = pend s" "counted ?u = counted s"
    "vote_backed ?u = vote_backed s" "stands ?u = stands s" "one_vote ?u = one_vote s"
    by (auto simp: fun_eq_iff ballots_def counted_def vote_backed_def stands_def one_vote_def spawn_def)
  have "vote_backed s (a, v, t, False)" if "v \<in> set (fellow s a)" for v
    using that own D(2) by (auto simp: vote_backed_def fellow_def D(1) dest: notin_set_remove1)
  then have "vote_backed s x" if "th \<in> set (threads ?u)" "vote_of th = Some x" for th x
    using that D(4) [of th x] by auto
  then show ?thesis
    unfolding elect_inv_def eqs using D(1,2,3,5,6,8,9,10) by (simp add: spawn_def) blast
qed

lemma incrementVote_grants [simp]: "grants (incrementVote a s) = grants s" "peers (incrementVote a s) = peers s"
  by (auto simp: incrementVote_def startHeartBeat_def start_beats_def spawn_def on_server_def Let_def split: option.split)

lemma inv_startElection:
  assumes I: "elect_inv ps s" and a: "a \<in> set ps"
  shows "elect_inv ps (startElection a s)"
proof -
  let ?t = "node_term (servers s a) + 1"
  let ?s1 = "(on_server a (\<lambda>n. n\<lparr>node_term := ?t, voteCount := 0, status := CANDIDATE, ticking := True\<rparr>) s)
                 \<lparr>grants := grants s @ [(a, a, ?t)]\<rparr>"
  note stand = inv_stand [OF I a refl refl]
  have at: "node_term (servers ?s1 a) = ?t" "voteCount (servers ?s1 a) = 0" by (simp_all add: on_server_def)
  have "elect_inv ps (incrementVote a ?s1)"
    by (rule inv_incrementVote [OF stand(1) a]) (simp only: at stand(2), simp)
  from inv_spawn_asks [OF this, of a ?t] show ?thesis
    by (simp add: startElection_def Let_def fellow_def on_server_def)
qed

text \<open>A vote that is given.\<close>

lemma pend_goes_on:
  assumes "i < length (threads s)"
  shows "pend (goes_on i th s) c v t + (if vote_of (threads s ! i) = Some (c, v, t, True) then 1 else 0)
    = pend s c v t + (if vote_of th = Some (c, v, t, True) then 1 else 0)"
  unfolding pend_def using length_filter_update [OF assms, of "\<lambda>th. vote_of th = Some (c, v, t, True)" th] by simp

lemma inv_vote_req:
  assumes I: "elect_inv ps s" and i: "i < length (threads s)" "threads s ! i = Vote_sent c v t k st"
    and yes: "fst (decide_vote (servers s v) t k st)"
  shows "elect_inv ps (vote_req i c v t k st s)"
proof -
  note D = elect_invD [OF I]
  have d: "decide_vote (servers s v) t k st = (True, (servers s v)\<lparr>node_term := t\<rparr>)"
    and t: "node_term (servers s v) < t"
    using yes by (auto simp: decide_vote_def split: if_splits)
  let ?s1 = "goes_on i (Vote_back c v t k st True t) s"
  let ?u = "(on_server v (\<lambda>_. (servers s v)\<lparr>node_term := t\<rparr>) ?s1)\<lparr>grants := grants s @ [(v, c, t)]\<rparr>"
  have eq: "vote_req i c v t k st s = ?u" by (simp add: vote_req_def d goes_on_def on_server_def)
  have owed: "(c, c, t) \<in> set (grants s)" "c \<noteq> v" "v \<in> set ps"
    using D(4) [OF nth_mem [OF i(1)]] i(2) by (simp_all add: vote_backed_def D(1))
  have new: "(v, c', t) \<notin> set (grants s)" for c' using D(7) t by fastforce
  have none: "pend s c v t = 0"
  proof (rule ccontr)
    assume "pend s c v t \<noteq> 0"
    then obtain th where "th \<in> set (threads s)" "vote_of th = Some (c, v, t, True)"
      by (auto simp: pend_def filter_empty_conv)
    from D(4) [OF this] new show False by (simp add: vote_backed_def)
  qed
  have pend: "pend ?u c' v' t' = (if (c', v', t') = (c, v, t) then 1 else pend s c' v' t')" for c' v' t'
  proof -
    have "pend ?u c' v' t' = pend ?s1 c' v' t'" by (simp add: pend_def)
    then show ?thesis using pend_goes_on [OF i(1), of "Vote_back c v t k st True t" c' v' t'] i(2) none by auto
  qed
  have counted: "counted s c' t' \<subseteq> counted ?u c' t'" for c' t'
    using new by (auto simp: counted_def ballots_def pend split: if_splits)
  have "one_vote ?u"
    using D(3,7) t new by (force simp: one_vote_def on_server_def intro: le_trans less_imp_le)
  moreover have "vote_backed ?u x" if th: "th \<in> set (threads ?u)" "vote_of th = Some x" for th x
  proof -
    have "th = Vote_back c v t k st True t \<or> th \<in> set (threads s)"
      using th(1) set_update_subset_insert [of "threads s" i] by (auto simp: goes_on_def)
    with th(2) D(4) [of th x] owed D(1) show ?thesis
      by (auto simp: vote_backed_def on_server_def goes_on_def)
  qed
  moreover have "voteCount (servers ?u b) \<le> card (counted ?u b (node_term (servers ?u b)))" if b: "stands ?u b" for b
  proof -
    have "b \<noteq> v" using b new [of v] owed(2) by (auto simp: stands_def on_server_def goes_on_def)
    then have b: "stands s b" "servers ?u b = servers s b"
      using b owed(2) by (auto simp: stands_def on_server_def goes_on_def)
    from b(1) have "voteCount (servers s b) \<le> card (counted s b (node_term (servers s b)))" by (rule D(9))
    also have "\<dots> \<le> card (counted ?u b (node_term (servers s b)))"
      by (rule card_mono [OF finite_counted counted])
    finally show ?thesis unfolding b(2) .
  qed
  moreover have "length ps div 2 + 1 \<le> card (ballots ?u b k)" if "(b, k) \<in> set (winners ?u)" for b k
  proof -
    have "(b, k) \<in> set (winners s)" using that by (simp add: on_server_def goes_on_def)
    moreover have "ballots s b k \<subseteq> ballots ?u b k" by (auto simp: ballots_def)
    ultimately show ?thesis
      using D(10) [of b k] card_mono [of "ballots ?u b k" "ballots s b k"] by simp
  qed
  ultimately show ?thesis
    unfolding eq using D(1,2,5,6,8) owed pend by (auto simp: elect_inv_def on_server_def goes_on_def)
qed

text \<open>A vote that is counted.\<close>

lemma inv_vote_reply:
  assumes I: "elect_inv ps s" and i: "i < length (threads s)" "threads s ! i = Vote_back c v t k st True rt"
    and c: "status (servers s c) = CANDIDATE" "node_term (servers s c) = t"
  shows "elect_inv ps (vote_reply i c True rt s)"
proof -
  note D = elect_invD [OF I]
  let ?s1 = "goes_on i Ended s"
  have s1: "elect_inv ps ?s1" by (rule quiet_inv [OF quiet_goes_on I]) simp
  have owed: "(c, c, t) \<in> set (grants s)" "(v, c, t) \<in> set (grants s)"
    using D(4) [OF nth_mem [OF i(1)]] i(2) by (simp_all add: vote_backed_def)
  have pend: "pend s c v t = Suc (pend ?s1 c v t)" and others: "v' \<noteq> v \<Longrightarrow> pend ?s1 c v' t = pend s c v' t" for v'
    using pend_goes_on [OF i(1), of Ended c v t] pend_goes_on [OF i(1), of Ended c v' t] i(2) by simp_all
  have "pend ?s1 c v t = 0" using D(8) [of c v t] pend by simp
  then have "v \<in> counted ?s1 c t" using owed(2) by (simp add: counted_def ballots_def goes_on_def)
  moreover have "v \<notin> counted s c t" using pend by (simp add: counted_def)
  moreover have "counted s c t \<subseteq> counted ?s1 c t"
  proof
    fix x assume x: "x \<in> counted s c t"
    then have "x \<noteq> v" using pend by (auto simp: counted_def)
    with x others [of x] show "x \<in> counted ?s1 c t" by (simp add: counted_def ballots_def goes_on_def)
  qed
  ultimately have "counted s c t \<subset> counted ?s1 c t" by blast
  then have "card (counted s c t) < card (counted ?s1 c t)" by (rule psubset_card_mono [rotated]) simp
  moreover have "voteCount (servers s c) \<le> card (counted s c t)"
    using D(9) [of c] c owed(1) by (simp add: stands_def)
  ultimately have "elect_inv ps (incrementVote c ?s1)"
    using c D(6) [OF owed(1)] by (intro inv_incrementVote [OF s1]) simp_all
  then show ?thesis using c by (simp add: vote_reply_def)
qed

text \<open>A vote is in time when it is counted in the term it was given in.\<close>

definition in_time :: "event \<Rightarrow> system \<Rightarrow> bool" where
  "in_time e s = (case e of
       Run i \<Rightarrow>
         i < length (threads s) \<longrightarrow>
         (case threads s ! i of
            Vote_back c v t k st choice rt \<Rightarrow>
              choice \<and> status (servers s c) = CANDIDATE \<longrightarrow> node_term (servers s c) = t
          | _ \<Rightarrow> True)
     | _ \<Rightarrow> True)"

lemma inv_happens:
  assumes I: "elect_inv ps s" and h: "happens e s = Some t" and e: "in_time e s"
  shows "elect_inv ps t"
proof (cases "voting e s")
  case False
  then show ?thesis using quiet_inv [OF quiet_happens [OF h] I] by simp
next
  case True
  have ps: "peers s = ps" by (rule elect_invD [OF I])
  show ?thesis
  proof (cases e)
    case (Timeout a)
    then show ?thesis using h inv_startElection [OF I] ps by (auto simp: happens_def split: if_splits)
  next
    case (Run i)
    then have i: "i < length (threads s)" using True by (simp add: voting_def)
    show ?thesis
    proof (cases "threads s ! i")
      case (Vote_sent c v k x st)
      then show ?thesis
        using Run h True i inv_vote_req [OF I i Vote_sent]
        by (simp add: happens_def run_thread_def voting_def)
    next
      case (Vote_back c v k kx st choice rt)
      then show ?thesis
        using Run h True e i inv_vote_reply [OF I i, of c v k kx st rt]
        by (auto simp: happens_def run_thread_def voting_def in_time_def)
    qed (use True Run in \<open>simp_all add: voting_def\<close>)
  qed (use True in \<open>simp_all add: voting_def\<close>)
qed

section \<open>Winners\<close>

text \<open>Any two quorums meet, so at most one candidate has a quorum of votes when nobody votes twice.\<close>

locale quorum_votes =
  fixes quorum :: "'a set \<Rightarrow> bool"
  assumes meet: "quorum Q \<Longrightarrow> quorum R \<Longrightarrow> Q \<inter> R \<noteq> {}"
begin

lemma one_winner:
  assumes "quorum {v. (v, a) \<in> V}" and "quorum {v. (v, b) \<in> V}"
    and "\<And>v x y. (v, x) \<in> V \<Longrightarrow> (v, y) \<in> V \<Longrightarrow> x = y"
  shows "a = b"
  using meet [OF assms(1,2)] assms(3) by blast

end

definition is_majority :: "'a list \<Rightarrow> 'a set \<Rightarrow> bool" where
  "is_majority ps Q \<longleftrightarrow> Q \<subseteq> set ps \<and> length ps div 2 + 1 \<le> card Q"

interpretation majorities: quorum_votes "is_majority ps" for ps
proof
  fix Q R assume Q: "is_majority ps Q" and R: "is_majority ps R"
  show "Q \<inter> R \<noteq> {}"
  proof
    assume "Q \<inter> R = {}"
    moreover have "finite Q" "finite R" using Q R finite_subset by (auto simp: is_majority_def)
    ultimately have "card Q + card R = card (Q \<union> R)" by (simp add: card_Un_disjoint)
    also have "\<dots> \<le> card (set ps)" using Q R by (intro card_mono) (auto simp: is_majority_def)
    also have "\<dots> \<le> length ps" by (rule card_length)
    finally have "card Q + card R \<le> length ps" .
    moreover have "length ps < (length ps div 2 + 1) + (length ps div 2 + 1)" by presburger
    moreover have "length ps div 2 + 1 \<le> card Q" "length ps div 2 + 1 \<le> card R"
      using Q R by (simp_all add: is_majority_def)
    ultimately show False by linarith
  qed
qed

inductive reach_in_time :: "string list \<Rightarrow> system \<Rightarrow> bool" for ps where
  boot: "reach_in_time ps (boot ps)"
| step: "reach_in_time ps s \<Longrightarrow> happens e s = Some t \<Longrightarrow> in_time e s \<Longrightarrow> reach_in_time ps t"

lemma reach_in_time_inv: "reach_in_time ps s \<Longrightarrow> distinct ps \<Longrightarrow> elect_inv ps s"
proof (induction rule: reach_in_time.induct)
  case boot
  then show ?case
    by (simp add: elect_inv_def boot_def one_vote_def pend_def stands_def new_node_def)
next
  case (step s e t)
  then show ?case by (blast intro: inv_happens)
qed

lemma run_all_append: "run_all (es @ fs) s = Option.bind (run_all es s) (run_all fs)"
  by (induction es arbitrary: s) (auto split: bind_split)

fun run_in_time :: "event list \<Rightarrow> system \<Rightarrow> system option" where
  "run_in_time [] s = Some s"
| "run_in_time (e # es) s = (if in_time e s then Option.bind (happens e s) (run_in_time es) else None)"

lemma reach_run_in_time: "reach_in_time ps s \<Longrightarrow> run_in_time es s = Some t \<Longrightarrow> reach_in_time ps t"
  by (induction es arbitrary: s) (auto split: bind_splits if_splits intro: reach_in_time.step)

lemma reach_run: "reach ps s \<Longrightarrow> run_all es s = Some t \<Longrightarrow> reach ps t"
  by (induction es arbitrary: s) (auto split: bind_splits intro: reach.step)

text \<open>
  A candidate has a vote on its way, votes for the next term of another server itself and keeps
  standing; then the vote comes and is counted in that term.
\<close>

definition late_vote :: "event list" where
  "late_vote = [Timeout ''a'', Run 0, Run 0,
     Timeout ''c'', Timeout ''c'', Run 4, Run 4, Run 4,
     Run 0]"

text \<open>C37: While votes are counted in the term they were given in, a term has at most one winner.  The code
  does not see to that: a reply is counted whatever term the candidate is in by then, so two servers
  can win the election of the same term and lead at the same time.\<close>

theorem winner_is_unique_if_votes_are_in_time:
  assumes "distinct ps"
  shows "(\<forall>s a b t. reach_in_time ps s \<and> (a, t) \<in> set (winners s) \<and> (b, t) \<in> set (winners s) \<longrightarrow> a = b) \<and>
    (\<exists>s. reach [''a'', ''b'', ''c''] s \<and> winners s = [(''c'', 2), (''a'', 2)] \<and>
       status (servers s ''a'') = LEADER \<and> status (servers s ''c'') = LEADER \<and>
       node_term (servers s ''a'') = node_term (servers s ''c''))"
proof -
  have "a = b" if r: "reach_in_time ps s" and w: "(a, t) \<in> set (winners s)" "(b, t) \<in> set (winners s)" for s a b t
  proof -
    note D = elect_invD [OF reach_in_time_inv [OF r assms]]
    have q: "is_majority ps {v. (v, c) \<in> {(v, c). (v, c, t) \<in> set (grants s)}}"
      if "(c, t) \<in> set (winners s)" for c
      using D(10) [OF that] D(6) by (auto simp: is_majority_def ballots_def)
    have "distinct (map (\<lambda>(v, c, t). (v, t)) (grants s))" using D(3) by (simp add: one_vote_def)
    then have inj: "inj_on (\<lambda>(v, c, t). (v, t)) (set (grants s))" by (simp add: distinct_map)
    have "x = y" if "(v, x, t) \<in> set (grants s)" "(v, y, t) \<in> set (grants s)" for v x y
      using inj_onD [OF inj _ that] by simp
    then show "a = b" by (intro majorities.one_winner [OF q [OF w(1)] q [OF w(2)]]) auto
  qed
  moreover have "\<exists>s. run_all late_vote (boot [''a'', ''b'', ''c'']) = Some s \<and>
      winners s = [(''c'', 2), (''a'', 2)] \<and> status (servers s ''a'') = LEADER \<and>
      status (servers s ''c'') = LEADER \<and> node_term (servers s ''a'') = node_term (servers s ''c'')"
  proof -
    have "case run_all late_vote (boot [''a'', ''b'', ''c'']) of None \<Rightarrow> False | Some s \<Rightarrow>
      winners s = [(''c'', 2), (''a'', 2)] \<and> status (servers s ''a'') = LEADER \<and>
      status (servers s ''c'') = LEADER \<and> node_term (servers s ''a'') = node_term (servers s ''c'')"
      by code_simp
    then show ?thesis by (auto split: option.splits)
  qed
  ultimately show ?thesis using reach_run [OF reach.boot] by blast
qed

theorem servers_replay_their_log_witness:
  "\<exists>s. reach [''a'', ''b'', ''c''] s \<and> winners s = [(''c'', 2), (''a'', 2)] \<and>
     DB (servers s ''a'') = replay (log (servers s ''a''))"
proof -
  have "case run_all late_vote (boot [''a'', ''b'', ''c'']) of None \<Rightarrow> False | Some s \<Rightarrow>
      winners s = [(''c'', 2), (''a'', 2)]" by code_simp
  then obtain s where "run_all late_vote (boot [''a'', ''b'', ''c'']) = Some s" "winners s = [(''c'', 2), (''a'', 2)]"
    by (auto split: option.splits)
  with reach_run [OF reach.boot] servers_replay_their_log show ?thesis by blast
qed

text \<open>Up to the late vote, all was in time.\<close>

theorem winner_is_unique_if_votes_are_in_time_witness:
  "\<exists>s. reach_in_time [''a'', ''b'', ''c''] s \<and> (''c'', 2) \<in> set (winners s) \<and> (''a'', 2) \<notin> set (winners s)"
proof -
  have "case run_in_time (butlast late_vote) (boot [''a'', ''b'', ''c'']) of None \<Rightarrow> False
      | Some s \<Rightarrow> (''c'', 2) \<in> set (winners s)" by code_simp
  then obtain s where s: "run_in_time (butlast late_vote) (boot [''a'', ''b'', ''c'']) = Some s"
    "(''c'', 2) \<in> set (winners s)" by (auto split: option.splits)
  have "distinct [''a'', ''b'', ''c'']" by simp
  from winner_is_unique_if_votes_are_in_time [OF this] reach_run_in_time [OF reach_in_time.boot s(1)] s(2)
  show ?thesis by fastforce
qed

end
