(* ===== verification/Raft_Put.thy ===== *)
theory Raft_Put
  imports Raft_Props
begin

text \<open>
  Writes: what a leader that reaches its followers does to all databases, which is what the storage
  node of \<open>Kv_Node\<close> does to one, and how a write that was answered with success is lost.
\<close>

section \<open>A write that reaches everyone\<close>

abbreviation binding_of :: "string \<Rightarrow> json \<Rightarrow> json" where
  "binding_of k v \<equiv> obj [(''key'', JStr k), (''value'', v)]"

lemma binding_of_simps [simp]:
  "binding_of k v \<noteq> JNull" "truthy (binding_of k v)" "py_value (binding_of k v) = Some (binding_of k v)"
  by (simp_all add: obj_def truthy_def py_value_def)

text \<open>What the two messages of a write do to a follower.\<close>

lemma follower_log:
  assumes "node_term n \<le> t"
  obtains m where "heartbeat_follower n (log_message t l k (binding_of key v)) = (True, m)"
    and "node_term m = t" "staged m = Some (binding_of key v)" "DB m = DB n" "log m = log n"
    "commitIdx m = commitIdx n"
  using assms by (simp add: heartbeat_follower_def log_message_def Let_def)

lemma follower_commit:
  assumes "node_term n \<le> t" and "staged n = Some (binding_of key v)" and "commitIdx n \<le> k"
  obtains m where "heartbeat_follower n (commit_message t l k (binding_of key v)) = (True, m)"
    and "staged m = None" "DB m = (DB n)(JStr key \<mapsto> v)" "log m = log n @ [binding_of key v]"
    "commitIdx m = commitIdx n + 1" "node_term m = t"
  using assms
  by (simp add: heartbeat_follower_def commit_message_def log_message_def commit_def py_true_def Let_def)

text \<open>A thread that spreads a message to servers that all take it.\<close>

definition marked :: "bool list \<Rightarrow> nat \<Rightarrow> nat \<Rightarrow> bool list" where
  "marked conf k n = foldl (\<lambda>c q. c[q := True]) conf [k..<k + n]"

lemma marked_all: "marked (replicate n False) 0 n = replicate n True"
proof -
  have len: "length (foldl (\<lambda>c q. c[q := True]) conf qs) = length conf" for conf :: "bool list" and qs :: "nat list"
    by (induction qs arbitrary: conf) auto
  have "foldl (\<lambda>c q. c[q := True]) conf qs ! i \<longleftrightarrow> i \<in> set qs \<or> conf ! i"
    if "i < length conf" for conf :: "bool list" and qs i
    using that
  proof (induction qs arbitrary: conf)
    case (Cons a qs)
    then show ?case by (cases "a = i") (auto simp: Cons.IH)
  qed simp
  then show ?thesis by (intro nth_equalityI) (simp_all add: marked_def len)
qed

lemma marked_step: "marked (conf[k := True]) (Suc k) n = marked conf k (n + 1)"
  using upt_conv_Cons [of k "k + (n + 1)"] by (simp add: marked_def del: upt_Suc)

definition spread_done ::
  "nat \<Rightarrow> string \<Rightarrow> heartbeat \<Rightarrow> nat \<Rightarrow> string list \<Rightarrow> nat option \<Rightarrow> bool \<Rightarrow> system \<Rightarrow> system \<Rightarrow> bool" where
  "spread_done i a m k fs target lock s t \<longleftrightarrow>
     servers t = (\<lambda>b. if b \<in> set fs then snd (heartbeat_follower (servers s b) m) else servers s b) \<and>
     peers t = peers s \<and> answers t = answers s \<and> length (threads t) = length (threads s) \<and>
     threads t ! i = Spread a m [] (k + length fs) target lock \<and>
     (\<forall>j b p conf el. target = Some j \<and> j \<noteq> i \<and> j < length (threads s) \<and> threads s ! j = Put_wait b p conf el \<longrightarrow>
        threads t ! j = Put_wait b p (marked conf k (length fs)) el)"

lemma spread_step:
  assumes i: "i < length (threads s)" "threads s ! i = Spread a m (f # fs) k target lock"
    and ok: "heartbeat_follower (servers s f) m = (True, n)" and new: "f \<notin> set fs"
  obtains u where "happens (Run i) s = Some u" and "servers u = (servers s)(f := n)"
    and "i < length (threads u)" and "threads u ! i = Spread a m fs (Suc k) target lock"
    and "\<And>t. spread_done i a m (Suc k) fs target lock u t \<Longrightarrow> spread_done i a m k (f # fs) target lock s t"
proof -
  let ?s2 = "goes_on i (Spread a m fs (Suc k) target lock) (on_server f (\<lambda>_. n) s)"
  let ?u = "confirm target k ?s2"
  have step: "happens (Run i) s = Some ?u"
    using i ok by (simp add: happens_def run_thread_def spread_update_def deliver_def Let_def)
  have same: "servers ?u = (servers s)(f := n)" "peers ?u = peers s" "answers ?u = answers s"
    "length (threads ?u) = length (threads s)"
    by (auto simp: confirm_def goes_on_def on_server_def split: option.split thread.split)
  have at_i: "threads ?u ! i = Spread a m fs (Suc k) target lock"
    using i(1) by (auto simp: confirm_def goes_on_def on_server_def nth_list_update
        split: option.split thread.split)
  have at_j: "threads ?u ! j = Put_wait b p (conf[k := True]) el"
    if "target = Some j" "j \<noteq> i" "j < length (threads s)" "threads s ! j = Put_wait b p conf el" for j b p conf el
    using that by (simp add: confirm_def goes_on_def on_server_def)
  have "spread_done i a m k (f # fs) target lock s t" if t: "spread_done i a m (Suc k) fs target lock ?u t" for t
  proof -
    have "threads t ! j = Put_wait b p (marked conf k (length (f # fs))) el"
      if "target = Some j" "j \<noteq> i" "j < length (threads s)" "threads s ! j = Put_wait b p conf el" for j b p conf el
    proof -
      have "threads t ! j = Put_wait b p (marked (conf[k := True]) (Suc k) (length fs)) el"
        using t that at_j [OF that] unfolding spread_done_def same by blast
      then show ?thesis by (simp add: marked_step)
    qed
    moreover have "servers t = (\<lambda>b. if b \<in> set (f # fs) then snd (heartbeat_follower (servers s b) m) else servers s b)"
      using t new ok unfolding spread_done_def same by (auto simp: fun_eq_iff)
    ultimately show ?thesis using t unfolding spread_done_def same by simp
  qed
  with step same(1,4) i(1) at_i show ?thesis by (intro that [of ?u]) simp_all
qed

lemma spread_run:
  assumes "i < length (threads s)" and "threads s ! i = Spread a m fs k target lock" and "distinct fs"
    and "\<And>f. f \<in> set fs \<Longrightarrow> fst (heartbeat_follower (servers s f) m)"
  shows "\<exists>t. run_all (replicate (length fs) (Run i)) s = Some t \<and> spread_done i a m k fs target lock s t"
  using assms
proof (induction fs arbitrary: s k)
  case Nil
  then show ?case by (intro exI [of _ s]) (auto simp: marked_def spread_done_def)
next
  case (Cons f fs)
  obtain n where ok: "heartbeat_follower (servers s f) m = (True, n)"
    using Cons.prems(4) [of f] by (cases "heartbeat_follower (servers s f) m") simp
  have new: "f \<notin> set fs" using Cons.prems(3) by simp
  obtain u where u: "happens (Run i) s = Some u" "servers u = (servers s)(f := n)"
    "i < length (threads u)" "threads u ! i = Spread a m fs (Suc k) target lock"
    "\<And>t. spread_done i a m (Suc k) fs target lock u t \<Longrightarrow> spread_done i a m k (f # fs) target lock s t"
    by (rule spread_step [OF Cons.prems(1,2) ok new]) blast
  have "fst (heartbeat_follower (servers u g) m)" if "g \<in> set fs" for g
    using Cons.prems(4) [of g] that new u(2) by auto
  then obtain t where "run_all (replicate (length fs) (Run i)) u = Some t" "spread_done i a m (Suc k) fs target lock u t"
    using Cons.IH [OF u(3,4)] Cons.prems(3) by auto
  with u(1,5) show ?case by (intro exI [of _ t]) simp
qed

text \<open>
  The state a write reaches everyone from: a leader whose lock is free, and no server ahead of it.
\<close>

definition leads :: "system \<Rightarrow> string \<Rightarrow> bool" where
  "leads s a \<longleftrightarrow> distinct (peers s) \<and> a \<in> set (peers s) \<and> status (servers s a) = LEADER \<and> \<not> busy (servers s a) \<and>
     (\<forall>b \<in> set (peers s). node_term (servers s b) \<le> node_term (servers s a) \<and>
        commitIdx (servers s b) \<le> commitIdx (servers s a))"

lemma leads_fellow:
  assumes "leads s a"
  shows "distinct (fellow s a)" "a \<notin> set (fellow s a)" "set (peers s) = insert a (set (fellow s a))"
    "length (peers s) = Suc (length (fellow s a))" "f \<in> set (fellow s a) \<Longrightarrow> f \<in> set (peers s)"
  using assms by (auto simp: leads_def fellow_def length_remove1 dest: length_pos_if_in_set)

text \<open>The two halves of the write, up to the commit of the leader and from there.\<close>

definition logged :: "system \<Rightarrow> string \<Rightarrow> json \<Rightarrow> system \<Rightarrow> bool" where
  "logged s a p t \<longleftrightarrow>
     servers t a = (servers s a)\<lparr>busy := True, staged := Some p\<rparr> \<and>
     (\<forall>f \<in> set (fellow s a). servers t f =
        snd (heartbeat_follower (servers s f) (log_message (node_term (servers s a)) a (commitIdx (servers s a)) p))) \<and>
     peers t = peers s \<and> answers t = answers s \<and> length (threads t) = length (threads s) + 2 \<and>
     threads t ! length (threads s) = Put_wait a p (replicate (length (fellow s a)) True) False"

lemma put_logged:
  assumes s: "leads s a" and p: "p = binding_of k v"
  obtains t where "run_all (Client_put a p # Run (length (threads s)) #
      replicate (length (fellow s a)) (Run (length (threads s) + 1))) s = Some t"
    and "logged s a p t"
proof -
  note F = leads_fellow [OF s]
  let ?i = "length (threads s)" and ?fs = "fellow s a" and ?n = "servers s a"
  let ?m = "log_message (node_term ?n) a (commitIdx ?n) p"
  let ?s1 = "spawn [Put a p False] s"
  have one: "happens (Client_put a p) s = Some ?s1" using s by (simp add: happens_def leads_def)
  let ?s2 = "put_begin ?i a p False ?s1"
  have two: "happens (Run ?i) ?s1 = Some ?s2" using s by (simp add: happens_def run_thread_def leads_def)
  have s2: "servers ?s2 = (servers s)(a := ?n\<lparr>busy := True, staged := Some p\<rparr>)" "peers ?s2 = peers s"
    "answers ?s2 = answers s"
    "threads ?s2 = threads s @ [Put_wait a p (replicate (length ?fs) False) False,
       Spread a ?m ?fs 0 (Some ?i) False]"
    by (simp_all add: put_begin_def Let_def p fellow_def spawn_def goes_on_def on_server_def)
  have spread: "Suc ?i < length (threads ?s2)" "threads ?s2 ! Suc ?i = Spread a ?m ?fs 0 (Some ?i) False"
    by (simp_all add: s2(4) nth_append)
  have "fst (heartbeat_follower (servers ?s2 f) ?m)" if "f \<in> set ?fs" for f
    using that F(2) by (auto simp: s2(1) heartbeat_follower_def log_message_def Let_def)
  then obtain t where t: "run_all (replicate (length ?fs) (Run (Suc ?i))) ?s2 = Some t"
    "spread_done (Suc ?i) a ?m 0 ?fs (Some ?i) False ?s2 t"
    using spread_run [OF spread F(1)] by blast
  have "threads ?s2 ! ?i = Put_wait a p (replicate (length ?fs) False) False" by (simp add: s2(4) nth_append)
  then have "threads t ! ?i = Put_wait a p (replicate (length ?fs) True) False"
    using t(2) by (auto simp: spread_done_def marked_all s2(4))
  then have "logged s a p t"
    using t(2) F(2) by (auto simp: logged_def spread_done_def s2)
  moreover have "run_all (Client_put a p # Run ?i # replicate (length ?fs) (Run (?i + 1))) s = Some t"
    using one two t(1) by simp
  ultimately show ?thesis using that by blast
qed

text \<open>Everyone has the write: the leader's share is what the storage node of the model of one node does.\<close>

definition written_everywhere :: "system \<Rightarrow> string \<Rightarrow> string \<Rightarrow> json \<Rightarrow> system \<Rightarrow> bool" where
  "written_everywhere s a k v t \<longleftrightarrow>
     (\<forall>b \<in> set (peers s). DB (servers t b) = (DB (servers s b))(JStr k \<mapsto> v) \<and>
        log (servers t b) = log (servers s b) @ [binding_of k v] \<and> staged (servers t b) = None) \<and>
     answers t = answers s @ [(a, binding_of k v, True)] \<and> leads t a \<and>
     handle_put True (node.truncate (servers s a)) (binding_of k v) = (Some True, node.truncate (servers t a))"

lemma put_commit_run:
  assumes "commit (servers t a) = (True, n1)"
  shows "put_commit i a p False t =
    (spawn [Spread a (commit_message (node_term (servers t a)) a (commitIdx (servers t a)) p) (fellow t a) 0 None True]
       (goes_on i Ended (on_server a (\<lambda>_. n1) t)))\<lparr>answers := answers t @ [(a, p, True)]\<rparr>"
  using assms by (simp add: put_commit_def returned_def Let_def spawn_def goes_on_def on_server_def)

lemma put_committed:
  assumes s: "leads s a" and t: "logged s a (binding_of k v) t"
  obtains u where "run_all (Run (length (threads s)) #
      replicate (length (fellow s a) + 1) (Run (length (threads s) + 2))) t = Some u"
    and "written_everywhere s a k v u"
proof -
  note F = leads_fellow [OF s]
  let ?i = "length (threads s)" and ?fs = "fellow s a" and ?n = "servers s a" and ?p = "binding_of k v"
  let ?T = "node_term ?n" and ?c = "commitIdx ?n"
  let ?m = "commit_message ?T a ?c ?p"
  have ta: "servers t a = ?n\<lparr>busy := True, staged := Some ?p\<rparr>" and same: "peers t = peers s" "answers t = answers s"
    and len: "length (threads t) = ?i + 2"
    and wait: "threads t ! ?i = Put_wait a ?p (replicate (length ?fs) True) False"
    using t by (simp_all add: logged_def)
  have fs: "fellow t a = ?fs" by (simp add: fellow_def same)
  let ?n1 = "?n\<lparr>busy := True, staged := None, commitIdx := ?c + 1, log := log ?n @ [?p], DB := (DB ?n)(JStr k \<mapsto> v)\<rparr>"
  have commit: "commit (servers t a) = (True, ?n1)" by (simp add: ta commit_def Let_def)
  let ?t1 = "put_commit ?i a ?p False t"
  have "confirmed t a (replicate (length ?fs) True)"
    using s by (simp add: confirmed_def majority_def fs)
  then have one: "happens (Run ?i) t = Some ?t1" by (simp add: happens_def run_thread_def len wait)
  have t1: "servers ?t1 = (servers t)(a := ?n1)" "peers ?t1 = peers s" "answers ?t1 = answers s @ [(a, ?p, True)]"
    "length (threads ?t1) = ?i + 3" "threads ?t1 ! (?i + 2) = Spread a ?m ?fs 0 None True"
    using len unfolding put_commit_run [OF commit]
    by (simp_all add: ta same fs on_server_def goes_on_def spawn_def nth_append)
  have follower: "\<exists>m. heartbeat_follower (servers t f) ?m = (True, m) \<and> staged m = None \<and>
      DB m = (DB (servers s f))(JStr k \<mapsto> v) \<and> log m = log (servers s f) @ [?p] \<and>
      node_term m = ?T \<and> commitIdx m = commitIdx (servers s f) + 1" if f: "f \<in> set ?fs" for f
  proof -
    have le: "node_term (servers s f) \<le> ?T" "commitIdx (servers s f) \<le> ?c"
      using s F(5) [OF f] by (auto simp: leads_def)
    obtain n where n: "heartbeat_follower (servers s f) (log_message ?T a ?c ?p) = (True, n)" "node_term n = ?T"
      "staged n = Some ?p" "DB n = DB (servers s f)" "log n = log (servers s f)" "commitIdx n = commitIdx (servers s f)"
      by (rule follower_log [OF le(1)])
    have "servers t f = n" using t f n(1) by (simp add: logged_def)
    moreover obtain m where "heartbeat_follower n ?m = (True, m)" "staged m = None" "DB m = (DB n)(JStr k \<mapsto> v)"
      "log m = log n @ [?p]" "commitIdx m = commitIdx n + 1" "node_term m = ?T"
      by (rule follower_commit [of n ?T k v ?c a]) (use n le in simp_all)
    ultimately show ?thesis using n by auto
  qed
  have "fst (heartbeat_follower (servers ?t1 f) ?m)" if "f \<in> set ?fs" for f
    using follower [OF that] that F(2) by (auto simp: t1(1))
  then obtain u where u: "run_all (replicate (length ?fs) (Run (?i + 2))) ?t1 = Some u"
    "spread_done (?i + 2) a ?m 0 ?fs None True ?t1 u"
    using spread_run [OF _ t1(5) F(1)] t1(4) by auto
  let ?u1 = "goes_on (?i + 2) Ended (on_server a (\<lambda>n. n\<lparr>busy := False\<rparr>) u)"
  have last: "happens (Run (?i + 2)) u = Some ?u1"
    using u(2) t1(4) by (simp add: spread_done_def happens_def run_thread_def spread_update_def)
  have ua: "servers ?u1 a = ?n1\<lparr>busy := False\<rparr>" and uf: "f \<in> set ?fs \<Longrightarrow>
      servers ?u1 f = snd (heartbeat_follower (servers t f) ?m)" for f
    using u(2) F(2) by (auto simp: spread_done_def t1(1))
  have rest: "peers ?u1 = peers s" "answers ?u1 = answers s @ [(a, ?p, True)]"
    using u(2) t1(2,3) by (simp_all add: spread_done_def goes_on_def on_server_def)
  have data: "DB (servers ?u1 b) = (DB (servers s b))(JStr k \<mapsto> v) \<and> log (servers ?u1 b) = log (servers s b) @ [?p] \<and>
      staged (servers ?u1 b) = None \<and> node_term (servers ?u1 b) \<le> ?T \<and>
      commitIdx (servers ?u1 b) = commitIdx (servers s b) + 1" if "b \<in> set (peers s)" for b
  proof (cases "b = a")
    case False
    then have "b \<in> set ?fs" using that F(3) by simp
    with follower [OF this] uf [OF this] show ?thesis by auto
  qed (simp only: ua, simp)
  have "leads ?u1 a"
    unfolding leads_def rest(1) using s data ua by (auto simp: leads_def simp del: servers_simps)
  moreover have "handle_put True (node.truncate ?n) ?p = (Some True, node.truncate (servers ?u1 a))"
    by (simp only: ua) (simp add: handle_put_def commit_def node.truncate_def)
  ultimately have "written_everywhere s a k v ?u1"
    using data rest(2) by (simp only: written_everywhere_def) blast
  moreover have "run_all (Run ?i # replicate (length ?fs + 1) (Run (?i + 2))) t = Some ?u1"
  proof -
    have "replicate (Suc m) x = replicate m x @ [x]" for m and x :: event
      by (simp add: replicate_append_same)
    with one u(1) last show ?thesis by (simp add: run_all_append del: replicate.simps)
  qed
  ultimately show ?thesis by (intro that)
qed

text \<open>C38: From every state in which a leader is not behind and its lock is free, a write can reach all servers
  of the group: each of them then has the new binding and the entry at the end of its log, the client
  is told of the success, and the leader did what the storage node does that takes the confirmation of
  the majority for granted.\<close>

theorem write_can_reach_everyone:
  assumes "leads s a"
  shows "\<exists>es t. run_all (Client_put a (binding_of k v) # es) s = Some t \<and> written_everywhere s a k v t"
proof -
  obtain t where t: "run_all (Client_put a (binding_of k v) # Run (length (threads s)) #
      replicate (length (fellow s a)) (Run (length (threads s) + 1))) s = Some t"
    "logged s a (binding_of k v) t" by (rule put_logged [OF assms refl])
  obtain u where "run_all (Run (length (threads s)) #
      replicate (length (fellow s a) + 1) (Run (length (threads s) + 2))) t = Some u"
    "written_everywhere s a k v u" by (rule put_committed [OF assms t(2)])
  with t(1) show ?thesis
    by (intro exI [of _ "(Run (length (threads s)) # replicate (length (fellow s a)) (Run (length (threads s) + 1))) @
        (Run (length (threads s)) # replicate (length (fellow s a) + 1) (Run (length (threads s) + 2)))"] exI [of _ u])
      (simp only: append_Cons [symmetric] run_all_append, simp)
qed

section \<open>A write that is lost\<close>

text \<open>The server a thread runs on, and the one its next request goes to.\<close>

definition runs_on :: "thread \<Rightarrow> string option" where
  "runs_on th = (case th of
       Ask_for_vote c v t m \<Rightarrow> Some c
     | Vote_sent c v t k st \<Rightarrow> Some c
     | Vote_back c v t k st choice rt \<Rightarrow> Some c
     | Send_heartbeat l f \<Rightarrow> Some l
     | Catch_up l f t e \<Rightarrow> Some l
     | Catch_up_commit l f t e \<Rightarrow> Some l
     | Beat l f t \<Rightarrow> Some l
     | Beat_back l f t rt \<Rightarrow> Some l
     | Put a p el \<Rightarrow> Some a
     | Put_wait a p conf el \<Rightarrow> Some a
     | Spread a m fs k target lock \<Rightarrow> Some a
     | Ended \<Rightarrow> None)"

definition sends_to :: "thread \<Rightarrow> string option" where
  "sends_to th = (case th of
       Vote_sent c v t k st \<Rightarrow> Some v
     | Catch_up l f t e \<Rightarrow> Some f
     | Catch_up_commit l f t e \<Rightarrow> Some f
     | Beat l f t \<Rightarrow> Some f
     | Spread a m (f # fs) k target lock \<Rightarrow> Some f
     | _ \<Rightarrow> None)"

text \<open>An event in which a server takes part: it acts, or a request reaches it.\<close>

definition involves :: "string \<Rightarrow> event \<Rightarrow> system \<Rightarrow> bool" where
  "involves b e s = (case e of
       Timeout a \<Rightarrow> a = b
     | Timeout_end a \<Rightarrow> a = b
     | Client_put a p \<Rightarrow> a = b
     | Run i \<Rightarrow> runs_on (threads s ! i) = Some b \<or> sends_to (threads s ! i) = Some b
     | Lost i \<Rightarrow> runs_on (threads s ! i) = Some b
     | Reply_lost i \<Rightarrow> runs_on (threads s ! i) = Some b \<or> sends_to (threads s ! i) = Some b
     | Give_up i \<Rightarrow> runs_on (threads s ! i) = Some b)"

text \<open>A run during which a server is down.\<close>

fun run_without :: "string \<Rightarrow> event list \<Rightarrow> system \<Rightarrow> system option" where
  "run_without b [] s = Some s"
| "run_without b (e # es) s =
     (if involves b e s then None else Option.bind (happens e s) (run_without b es))"

lemma run_without_run: "run_without b es s = Some t \<Longrightarrow> run_all es s = Some t"
proof (induction es arbitrary: s)
  case (Cons e es)
  then show ?case by (cases "happens e s") (auto split: if_splits)
qed simp

text \<open>
  The leader \<open>a\<close> takes a write that reaches nobody and is rejected; \<open>b\<close> is elected by
  \<open>c\<close>, and its write is confirmed by \<open>c\<close>, committed and answered.  Then \<open>b\<close> is down:
  \<open>a\<close> learns of the new term from \<open>c\<close>, is elected by \<open>c\<close>, because it has something
  staged, and brings its rejected write to \<open>c\<close>.
\<close>

definition both_writes :: "string \<Rightarrow> string \<Rightarrow> json \<Rightarrow> json \<Rightarrow> event list" where
  "both_writes a b old new = [Timeout a, Run 0, Run 0, Run 0,
     Client_put a old, Run 4, Lost 5, Lost 5, Give_up 4,
     Timeout b, Run 7, Run 7, Run 7,
     Client_put b new, Run 10, Lost 11, Run 11, Run 10]"

definition while_down :: "string \<Rightarrow> event list" where
  "while_down a = [Run 3, Run 3, Run 3, Timeout a, Run 14, Run 14, Run 14,
     Run 15, Lost 16, Run 16, Run 15, Lost 17, Run 17]"

lemma list_update_numeral: "(x # xs)[numeral v := y] = x # xs[pred_numeral v := y]"
  by (simp add: numeral_eq_Suc)

lemmas raft_steps = happens_def run_thread_def boot_def new_node_def startElection_def incrementVote_def
  on_server_def spawn_def goes_on_def majority_def fellow_def startHeartBeat_def start_beats_def
  ask_for_vote_def vote_req_def decide_vote_def vote_reply_def py_true_def put_begin_def lose_def give_up_def
  put_reject_def returned_def confirmed_def confirm_def spread_update_def deliver_def heartbeat_follower_def
  log_message_def commit_message_def put_commit_def commit_def Let_def list_update_numeral
  involves_def runs_on_def sends_to_def send_heartbeat_def beats_from_now_def beat_def plain_beat_def
  heartbeat_reply_handler_def

lemma write_lost_run:
  assumes "distinct [a, b, c]"
  shows "\<exists>s. run_all (both_writes a b (binding_of k old) (binding_of k new)) (boot [a, b, c]) = Some s \<and>
    answers s = [(a, binding_of k old, False), (b, binding_of k new, True)] \<and>
    status (servers s b) = LEADER \<and> DB (servers s b) (JStr k) = Some new \<and>
    (\<exists>t. run_without b (while_down a) s = Some t \<and> servers t b = servers s b \<and> answers t = answers s \<and>
      status (servers t a) = LEADER \<and> DB (servers t a) (JStr k) = Some old \<and> DB (servers t c) (JStr k) = Some old)"
  using assms by (simp add: both_writes_def while_down_def raft_steps) (simp add: eq_commute)

text \<open>C39: A write that was answered with success can be lost, and one that was answered with failure can take
  its place.  In a group of any three servers a state can be reached in which the only answers are failure
  for the write of a value under a key and success for a later write of another value under it, and the
  leader that took the later write has it in its database.  If that server then stops, so that it takes
  part in no event and its state stays what it is, the other two can come to agree on the rejected value:
  one of them leads the group and both have the rejected value in their databases.\<close>

theorem acknowledged_write_lost:
  assumes "distinct [a, b, c]"
  shows "\<exists>s es t. reach [a, b, c] s \<and>
     answers s = [(a, binding_of k old, False), (b, binding_of k new, True)] \<and>
     status (servers s b) = LEADER \<and> DB (servers s b) (JStr k) = Some new \<and>
     run_without b es s = Some t \<and> reach [a, b, c] t \<and> servers t b = servers s b \<and> answers t = answers s \<and>
     status (servers t a) = LEADER \<and> DB (servers t a) (JStr k) = Some old \<and> DB (servers t c) (JStr k) = Some old"
proof -
  obtain s t where "run_all (both_writes a b (binding_of k old) (binding_of k new)) (boot [a, b, c]) = Some s"
    and "run_without b (while_down a) s = Some t"
    and "answers s = [(a, binding_of k old, False), (b, binding_of k new, True)] \<and>
    status (servers s b) = LEADER \<and> DB (servers s b) (JStr k) = Some new"
    and "servers t b = servers s b \<and> answers t = answers s \<and>
      status (servers t a) = LEADER \<and> DB (servers t a) (JStr k) = Some old \<and> DB (servers t c) (JStr k) = Some old"
    using write_lost_run [OF assms] by blast
  then show ?thesis by (meson reach_run reach.boot run_without_run)
qed

section \<open>A commit that is missed\<close>

text \<open>A follower that missed a commit is never brought up to date: the message with which a leader means
  to hand it the missed entry changes none of its data, and the next write it takes lands at the index
  of the one it missed.\<close>

lemma missed_commit_is_not_made_up_for:
  assumes "node_term n \<le> t" and "commitIdx n = length (log n)" and "commitIdx n < k"
  shows "(let m = snd (heartbeat_follower n (second_message t l e))
      in DB m = DB n \<and> log m = log n \<and> commitIdx m = commitIdx n \<and> staged m = staged n) \<and>
    (let m = snd (heartbeat_follower (snd (heartbeat_follower n (log_message t l k (binding_of key v))))
               (commit_message t l k (binding_of key v)))
      in log m ! commitIdx n = binding_of key v \<and> commitIdx m = commitIdx n + 1 \<and> commitIdx m \<le> k)"
proof -
  obtain n1 where n1: "heartbeat_follower n (log_message t l k (binding_of key v)) = (True, n1)"
    "node_term n1 = t" "staged n1 = Some (binding_of key v)" "log n1 = log n" "commitIdx n1 = commitIdx n"
    by (rule follower_log [OF assms(1)])
  obtain m where "heartbeat_follower n1 (commit_message t l k (binding_of key v)) = (True, m)"
    "log m = log n1 @ [binding_of key v]" "commitIdx m = commitIdx n1 + 1"
    by (rule follower_commit [of n1 t key v k l]) (use n1 assms(3) in simp_all)
  then show ?thesis
    using n1 assms by (simp add: Let_def nth_append) (simp add: heartbeat_follower_def second_message_def plain_beat_def)
qed

section \<open>Witnesses\<close>

definition alone_in_front :: system where
  "alone_in_front = (boot [''a'', ''b'', ''c''])\<lparr>servers :=
     (\<lambda>x. if x = ''a'' then new_node\<lparr>status := LEADER, node_term := 1\<rparr> else new_node)\<rparr>"

theorem write_can_reach_everyone_witness:
  "\<exists>es t. run_all (Client_put ''a'' (binding_of ''k'' (JStr ''v'')) # es) alone_in_front = Some t \<and>
     written_everywhere alone_in_front ''a'' ''k'' (JStr ''v'') t"
  by (rule write_can_reach_everyone) (simp add: leads_def alone_in_front_def boot_def new_node_def)

theorem acknowledged_write_lost_witness:
  "\<exists>s es t. reach [''a'', ''b'', ''c''] s \<and>
     answers s = [(''a'', binding_of ''k'' (JStr ''old''), False), (''b'', binding_of ''k'' (JStr ''new''), True)] \<and>
     run_without ''b'' es s = Some t \<and>
     DB (servers t ''a'') (JStr ''k'') = Some (JStr ''old'') \<and>
     DB (servers t ''b'') (JStr ''k'') = Some (JStr ''new'') \<and>
     DB (servers t ''c'') (JStr ''k'') = Some (JStr ''old'')"
proof -
  have "distinct [''a'', ''b'', ''c'']" by simp
  from acknowledged_write_lost [OF this, of "''k''" "JStr ''old''" "JStr ''new''"] show ?thesis by metis
qed

lemma missed_commit_is_not_made_up_for_witness:
  "log (snd (heartbeat_follower (snd (heartbeat_follower new_node (log_message 1 ''a'' 1 (binding_of ''k'' (JStr ''v'')))))
     (commit_message 1 ''a'' 1 (binding_of ''k'' (JStr ''v''))))) ! 0 = binding_of ''k'' (JStr ''v'')"
  using missed_commit_is_not_made_up_for [of new_node 1 1 "''a''" JNull "''k''" "JStr ''v''"]
  by (simp add: Let_def new_node_def)

end
