(* ===== verification/Boot_Tree.thy ===== *)
theory Boot_Tree
  imports Boot
begin

text \<open>
  The monitored directory as the synchronisation at start-up sees it: the paths and the keys of what is
  below the base directory, and what its iterators find.
\<close>

section \<open>Paths and keys of what is below the base directory\<close>

definition name_ok :: "string \<Rightarrow> bool" where
  "name_ok w \<longleftrightarrow> w \<noteq> [] \<and> CHR ''/'' \<notin> set w"

definition slashed :: "string list \<Rightarrow> string" where
  "slashed ws = concat (map ((#) CHR ''/'') ws)"

definition path_at :: "string \<Rightarrow> string list \<Rightarrow> string" where
  "path_at base ws = base @ tl (slashed ws)"

definition key_at :: "string list \<Rightarrow> string" where
  "key_at ws = ''dropbox'' @ slashed ws"

lemma slashed_simps [simp]:
  "slashed [] = []" "slashed (w # ws) = CHR ''/'' # w @ slashed ws" "slashed (vs @ ws) = slashed vs @ slashed ws"
  by (simp_all add: slashed_def)

lemma slashed_last: "list_all name_ok ws \<Longrightarrow> ws \<noteq> [] \<Longrightarrow> last (slashed ws) \<noteq> CHR ''/''"
  by (induction ws rule: rev_induct) (auto simp: name_ok_def dest: last_in_set)

lemma tl_slashed_last:
  assumes "list_all name_ok ws" and "ws \<noteq> []"
  shows "tl (slashed ws) \<noteq> []" and "last (tl (slashed ws)) \<noteq> CHR ''/''"
proof -
  from assms obtain w vs where ws: "ws = w # vs" "w \<noteq> []" by (cases ws) (auto simp: name_ok_def)
  then show "tl (slashed ws) \<noteq> []" by simp
  with slashed_last [OF assms] ws show "last (tl (slashed ws)) \<noteq> CHR ''/''" by (simp split: if_splits)
qed

lemma path_at_entry:
  assumes "base_ok base" and "list_all name_ok ws" and "name_ok n"
  shows "path_append (path_at base ws) n = path_at base (ws @ [n])"
proof (cases ws)
  case Nil
  with assms show ?thesis by (cases n) (auto simp: path_append_def path_at_def base_ok_def name_ok_def)
next
  case (Cons w vs)
  then have "ws \<noteq> []" by simp
  from tl_slashed_last [OF assms(2) this] assms show ?thesis
    by (cases n) (auto simp: path_append_def path_at_def name_ok_def Cons)
qed

lemma key_of_path_at:
  assumes "list_all name_ok ws"
  shows "buildKeyfromFullPath base (path_at base ws) = key_at ws"
  using assms by (cases ws) (auto simp: buildKeyfromFullPath_def path_at_def key_at_def name_ok_def)

lemma fpath_at:
  assumes "base_ok base" and "list_all name_ok ws"
  shows "fpath_of (path_at base ws) = (fst (fpath_of base), snd (fpath_of base) @ ws)"
  using assms(2)
proof (induction ws rule: rev_induct)
  case (snoc n ws)
  obtain b where b: "base = b @ ''/''" using assms(1) unfolding base_ok_def by (metis append_butlast_last_id)
  have "snd (fpath_of (path_at base (ws @ [n]))) = snd (fpath_of (path_at base ws)) @ [n]"
  proof (cases ws)
    case Nil
    with snoc.prems fpath_of_snoc [of n b] fpath_of_trailing [of b] show ?thesis
      by (auto simp: path_at_def b name_ok_def fpath_of_def)
  next
    case (Cons w vs)
    have "path_at base (ws @ [n]) = path_at base ws @ CHR ''/'' # n" by (simp add: path_at_def Cons)
    with snoc.prems fpath_of_snoc [of n "path_at base ws"] show ?thesis by (simp add: name_ok_def)
  qed
  moreover have "fst (fpath_of (path_at base (ws @ [n]))) = fst (fpath_of base)"
    using assms(1) by (simp add: fpath_of_def path_at_def base_ok_def)
  ultimately show ?case using snoc by (simp add: prod_eq_iff)
qed (simp add: path_at_def)

text \<open>The keys at and below a key.\<close>

definition at_or_below :: "string \<Rightarrow> string \<Rightarrow> bool" where
  "at_or_below k x \<longleftrightarrow> x = k \<or> prefix (k @ ''/'') x"

lemma at_or_below_trans: "at_or_below k x \<Longrightarrow> at_or_below x y \<Longrightarrow> at_or_below k y"
  by (auto simp: at_or_below_def prefix_def)

lemma at_or_below_key [simp]: "at_or_below (key_at ws) (key_at (ws @ us))"
  by (cases us) (auto simp: at_or_below_def key_at_def prefix_def)

lemma key_at_entry: "key_at (ws @ [n]) = key_at ws @ CHR ''/'' # n"
  by (simp add: key_at_def)

lemma at_or_below_entry: "at_or_below (key_at (ws @ [n])) x \<Longrightarrow> x \<noteq> key_at ws \<and> at_or_below (key_at ws) x"
  by (auto simp: at_or_below_def key_at_def prefix_def)

lemma at_or_below_cases:
  assumes "at_or_below k x" obtains "x = k" | z where "x = k @ CHR ''/'' # z"
  using assms by (auto simp: at_or_below_def prefix_def)

lemma entries_apart:
  assumes "name_ok n" and "name_ok m" and "at_or_below (key_at (ws @ [n])) x" and "at_or_below (key_at (ws @ [m])) x"
  shows "n = m"
proof -
  have "takeWhile (\<lambda>c. c \<noteq> CHR ''/'') (drop (Suc (length (key_at ws))) x) = n"
    if "name_ok n" "at_or_below (key_at (ws @ [n])) x" for n
  proof -
    have *: "\<And>c. c \<in> set n \<Longrightarrow> c \<noteq> CHR ''/''" using that(1) by (metis name_ok_def)
    have "takeWhile (\<lambda>c. c \<noteq> CHR ''/'') n = n" unfolding takeWhile_eq_all_conv using * by blast
    moreover have "takeWhile (\<lambda>c. c \<noteq> CHR ''/'') (n @ CHR ''/'' # z) = n" for z
      using takeWhile_append2 [of n "\<lambda>c. c \<noteq> CHR ''/''"] * by simp
    ultimately show ?thesis using that(2) by (elim at_or_below_cases) (simp_all add: key_at_entry)
  qed
  with assms show ?thesis by metis
qed

section \<open>The directory\<close>

definition dir_at :: "filesystem \<Rightarrow> string \<Rightarrow> string list \<Rightarrow> bool" where
  "dir_at f base ws \<longleftrightarrow> fs_is_directory f (path_at base ws)"

definition text_at :: "filesystem \<Rightarrow> string \<Rightarrow> string list \<Rightarrow> bool" where
  "text_at f base ws \<longleftrightarrow>
     is_regular_file f (path_at base ws) \<and> path_extension (path_at base ws) = ''.txt''"

definition names_at :: "('w, 'd, 'x) client_ext_scheme \<Rightarrow> filesystem \<Rightarrow> string \<Rightarrow> string list \<Rightarrow> string list" where
  "names_at X f base ws = readdir X (child_names f (path_at base ws))"

text \<open>
  A file system whose names are names and whose entries are in directories, a base directory in it, and
  an iterator that gives every name once.
\<close>

definition folder_ok :: "('w, 'd, 'x) client_ext_scheme \<Rightarrow> filesystem \<Rightarrow> string \<Rightarrow> bool" where
  "folder_ok X f base \<longleftrightarrow>
     base_ok base \<and> fs_ok f \<and> dir_at f base [] \<and> (\<forall>p \<in> fset (fmdom f). list_all name_ok (snd p)) \<and>
     (\<forall>ns. set (readdir X ns) = set ns \<and> (distinct ns \<longrightarrow> distinct (readdir X ns)))"

lemma dir_not_text: "dir_at f base ws \<Longrightarrow> \<not> text_at f base ws"
  by (auto simp: dir_at_def text_at_def is_regular_file_def fs_is_directory_def split: option.splits)

lemma names_at:
  assumes t: "folder_ok X f base" and ws: "list_all name_ok ws"
  shows "distinct (names_at X f base ws)"
    and "n \<in> set (names_at X f base ws) \<longleftrightarrow> (fst (fpath_of base), snd (fpath_of base) @ ws @ [n]) \<in> fset (fmdom f)"
    and "n \<in> set (names_at X f base ws) \<Longrightarrow> name_ok n"
proof -
  from t have b: "base_ok base" by (simp add: folder_ok_def)
  have m: "set (names_at X f base ws) = set (child_names f (path_at base ws))"
    using t by (simp add: folder_ok_def names_at_def)
  have "distinct (child_names f (path_at base ws))"
    unfolding child_names_def Let_def sorted_list_of_fset.rep_eq by (rule distinct_sorted_list_of_set)
  then show "distinct (names_at X f base ws)" using t by (simp add: folder_ok_def names_at_def)
  have "n \<in> set (child_names f (path_at base ws))
    \<longleftrightarrow> (fst (fpath_of base), snd (fpath_of base) @ ws @ [n]) \<in> fset (fmdom f)"
  proof -
    let ?q = "fpath_of (path_at base ws)"
    have mem: "n \<in> set (child_names f (path_at base ws)) \<longleftrightarrow>
        (\<exists>r \<in> fset (fmdom f). snd r \<noteq> [] \<and> fst r = fst ?q \<and> butlast (snd r) = snd ?q \<and> n = last (snd r))"
      by (auto simp: child_names_def Let_def image_iff)
    have "n \<in> set (child_names f (path_at base ws)) \<longleftrightarrow> (fst ?q, snd ?q @ [n]) \<in> fset (fmdom f)"
      unfolding mem
    proof
      assume "\<exists>r \<in> fset (fmdom f). snd r \<noteq> [] \<and> fst r = fst ?q \<and> butlast (snd r) = snd ?q \<and> n = last (snd r)"
      then obtain r where r: "r \<in> fset (fmdom f)" "snd r \<noteq> []" "fst r = fst ?q" "butlast (snd r) = snd ?q" "n = last (snd r)"
        by blast
      from append_butlast_last_id [OF r(2)] r(3-5) have "r = (fst ?q, snd ?q @ [n])" by (simp add: prod_eq_iff)
      with r(1) show "(fst ?q, snd ?q @ [n]) \<in> fset (fmdom f)" by simp
    qed (rule bexI [of _ "(fst ?q, snd ?q @ [n])"], simp_all)
    then show ?thesis by (simp add: fpath_at [OF b ws])
  qed
  then show iff: "n \<in> set (names_at X f base ws) \<longleftrightarrow> (fst (fpath_of base), snd (fpath_of base) @ ws @ [n]) \<in> fset (fmdom f)"
    using m by simp
  show "n \<in> set (names_at X f base ws) \<Longrightarrow> name_ok n"
    using t iff by (fastforce simp: folder_ok_def)
qed

text \<open>What exists below the base directory is in a directory and is one of its names.\<close>

lemma there_in_dir:
  assumes t: "folder_ok X f base" and ws: "list_all name_ok (ws @ [n])"
    and there: "dir_at f base (ws @ [n]) \<or> text_at f base (ws @ [n])"
  shows "dir_at f base ws \<and> n \<in> set (names_at X f base ws)"
proof -
  from t have b: "base_ok base" by (simp add: folder_ok_def)
  let ?p = "(fst (fpath_of base), snd (fpath_of base) @ ws @ [n])"
  have "node_at f ?p \<noteq> None"
    using there fpath_at [OF b ws]
    by (auto simp: dir_at_def text_at_def fs_is_directory_def is_regular_file_def split: option.splits)
  then have p: "?p \<in> fset (fmdom f)" by (auto simp: node_at_def intro: fmdomI)
  then have "node_at f (fst (fpath_of base), snd (fpath_of base) @ ws) = Some Dir"
    using t unfolding folder_ok_def fs_ok_def by (metis append_assoc butlast_snoc fst_conv parent_fpath_def snd_conv)
  moreover have "path_at base ws \<noteq> []" using b by (simp add: path_at_def base_ok_def)
  ultimately show ?thesis
    using fpath_at [OF b, of ws] ws p names_at(2) [OF t, of ws n] by (simp add: dir_at_def fs_is_directory_def)
qed

lemma there_in_dir_append:
  assumes "folder_ok X f base" and "list_all name_ok (ws @ us)" and "us \<noteq> []"
    and "dir_at f base (ws @ us) \<or> text_at f base (ws @ us)"
  shows "dir_at f base ws \<and> hd us \<in> set (names_at X f base ws)"
  using assms(2-)
proof (induction us rule: rev_induct)
  case (snoc u us)
  from there_in_dir [OF assms(1), of "ws @ us" u] snoc.prems
  have "dir_at f base (ws @ us)" "u \<in> set (names_at X f base (ws @ us))" by simp_all
  with snoc show ?case by (cases us) auto
qed simp

end
