(* ===== verification/Boot_Props.thy ===== *)
theory Boot_Props
  imports Boot_Tree Metadata_Props
begin

text \<open>
  The synchronisation of the record with the monitored directory ends and leaves the record as a mirror
  of the directory: every directory's document lists what is in it, every text file has a document, and
  nothing is on record below a directory that is not in it.
\<close>

section \<open>The record\<close>

text \<open>
  Every document is that of a file or that of the directory with its key, which lists only what is
  below; \<open>N\<close> bounds the lengths of the keys.
\<close>

definition record_ok :: "('x) codec_scheme \<Rightarrow> nat \<Rightarrow> (string \<rightharpoonup> string) \<Rightarrow> bool" where
  "record_ok X N V \<longleftrightarrow> (\<forall>k t. V k = Some t \<longrightarrow> length k < N \<and>
     ((\<exists>m. json_parse X t = Some (file_json m)) \<or>
      (\<exists>dm. json_parse X t = Some (dir_json dm) \<and> directoryName dm = k \<and>
         (\<forall>c \<in> set (files dm) \<union> set (directories dm). prefix (k @ ''/'') c))))"

lemma dir_of_file_json [simp]: "dir_of_json m (file_json m') = Inr m"
  by (simp add: dir_of_json_def file_json_def member_or_def)

lemma file_of_dir_json [simp]: "file_of_json X m (dir_json m') = Inr m"
  by (simp add: file_of_json_def dir_json_def member_or_def)

lemma record_listing:
  assumes "record_ok X N V" and "V k = Some t"
  obtains dm where "listing_at X V k = Some dm" and "directoryName dm = k" and "length k < N"
    and "\<forall>c \<in> set (files dm) \<union> set (directories dm). prefix (k @ ''/'') c"
proof -
  from assms consider m where "json_parse X t = Some (file_json m)" "length k < N"
    | dm where "json_parse X t = Some (dir_json dm)" "directoryName dm = k" "length k < N"
        "\<forall>c \<in> set (files dm) \<union> set (directories dm). prefix (k @ ''/'') c"
    unfolding record_ok_def by blast
  then show thesis
  proof cases
    case 1
    then show ?thesis
      by (intro that [of "Directory_Metadata k"]) (simp_all add: listing_at_def assms(2) Directory_Metadata_def)
  next
    case 2
    then show ?thesis by (intro that [of dm]) (simp_all add: listing_at_def assms(2))
  qed
qed

lemma record_decodes: "record_ok X N V \<Longrightarrow> decodes X V"
  by (auto simp: decodes_def elim: record_listing)

lemma record_ranked:
  assumes "record_ok X N V" shows "ranked (\<lambda>k. N - length k) (listing_at X V)"
  unfolding ranked_def
proof (intro allI impI, elim conjE)
  fix k dm d assume dm: "listing_at X V k = Some dm" and d: "d \<in> set (directories dm)"
  then obtain t where t: "V k = Some t" by (auto simp: listing_at_def split: option.splits)
  obtain dm' where "listing_at X V k = Some dm'" and "directoryName dm' = k" and k: "length k < N"
    and pre: "\<forall>c \<in> set (files dm') \<union> set (directories dm'). prefix (k @ ''/'') c"
    by (rule record_listing [OF assms t])
  with dm d have "prefix (k @ ''/'') d" by auto
  then have "length k < length d" by (auto dest: prefix_length_le)
  with k show "N - length d < N - length k" by simp
qed

lemma record_sub: "record_ok X N V \<Longrightarrow> V' \<subseteq>\<^sub>m V \<Longrightarrow> record_ok X N V'"
  unfolding record_ok_def map_le_def by (metis domI)

lemma record_upd:
  assumes "record_ok X N V" and "length k < N"
    and "(\<exists>m. json_parse X t = Some (file_json m)) \<or>
      (\<exists>dm. json_parse X t = Some (dir_json dm) \<and> directoryName dm = k \<and>
         (\<forall>c \<in> set (files dm) \<union> set (directories dm). prefix (k @ ''/'') c))"
  shows "record_ok X N (V(k \<mapsto> t))"
  using assms unfolding record_ok_def by auto

lemma listed_below:
  assumes "listed_under L k x" and "\<And>k dm c. L k = Some dm \<Longrightarrow> c \<in> set (files dm) \<union> set (directories dm) \<Longrightarrow>
    prefix (k @ ''/'') c"
  shows "at_or_below k x"
  using assms
proof (induction rule: listed_under.induct)
  case (lu_sub k dm d x)
  then have "at_or_below k d" "at_or_below d x" by (auto simp: at_or_below_def)
  then show ?case by (rule at_or_below_trans)
qed (auto simp: at_or_below_def)

lemma record_listed_below:
  assumes "record_ok X N V" and "listed_under (listing_at X V) k x"
  shows "at_or_below k x"
proof (rule listed_below [OF assms(2)])
  fix k dm c assume dm: "listing_at X V k = Some dm" and c: "c \<in> set (files dm) \<union> set (directories dm)"
  then obtain t where "V k = Some t" by (auto simp: listing_at_def split: option.splits)
  from record_listing [OF assms(1) this] dm c show "prefix (k @ ''/'') c" by (metis option.inject)
qed

text \<open>An action that changes the database only.\<close>

definition db_run :: "('d \<Rightarrow> string \<rightharpoonup> string) \<Rightarrow> ('w, 'd, 'a) action \<Rightarrow> 'a \<Rightarrow> ('w, 'd) client \<Rightarrow>
    ('w, 'd) client \<Rightarrow> (string \<rightharpoonup> string) \<Rightarrow> bool" where
  "db_run view m a s t V \<longleftrightarrow> m s = Ret a t \<and> db_view view t = V \<and> (\<exists>e. t = s\<lparr>db := Some e\<rparr>)"

lemma db_runD:
  assumes "db_run view m a s t V"
  shows "m s = Ret a t" and "db_view view t = V" and "fs t = fs s" and "g_basePath t = g_basePath s"
    and "db_ok X view s \<Longrightarrow> db_ok X view t"
  using assms by (auto simp: db_run_def db_ok_def)

lemma db_run_trans:
  assumes "db_run view m a s t V" and "db_run view m' a' t u V'" and "m'' s = Ret a'' u"
  shows "db_run view m'' a'' s u V'"
  using assms by (auto simp: db_run_def)

lemma db_run_refl: "db_ok X view s \<Longrightarrow> m s = Ret a s \<Longrightarrow> db_run view m a s s (db_view view s)"
  unfolding db_run_def db_ok_def by (cases s) auto

lemma db_store_run:
  assumes "db_ok X view s"
  obtains t where "db_run view (db_store X k j) True s t ((db_view view s)(k \<mapsto> text_of X j))"
proof -
  from assms obtain d where d: "db s = Some d" and r: "rocks_ok X view" and c: "codec_total X"
    by (auto simp: db_ok_def)
  obtain e where e: "db_put X k (text_of X j) d = (True, e)" "view e = (view d)(k \<mapsto> text_of X j)"
    using rocks_okD(1) [OF r] by blast
  with d codec_total_dump [OF c, of j] show thesis
    by (intro that [of "s\<lparr>db := Some e\<rparr>"]) (auto simp: db_run_def db_store_def db_view_def)
qed

text \<open>The steps of the synchronisation.\<close>

lemma sync_file_run:
  assumes "db_ok X view s" and "record_ok X N (db_view view s)" and "length k < N"
  obtains t where "db_run view (sync_file X k) () s t ((db_view view s)(k \<mapsto>
      (case db_view view s k of None \<Rightarrow> text_of X (file_json (File_Metadata k)) | Some old \<Rightarrow> old)))"
    and "record_ok X N (db_view view t)"
proof (cases "db_view view s k")
  case None
  from file_load_None [OF assms(1) None] have none: "file_load X (File_Metadata k) s = Ret None s" .
  obtain t where t: "db_run view (db_store X k (file_json (File_Metadata k))) True s t
      ((db_view view s)(k \<mapsto> text_of X (file_json (File_Metadata k))))"
    by (rule db_store_run [OF assms(1)])
  have "db_run view (sync_file X k) () s t ((db_view view s)(k \<mapsto> text_of X (file_json (File_Metadata k))))"
    using t none by (simp add: db_run_def sync_file_def file_store_def File_Metadata_def)
  moreover have "record_ok X N (db_view view t)"
    unfolding db_runD(2) [OF t]
    by (rule record_upd [OF assms(2,3)]) (use assms(1) codec_total_parse in \<open>auto simp: db_ok_def\<close>)
  ultimately show ?thesis using None by (intro that) simp_all
next
  case (Some old)
  from assms(1) obtain d where d: "db s = Some d" and r: "rocks_ok X view" by (auto simp: db_ok_def)
  from assms(2) Some obtain j where "json_parse X old = Some j" "(\<exists>m. j = file_json m) \<or> (\<exists>dm. j = dir_json dm)"
    unfolding record_ok_def by blast
  then have "\<exists>m. file_load X (File_Metadata k) s = Ret (Some m) s"
    using d rocks_okD(2) [OF r] Some
    by (auto simp: file_load_def db_load_def db_view_def File_Metadata_def parse_def)
  then have "sync_file X k s = Ret () s" by (auto simp: sync_file_def)
  with assms(1) have "db_run view (sync_file X k) () s s (db_view view s)" by (rule db_run_refl)
  with Some assms(2) show ?thesis by (intro that [of s]) (simp_all add: fun_upd_idem)
qed

text \<open>One stale key is removed with what is below it.\<close>

definition drop_stale :: "nat \<Rightarrow> ('w, 'd, 'x) client_ext_scheme \<Rightarrow> string list \<Rightarrow> string \<Rightarrow> ('w, 'd, unit) action" where
  "drop_stale n X present k =
     (if k \<in> set present then ret ()
      else if names_txt k then ignore (removeFileFromDatabase X k)
      else ignore (removeDirectoryFromDatabase n X k))"

definition drops :: "string \<Rightarrow> (string \<rightharpoonup> string) \<Rightarrow> (string \<rightharpoonup> string) \<Rightarrow> bool" where
  "drops k V V' \<longleftrightarrow> V' \<subseteq>\<^sub>m V \<and> V' k = None \<and> (\<forall>x. V x \<noteq> None \<and> V' x = None \<longrightarrow> at_or_below k x)"

lemma drop_stale_run:
  assumes "db_ok X view s" and "record_ok X N (db_view view s)" and "N < n"
    and "k \<notin> set present"
  obtains t where "db_run view (drop_stale n X present k) () s t (db_view view t)" and "drops k (db_view view s) (db_view view t)"
proof (cases "names_txt k")
  case True
  obtain e where e: "db_remove X k s = Ret True (s\<lparr>db := Some e\<rparr>)" "view e = (db_view view s)(k := None)"
    by (rule db_removeE' [OF assms(1)])
  with True assms(4) show ?thesis
    by (intro that [of "s\<lparr>db := Some e\<rparr>"])
      (auto simp: drop_stale_def db_run_def removeFileFromDatabase_def drops_def db_view_def map_le_def at_or_below_def)
next
  case False
  have "N - length k < n" using assms(3) by simp
  from removesE [OF removes_all [where rank = "\<lambda>k. N - length k", OF this] assms(1) record_decodes [OF assms(2)]
      record_ranked [OF assms(2)]]
  obtain b e where e: "removeDirectoryFromDatabase n X k s = Ret b (s\<lparr>db := Some e\<rparr>)"
    "removed_from X (db_view view s) k (view e)" by blast
  then have "drops k (db_view view s) (view e)"
    using record_listed_below [OF assms(2)] by (auto simp: removed_from_def drops_def)
  with e(1) False assms(4) show ?thesis
    by (intro that [of "s\<lparr>db := Some e\<rparr>"]) (auto simp: drop_stale_def db_run_def db_view_def)
qed

lemma remove_stale_loop:
  assumes "db_ok X view s" and "record_ok X N (db_view view s)" and "N < n"
  shows "\<exists>t. db_run view (for_each ks (drop_stale n X present)) () s t (db_view view t) \<and>
    db_view view t \<subseteq>\<^sub>m db_view view s \<and> (\<forall>k \<in> set ks - set present. db_view view t k = None) \<and>
    (\<forall>x. db_view view s x \<noteq> None \<and> db_view view t x = None \<longrightarrow> (\<exists>k \<in> set ks - set present. at_or_below k x))"
  using assms(1,2)
proof (induction ks arbitrary: s)
  case Nil
  then show ?case by (intro exI [of _ s]) (auto intro: db_run_refl)
next
  case (Cons k ks)
  let ?body = "drop_stale n X present"
  show ?case
  proof (cases "k \<in> set present")
    case True
    then have "for_each (k # ks) ?body s = for_each ks ?body s" by (simp add: drop_stale_def)
    with Cons.IH [OF Cons.prems] True show ?thesis by (auto simp: db_run_def)
  next
    case False
    obtain t where t: "db_run view (?body k) () s t (db_view view t)" and d: "drops k (db_view view s) (db_view view t)"
      by (rule drop_stale_run [OF Cons.prems assms(3) False])
    from d have sub: "db_view view t \<subseteq>\<^sub>m db_view view s" by (simp add: drops_def)
    obtain u where u: "db_run view (for_each ks ?body) () t u (db_view view u)" "db_view view u \<subseteq>\<^sub>m db_view view t"
      "\<forall>k \<in> set ks - set present. db_view view u k = None"
      "\<forall>x. db_view view t x \<noteq> None \<and> db_view view u x = None \<longrightarrow> (\<exists>k \<in> set ks - set present. at_or_below k x)"
      using Cons.IH [OF db_runD(5) [OF t Cons.prems(1)] record_sub [OF Cons.prems(2) sub]] by blast
    have "for_each (k # ks) ?body s = Ret () u"
      using db_runD(1) [OF t] db_runD(1) [OF u(1)] by simp
    then have "db_run view (for_each (k # ks) ?body) () s u (db_view view u)" by (rule db_run_trans [OF t u(1)])
    moreover have "db_view view u k = None" using d u(2) by (metis domIff drops_def map_le_def)
    moreover have "\<exists>k' \<in> set (k # ks) - set present. at_or_below k' x"
      if "db_view view s x \<noteq> None \<and> db_view view u x = None" for x
      using that d u(4) False by (cases "db_view view t x") (auto simp: drops_def)
    ultimately show ?thesis using map_le_trans [OF u(2) sub] u(3) by (intro exI [of _ u]) (auto simp del: for_each.simps)
  qed
qed

lemma remove_stale_run:
  assumes "db_ok X view s" and "record_ok X N (db_view view s)" and "N < n"
    and K: "last K \<noteq> CHR ''/''"
  obtains t where "db_run view (remove_stale n X K present) () s t (db_view view t)"
    and "db_view view t \<subseteq>\<^sub>m db_view view s"
    and "\<And>c. name_ok c \<Longrightarrow> K @ CHR ''/'' # c \<notin> set present \<Longrightarrow> db_view view t (K @ CHR ''/'' # c) = None"
    and "\<And>x. db_view view s x \<noteq> None \<Longrightarrow> db_view view t x = None \<Longrightarrow>
      \<exists>c. name_ok c \<and> K @ CHR ''/'' # c \<notin> set present \<and> at_or_below (K @ CHR ''/'' # c) x"
proof -
  from assms(1) obtain d where d: "db s = Some d" and r: "rocks_ok X view" by (auto simp: db_ok_def)
  have "dom (view d) = set (db_seek X [] d)" using rocks_okD(5) [OF r, of "[]" d] by simp
  then have "finite (dom (view d))" by simp
  from prefix_scan_children [OF r d this, of "scan_prefix K"] obtain ks where
    ks: "prefix_scan X (scan_prefix K) s = Ret ks s" "set ks = {k. db_view view s k \<noteq> None \<and>
      (\<exists>name. k = scan_prefix K @ name \<and> name \<noteq> [] \<and> CHR ''/'' \<notin> set name)}"
    using d by (auto simp: db_view_def)
  have mem: "k \<in> set ks \<longleftrightarrow> db_view view s k \<noteq> None \<and> (\<exists>c. name_ok c \<and> k = K @ CHR ''/'' # c)" for k
    unfolding ks(2) using K by (auto simp: scan_prefix_def name_ok_def)
  obtain t where t: "db_run view (for_each ks (drop_stale n X present)) () s t (db_view view t)"
    "db_view view t \<subseteq>\<^sub>m db_view view s" "\<forall>k \<in> set ks - set present. db_view view t k = None"
    "\<forall>x. db_view view s x \<noteq> None \<and> db_view view t x = None \<longrightarrow> (\<exists>k \<in> set ks - set present. at_or_below k x)"
    using remove_stale_loop [OF assms(1-3)] by blast
  show thesis
  proof (rule that [OF _ t(2)])
    show "db_run view (remove_stale n X K present) () s t (db_view view t)"
      using t(1) ks(1) by (simp add: db_run_def remove_stale_def drop_stale_def [abs_def])
    show "db_view view t (K @ CHR ''/'' # c) = None" if "name_ok c" "K @ CHR ''/'' # c \<notin> set present" for c
      using t(2,3) mem that by (metis DiffI domIff map_le_def)
    show "\<exists>c. name_ok c \<and> K @ CHR ''/'' # c \<notin> set present \<and> at_or_below (K @ CHR ''/'' # c) x"
      if "db_view view s x \<noteq> None" "db_view view t x = None" for x
    proof -
      from t(4) that obtain k where "k \<in> set ks" "k \<notin> set present" "at_or_below k x" by blast
      moreover from this(1) mem obtain c where "name_ok c" "k = K @ CHR ''/'' # c" by blast
      ultimately show ?thesis by blast
    qed
  qed
qed

section \<open>The record as a mirror\<close>

definition texts_in :: "('w, 'd, 'x) client_ext_scheme \<Rightarrow> filesystem \<Rightarrow> string \<Rightarrow> string list \<Rightarrow> string list \<Rightarrow> string list" where
  "texts_in X f base ws ns = map (\<lambda>n. key_at (ws @ [n])) (filter (\<lambda>n. text_at f base (ws @ [n])) ns)"

definition dirs_in :: "('w, 'd, 'x) client_ext_scheme \<Rightarrow> filesystem \<Rightarrow> string \<Rightarrow> string list \<Rightarrow> string list \<Rightarrow> string list" where
  "dirs_in X f base ws ns = map (\<lambda>n. key_at (ws @ [n])) (filter (\<lambda>n. dir_at f base (ws @ [n])) ns)"

definition dir_doc :: "('w, 'd, 'x) client_ext_scheme \<Rightarrow> filesystem \<Rightarrow> string \<Rightarrow> string list \<Rightarrow> json" where
  "dir_doc X f base ws = dir_json \<lparr>files = texts_in X f base ws (names_at X f base ws),
     directories = dirs_in X f base ws (names_at X f base ws), directoryName = key_at ws\<rparr>"

text \<open>
  A directory is mirrored when its document lists the names the iterator gives and no other key
  directly below it is on record; a text file, when its document is the one it had or a fresh one.
\<close>

definition dir_mirrored ::
  "('w, 'd, 'x) client_ext_scheme \<Rightarrow> filesystem \<Rightarrow> string \<Rightarrow> (string \<rightharpoonup> string) \<Rightarrow> string list \<Rightarrow> bool" where
  "dir_mirrored X f base V ws \<longleftrightarrow> V (key_at ws) = Some (text_of X (dir_doc X f base ws)) \<and>
     (\<forall>n. name_ok n \<and> V (key_at (ws @ [n])) \<noteq> None \<longrightarrow>
        n \<in> set (names_at X f base ws) \<and> (text_at f base (ws @ [n]) \<or> dir_at f base (ws @ [n])))"

definition file_mirrored ::
  "('w, 'd, 'x) client_ext_scheme \<Rightarrow> (string \<rightharpoonup> string) \<Rightarrow> (string \<rightharpoonup> string) \<Rightarrow> string list \<Rightarrow> bool" where
  "file_mirrored X V V' ws \<longleftrightarrow> V' (key_at ws) = Some
     (case V (key_at ws) of None \<Rightarrow> text_of X (file_json (File_Metadata (key_at ws))) | Some old \<Rightarrow> old)"

definition mirrored :: "('w, 'd, 'x) client_ext_scheme \<Rightarrow> filesystem \<Rightarrow> string \<Rightarrow>
    (string \<rightharpoonup> string) \<Rightarrow> (string \<rightharpoonup> string) \<Rightarrow> string list \<Rightarrow> bool" where
  "mirrored X f base V V' ws \<longleftrightarrow> (\<forall>us. list_all name_ok us \<longrightarrow>
     (dir_at f base (ws @ us) \<longrightarrow> dir_mirrored X f base V' (ws @ us)) \<and>
     (text_at f base (ws @ us) \<longrightarrow> file_mirrored X V V' (ws @ us)))"

text \<open>Being mirrored depends on what is at and below the key.\<close>

lemma mirrored_cong:
  assumes "mirrored X f base V V' ws"
    and "\<And>x. at_or_below (key_at ws) x \<Longrightarrow> V x = W x" and "\<And>x. at_or_below (key_at ws) x \<Longrightarrow> V' x = W' x"
  shows "mirrored X f base W W' ws"
proof -
  have "W (key_at (ws @ us)) = V (key_at (ws @ us))" "W' (key_at (ws @ us)) = V' (key_at (ws @ us))"
    "W' (key_at (ws @ us @ [n])) = V' (key_at (ws @ us @ [n]))" for us n
    using assms(2,3) by simp_all
  with assms(1) show ?thesis by (simp add: mirrored_def dir_mirrored_def file_mirrored_def)
qed

definition changes_below :: "string \<Rightarrow> (string \<rightharpoonup> string) \<Rightarrow> (string \<rightharpoonup> string) \<Rightarrow> bool" where
  "changes_below k V V' \<longleftrightarrow> (\<forall>x. \<not> at_or_below k x \<longrightarrow> V' x = V x)"

text \<open>One call on a directory does its part; \<open>N\<close> bounds the keys.\<close>

definition syncs :: "nat \<Rightarrow> nat \<Rightarrow> ('w, 'd, 'x) client_ext_scheme \<Rightarrow> ('d \<Rightarrow> string \<rightharpoonup> string) \<Rightarrow> nat \<Rightarrow>
    filesystem \<Rightarrow> string \<Rightarrow> string list \<Rightarrow> bool" where
  "syncs k n X view N f base ws \<longleftrightarrow>
     (\<forall>s. fs s = f \<and> g_basePath s = base \<and> db_ok X view s \<and> record_ok X N (db_view view s) \<longrightarrow>
        (\<exists>t. db_run view (syncDir k n X (path_at base ws)) () s t (db_view view t) \<and>
           record_ok X N (db_view view t) \<and> changes_below (key_at ws) (db_view view s) (db_view view t) \<and>
           mirrored X f base (db_view view s) (db_view view t) ws))"

text \<open>The first entry of a directory, whatever it is, and then the others.\<close>

lemma sync_entry:
  assumes t: "folder_ok X f base" and ws: "list_all name_ok (ws @ [m])"
    and deep: "dir_at f base (ws @ [m]) \<Longrightarrow> syncs k n X view N f base (ws @ [m])"
    and short: "length (key_at (ws @ [m])) < N"
    and s: "fs s = f" "g_basePath s = base" "db_ok X view s" "record_ok X N (db_view view s)"
  obtains t where "db_run view (if text_at f base (ws @ [m]) then sync_file X (key_at (ws @ [m]))
      else if dir_at f base (ws @ [m]) then syncDir k n X (path_at base (ws @ [m])) else ret ()) () s t (db_view view t)"
    and "record_ok X N (db_view view t)" and "changes_below (key_at (ws @ [m])) (db_view view s) (db_view view t)"
    and "mirrored X f base (db_view view s) (db_view view t) (ws @ [m])"
proof -
  have only: "\<not> dir_at f base (ws @ [m]) \<Longrightarrow> list_all name_ok us \<Longrightarrow> us \<noteq> [] \<Longrightarrow>
      \<not> dir_at f base (ws @ [m] @ us) \<and> \<not> text_at f base (ws @ [m] @ us)" for us
    using there_in_dir_append [OF t, of "ws @ [m]" us] ws by auto
  consider (text_file) "text_at f base (ws @ [m])" | (directory) "dir_at f base (ws @ [m])" "\<not> text_at f base (ws @ [m])"
    | (other) "\<not> dir_at f base (ws @ [m])" "\<not> text_at f base (ws @ [m])" by blast
  then show thesis
  proof cases
    case text_file
    obtain t where t: "db_run view (sync_file X (key_at (ws @ [m]))) () s t ((db_view view s)(key_at (ws @ [m]) \<mapsto>
      (case db_view view s (key_at (ws @ [m])) of None \<Rightarrow> text_of X (file_json (File_Metadata (key_at (ws @ [m]))))
        | Some old \<Rightarrow> old)))" "record_ok X N (db_view view t)"
      by (rule sync_file_run [OF s(3,4) short])
    have nd: "\<not> dir_at f base (ws @ [m])" using text_file dir_not_text by blast
    have "mirrored X f base (db_view view s) (db_view view t) (ws @ [m])"
      unfolding mirrored_def
    proof (intro allI impI)
      fix us assume "list_all name_ok us"
      with only [OF nd, of us] nd db_runD(2) [OF t(1)] show
        "(dir_at f base ((ws @ [m]) @ us) \<longrightarrow> dir_mirrored X f base (db_view view t) ((ws @ [m]) @ us)) \<and>
         (text_at f base ((ws @ [m]) @ us) \<longrightarrow> file_mirrored X (db_view view s) (db_view view t) ((ws @ [m]) @ us))"
        by (cases "us = []") (simp_all add: file_mirrored_def)
    qed
    moreover have "changes_below (key_at (ws @ [m])) (db_view view s) (db_view view t)"
      unfolding db_runD(2) [OF t(1)] by (auto simp: changes_below_def at_or_below_def)
    ultimately show ?thesis
      using t text_file db_runD(2) [OF t(1)] by (intro that [of t]) simp_all
  next
    case directory
    from deep [OF directory(1)] s obtain t where
      t: "db_run view (syncDir k n X (path_at base (ws @ [m]))) () s t (db_view view t)" "record_ok X N (db_view view t)"
      "changes_below (key_at (ws @ [m])) (db_view view s) (db_view view t)"
      "mirrored X f base (db_view view s) (db_view view t) (ws @ [m])" unfolding syncs_def by blast
    with directory show ?thesis by (intro that [of t]) simp_all
  next
    case other
    have "mirrored X f base (db_view view s) (db_view view s) (ws @ [m])"
      unfolding mirrored_def
    proof (intro allI impI)
      fix us assume "list_all name_ok us"
      with only [OF other(1), of us] other show
        "(dir_at f base ((ws @ [m]) @ us) \<longrightarrow> dir_mirrored X f base (db_view view s) ((ws @ [m]) @ us)) \<and>
         (text_at f base ((ws @ [m]) @ us) \<longrightarrow> file_mirrored X (db_view view s) (db_view view s) ((ws @ [m]) @ us))"
        by (cases "us = []") simp_all
    qed
    with other s(3,4) show ?thesis
      by (intro that [of s]) (auto simp: changes_below_def intro!: db_run_refl [where X = X])
  qed
qed

lemma sync_entries_run:
  assumes t: "folder_ok X f base" and ws: "list_all name_ok ws" and d: "dir_at f base ws"
    and deep: "\<And>m. m \<in> set (names_at X f base ws) \<Longrightarrow> dir_at f base (ws @ [m]) \<Longrightarrow> syncs k n X view N f base (ws @ [m])"
    and short: "\<And>m. m \<in> set (names_at X f base ws) \<Longrightarrow> length (key_at (ws @ [m])) < N"
    and ns: "distinct ns" "set ns \<subseteq> set (names_at X f base ws)"
    and s: "fs s = f" "g_basePath s = base" "db_ok X view s" "record_ok X N (db_view view s)"
  shows "\<exists>t. db_run view (sync_entries k n X (map (\<lambda>m. path_at base (ws @ [m])) ns))
      (texts_in X f base ws ns, dirs_in X f base ws ns) s t (db_view view t) \<and>
    record_ok X N (db_view view t) \<and>
    (\<forall>x. (\<forall>m \<in> set ns. \<not> at_or_below (key_at (ws @ [m])) x) \<longrightarrow> db_view view t x = db_view view s x) \<and>
    (\<forall>m \<in> set ns. mirrored X f base (db_view view s) (db_view view t) (ws @ [m]))"
  using ns s
proof (induction ns arbitrary: s)
  case Nil
  then show ?case by (intro exI [of _ s]) (auto simp: texts_in_def dirs_in_def intro!: db_run_refl [where X = X])
next
  case (Cons m ns)
  have m: "m \<in> set (names_at X f base ws)" "m \<notin> set ns" using Cons.prems by auto
  have ok: "name_ok m'" if "m' \<in> set (m # ns)" for m' using names_at(3) [OF t ws] Cons.prems(2) that by auto
  have wm: "list_all name_ok (ws @ [m])" using ws ok by simp
  obtain s1 where s1: "db_run view (if text_at f base (ws @ [m]) then sync_file X (key_at (ws @ [m]))
      else if dir_at f base (ws @ [m]) then syncDir k n X (path_at base (ws @ [m])) else ret ()) () s s1 (db_view view s1)"
    "record_ok X N (db_view view s1)" "changes_below (key_at (ws @ [m])) (db_view view s) (db_view view s1)"
    "mirrored X f base (db_view view s) (db_view view s1) (ws @ [m])"
    by (rule sync_entry [OF t wm deep [OF m(1)] short [OF m(1)] Cons.prems(3-6)])
  have s1_ok: "fs s1 = f" "g_basePath s1 = base" "db_ok X view s1"
    using db_runD(3-5) [OF s1(1)] Cons.prems(3-5) by simp_all
  obtain u where u: "db_run view (sync_entries k n X (map (\<lambda>m. path_at base (ws @ [m])) ns))
      (texts_in X f base ws ns, dirs_in X f base ws ns) s1 u (db_view view u)" "record_ok X N (db_view view u)"
    "\<forall>x. (\<forall>m \<in> set ns. \<not> at_or_below (key_at (ws @ [m])) x) \<longrightarrow> db_view view u x = db_view view s1 x"
    "\<forall>m \<in> set ns. mirrored X f base (db_view view s1) (db_view view u) (ws @ [m])"
    using Cons.IH [OF _ _ s1_ok s1(2)] Cons.prems(1,2) by auto
  let ?es = "map (\<lambda>m. path_at base (ws @ [m])) (m # ns)"
  let ?p = "path_at base (ws @ [m])"
  have kinds: "text_at f base (ws @ [m]) \<longleftrightarrow> is_regular_file f ?p \<and> path_extension ?p = ''.txt''"
    "dir_at f base (ws @ [m]) \<longleftrightarrow> fs_is_directory f ?p" by (simp_all add: text_at_def dir_at_def)
  have "sync_entries k n X ?es s
      = Ret (texts_in X f base ws (m # ns), dirs_in X f base ws (m # ns)) u"
    using db_runD(1) [OF s1(1)] db_runD(1) [OF u(1)] Cons.prems(3,4) key_of_path_at [OF wm] dir_not_text [of f base "ws @ [m]"]
    by (cases "text_at f base (ws @ [m])"; cases "dir_at f base (ws @ [m])")
      (simp_all add: texts_in_def dirs_in_def Let_def kinds [symmetric])
  then have "db_run view (sync_entries k n X ?es)
      (texts_in X f base ws (m # ns), dirs_in X f base ws (m # ns)) s u (db_view view u)"
    by (rule db_run_trans [OF s1(1) u(1)])
  moreover have "db_view view u x = db_view view s x" if "\<forall>m \<in> set (m # ns). \<not> at_or_below (key_at (ws @ [m])) x" for x
    using that u(3) s1(3) by (simp add: changes_below_def)
  moreover have "mirrored X f base (db_view view s) (db_view view u) (ws @ [m'])" if m': "m' \<in> set (m # ns)" for m'
  proof (cases "m' = m")
    case True
    have "db_view view s1 x = db_view view u x" if "at_or_below (key_at (ws @ [m])) x" for x
    proof -
      have "\<not> at_or_below (key_at (ws @ [m''])) x" if "m'' \<in> set ns" for m''
        using entries_apart [OF ok [of m''] ok [of m] _ \<open>at_or_below (key_at (ws @ [m])) x\<close>] that m(2) by auto
      with u(3) show ?thesis by simp
    qed
    with mirrored_cong [OF s1(4)] True show ?thesis by blast
  next
    case False
    then have same: "db_view view s1 x = db_view view s x" if "at_or_below (key_at (ws @ [m'])) x" for x
      using s1(3) entries_apart [OF ok [OF m'] ok [of m] that] unfolding changes_below_def by auto
    have "mirrored X f base (db_view view s1) (db_view view u) (ws @ [m'])" using u(4) m' False by simp
    then show ?thesis by (rule mirrored_cong) (simp_all add: same)
  qed
  ultimately show ?case using u(2) by blast
qed

text \<open>The document of a directory is replaced, and the stale keys below it are removed.\<close>

lemma present_iff:
  assumes "name_ok m" and "list_all name_ok ns"
  shows "key_at (ws @ [m]) \<in> set (texts_in X f base ws ns @ dirs_in X f base ws ns) \<longleftrightarrow>
    m \<in> set ns \<and> (text_at f base (ws @ [m]) \<or> dir_at f base (ws @ [m]))"
  by (auto simp: texts_in_def dirs_in_def key_at_entry)

lemma mirrored_dir:
  assumes t: "folder_ok X f base" and ws: "list_all name_ok ws" and d: "dir_at f base ws"
    and inner: "\<And>m. m \<in> set (names_at X f base ws) \<Longrightarrow> mirrored X f base V V1 (ws @ [m])"
    and sub: "V3 \<subseteq>\<^sub>m V1(key_at ws \<mapsto> text_of X (dir_doc X f base ws))"
    and gone: "\<And>c. name_ok c \<Longrightarrow> \<not> (c \<in> set (names_at X f base ws) \<and> (text_at f base (ws @ [c]) \<or> dir_at f base (ws @ [c])))
      \<Longrightarrow> V3 (key_at (ws @ [c])) = None"
    and only: "\<And>x. (V1(key_at ws \<mapsto> text_of X (dir_doc X f base ws))) x \<noteq> None \<Longrightarrow> V3 x = None \<Longrightarrow>
      \<exists>c. name_ok c \<and> \<not> (c \<in> set (names_at X f base ws) \<and> (text_at f base (ws @ [c]) \<or> dir_at f base (ws @ [c])))
        \<and> at_or_below (key_at (ws @ [c])) x"
  shows "mirrored X f base V V3 ws"
proof -
  let ?V2 = "V1(key_at ws \<mapsto> text_of X (dir_doc X f base ws))"
  have named: "name_ok m" if "m \<in> set (names_at X f base ws)" for m using names_at(3) [OF t ws that] .
  have same: "V3 x = V1 x" if x: "at_or_below (key_at (ws @ [m])) x" and m: "m \<in> set (names_at X f base ws)"
    "text_at f base (ws @ [m]) \<or> dir_at f base (ws @ [m])" for x m
  proof -
    have "x \<noteq> key_at ws" using at_or_below_entry [OF x] by blast
    moreover have "V3 x = ?V2 x"
    proof (rule ccontr)
      assume "V3 x \<noteq> ?V2 x"
      with sub have "?V2 x \<noteq> None" "V3 x = None" unfolding map_le_def by (metis domIff)+
      from only [OF this] obtain c where "name_ok c" "at_or_below (key_at (ws @ [c])) x" "c \<noteq> m" using m by blast
      with entries_apart [OF _ named [OF m(1)] _ x] show False by blast
    qed
    ultimately show ?thesis by simp
  qed
  have here: "dir_mirrored X f base V3 ws"
  proof -
    have "V3 (key_at ws) \<noteq> None"
      using only [of "key_at ws"] at_or_below_entry [of ws _ "key_at ws"] by auto
    then have "V3 (key_at ws) = ?V2 (key_at ws)" using sub unfolding map_le_def by (metis domIff)
    moreover have "m \<in> set (names_at X f base ws) \<and> (text_at f base (ws @ [m]) \<or> dir_at f base (ws @ [m]))"
      if "name_ok m" "V3 (key_at (ws @ [m])) \<noteq> None" for m using gone [of m] that by blast
    ultimately show ?thesis unfolding dir_mirrored_def by simp
  qed
  show ?thesis unfolding mirrored_def
  proof (intro allI impI conjI)
    fix us assume us: "list_all name_ok us"
    have inside: "mirrored X f base V V3 (ws @ [hd us])" if ne: "us \<noteq> []" and there: "dir_at f base (ws @ us) \<or> text_at f base (ws @ us)"
    proof -
      obtain u vs where uv: "us = u # vs" using ne by (cases us) auto
      have u: "u \<in> set (names_at X f base ws)"
        using there_in_dir_append [OF t _ ne there] ws us by (simp add: uv)
      have "text_at f base (ws @ [u]) \<or> dir_at f base (ws @ [u])"
      proof (cases "vs = []")
        case False
        then show ?thesis using there_in_dir_append [OF t, of "ws @ [u]" vs] there ws us by (simp add: uv)
      qed (use there uv in auto)
      with u same have "V1 x = V3 x" if "at_or_below (key_at (ws @ [u])) x" for x using that by metis
      with mirrored_cong [OF inner [OF u], of V V3] show ?thesis by (simp add: uv)
    qed
    show "dir_mirrored X f base V3 (ws @ us)" if "dir_at f base (ws @ us)"
      using here inside that us by (cases us) (auto simp: mirrored_def)
    show "file_mirrored X V V3 (ws @ us)" if "text_at f base (ws @ us)"
      using dir_not_text [OF d] inside that us by (cases us) (auto simp: mirrored_def)
  qed
qed

section \<open>Every directory\<close>

text \<open>\<open>D\<close> bounds the components of the paths and \<open>N\<close> their lengths.\<close>

definition folder_fits :: "filesystem \<Rightarrow> nat \<Rightarrow> nat \<Rightarrow> bool" where
  "folder_fits f D N \<longleftrightarrow> 7 < N \<and> (\<forall>p \<in> fset (fmdom f). length (snd p) \<le> D \<and> 7 + length (slashed (snd p)) < N)"

lemma folder_fits_entry:
  assumes t: "folder_ok X f base" and f: "folder_fits f D N" and ws: "list_all name_ok ws"
    and m: "m \<in> set (names_at X f base ws)"
  shows "length ws < D" and "length (key_at (ws @ [m])) < N"
proof -
  have "(fst (fpath_of base), snd (fpath_of base) @ ws @ [m]) \<in> fset (fmdom f)"
    using names_at(2) [OF t ws] m by simp
  then have "length (snd (fpath_of base) @ ws @ [m]) \<le> D"
    "7 + length (slashed (snd (fpath_of base) @ ws @ [m])) < N"
    using f unfolding folder_fits_def by fastforce+
  then show "length ws < D" and "length (key_at (ws @ [m])) < N" by (simp_all add: key_at_def)
qed

lemma folder_fits_dir:
  assumes t: "folder_ok X f base" and f: "folder_fits f D N" and ws: "list_all name_ok ws" and d: "dir_at f base ws"
  shows "length ws \<le> D" and "length (key_at ws) < N"
proof -
  have "length ws \<le> D \<and> length (key_at ws) < N"
  proof (cases ws rule: rev_cases)
    case (snoc vs m)
    then have v: "list_all name_ok vs" and m: "m \<in> set (names_at X f base vs)"
      using there_in_dir [OF t, of vs m] ws d by simp_all
    from folder_fits_entry [OF t f v m] show ?thesis by (simp add: snoc)
  qed (use f in \<open>simp add: folder_fits_def key_at_def\<close>)
  then show "length ws \<le> D" and "length (key_at ws) < N" by simp_all
qed

lemma key_at_last: "list_all name_ok ws \<Longrightarrow> last (key_at ws) \<noteq> CHR ''/''"
  using slashed_last [of ws] by (cases "ws = []") (auto simp: key_at_def)

lemma dir_entries_at:
  assumes "folder_ok X f base" and "list_all name_ok ws"
  shows "dir_entries X f (path_at base ws) = map (\<lambda>m. path_at base (ws @ [m])) (names_at X f base ws)"
  using names_at(3) [OF assms] path_at_entry [OF _ assms(2)] assms(1)
  by (auto simp: dir_entries_def names_at_def folder_ok_def)

lemma syncDir_unfold:
  assumes s: "fs s = f" "g_basePath s = base" "db_ok X view s" "record_ok X N (db_view view s)"
    and t: "folder_ok X f base" and ws: "list_all name_ok ws" and d: "dir_at f base ws"
    and run: "db_run view (sync_entries k n X (map (\<lambda>m. path_at base (ws @ [m])) (names_at X f base ws)))
      (fls, dirs) s s1 (db_view view s1)"
    and stored: "dir_store X \<lparr>files = fls, directories = dirs, directoryName = key_at ws\<rparr> s1 = Ret True s2"
    and stale: "remove_stale n X (key_at ws) (fls @ dirs) s2 = Ret () s3"
  shows "syncDir (Suc k) n X (path_at base ws) s = Ret () s3"
proof -
  have load: "dir_load X (Directory_Metadata (key_at ws)) s = Ret (listing_at X (db_view view s) (key_at ws)) s"
    by (rule dir_load_view [OF s(3) record_decodes [OF s(4)]])
  have name: "directoryName dm = key_at ws" if "listing_at X (db_view view s) (key_at ws) = Some dm" for dm
  proof -
    from that obtain old where "db_view view s (key_at ws) = Some old" by (auto simp: listing_at_def split: option.splits)
    from record_listing [OF s(4) this] that show ?thesis by (metis option.inject)
  qed
  have dm: "(case listing_at X (db_view view s) (key_at ws) of None \<Rightarrow> Directory_Metadata (key_at ws) | Some m \<Rightarrow> m)
      \<lparr>files := fls, directories := dirs\<rparr> = \<lparr>files = fls, directories = dirs, directoryName = key_at ws\<rparr>"
    using name by (simp add: Directory_Metadata_def split: option.split)
  show ?thesis
    using load dm db_runD(1) [OF run] stored stale d s(1,2) key_of_path_at [OF ws] dir_entries_at [OF t ws]
    by (cases "listing_at X (db_view view s) (key_at ws)") (simp_all add: dir_at_def Let_def)
qed

lemma syncs_all:
  assumes t: "folder_ok X f base" and f: "folder_fits f D N" and n: "N < n"
  shows "list_all name_ok ws \<Longrightarrow> dir_at f base ws \<Longrightarrow> D < k + length ws \<Longrightarrow> syncs k n X view N f base ws"
proof (induction k arbitrary: ws)
  case 0
  with folder_fits_dir [OF t f] show ?case by fastforce
next
  case (Suc k)
  note ws = Suc.prems(1) and d = Suc.prems(2)
  show ?case unfolding syncs_def
  proof (intro allI impI, elim conjE)
    fix s assume s: "fs s = f" "g_basePath s = base" "db_ok X view s" "record_ok X N (db_view view s)"
    let ?ns = "names_at X f base ws"
    let ?fls = "texts_in X f base ws ?ns" and ?dirs = "dirs_in X f base ws ?ns"
    let ?dm = "\<lparr>files = ?fls, directories = ?dirs, directoryName = key_at ws\<rparr>"
    have named: "list_all name_ok ?ns" using names_at(3) [OF t ws] by (simp add: list_all_iff)
    have deep: "syncs k n X view N f base (ws @ [m])" if "m \<in> set ?ns" "dir_at f base (ws @ [m])" for m
      using Suc.IH [of "ws @ [m]"] that names_at(3) [OF t ws] ws Suc.prems(3) by simp
    obtain s1 where s1: "db_run view (sync_entries k n X (map (\<lambda>m. path_at base (ws @ [m])) ?ns)) (?fls, ?dirs) s s1 (db_view view s1)"
      "record_ok X N (db_view view s1)"
      "\<forall>x. (\<forall>m \<in> set ?ns. \<not> at_or_below (key_at (ws @ [m])) x) \<longrightarrow> db_view view s1 x = db_view view s x"
      "\<forall>m \<in> set ?ns. mirrored X f base (db_view view s) (db_view view s1) (ws @ [m])"
      using sync_entries_run [OF t ws d deep folder_fits_entry(2) [OF t f ws] names_at(1) [OF t ws] subset_refl s] by blast
    note ok1 = db_runD(5) [OF s1(1) s(3)]
    obtain s2 where s2: "db_run view (db_store X (key_at ws) (dir_json ?dm)) True s1 s2
        ((db_view view s1)(key_at ws \<mapsto> text_of X (dir_json ?dm)))" by (rule db_store_run [OF ok1])
    note v2 = db_runD(2) [OF s2] and ok2 = db_runD(5) [OF s2 ok1]
    have parsed: "json_parse X (text_of X (dir_json ?dm)) = Some (dir_json ?dm)"
      using s(3) codec_total_parse by (auto simp: db_ok_def)
    have below: "\<forall>c \<in> set ?fls \<union> set ?dirs. prefix (key_at ws @ ''/'') c"
      by (auto simp: texts_in_def dirs_in_def key_at_entry prefix_def)
    have r2: "record_ok X N (db_view view s2)"
      unfolding v2 by (rule record_upd [OF s1(2) folder_fits_dir(2) [OF t f ws d]]) (use parsed below in force)
    obtain s3 where s3: "db_run view (remove_stale n X (key_at ws) (?fls @ ?dirs)) () s2 s3 (db_view view s3)"
      "db_view view s3 \<subseteq>\<^sub>m db_view view s2"
      "\<And>c. name_ok c \<Longrightarrow> key_at ws @ CHR ''/'' # c \<notin> set (?fls @ ?dirs) \<Longrightarrow> db_view view s3 (key_at ws @ CHR ''/'' # c) = None"
      "\<And>x. db_view view s2 x \<noteq> None \<Longrightarrow> db_view view s3 x = None \<Longrightarrow>
        \<exists>c. name_ok c \<and> key_at ws @ CHR ''/'' # c \<notin> set (?fls @ ?dirs) \<and> at_or_below (key_at ws @ CHR ''/'' # c) x"
      using remove_stale_run [OF ok2 r2 n key_at_last [OF ws]] by metis
    have "syncDir (Suc k) n X (path_at base ws) s = Ret () s3"
      by (rule syncDir_unfold [OF s t ws d s1(1) _ db_runD(1) [OF s3(1)]])
        (use db_runD(1) [OF s2] in \<open>simp add: dir_store_def\<close>)
    then have run: "db_run view (syncDir (Suc k) n X (path_at base ws)) () s s3 (db_view view s3)"
      by (rule db_run_trans [OF s1(1) db_run_trans [OF s2 s3(1) db_runD(1) [OF s3(1)]]])
    show "\<exists>t. db_run view (syncDir (Suc k) n X (path_at base ws)) () s t (db_view view t) \<and>
        record_ok X N (db_view view t) \<and> changes_below (key_at ws) (db_view view s) (db_view view t) \<and>
        mirrored X f base (db_view view s) (db_view view t) ws"
    proof (intro exI [of _ s3] conjI)
      show "record_ok X N (db_view view s3)" by (rule record_sub [OF r2 s3(2)])
      have doc: "db_view view s2 = (db_view view s1)(key_at ws \<mapsto> text_of X (dir_doc X f base ws))"
        unfolding v2 dir_doc_def ..
      note stale = s3(3,4) [folded key_at_entry]
      show "mirrored X f base (db_view view s) (db_view view s3) ws"
      proof (rule mirrored_dir [OF t ws d])
        show "mirrored X f base (db_view view s) (db_view view s1) (ws @ [m])" if "m \<in> set ?ns" for m
          using s1(4) that by blast
      qed (use s3(2) stale present_iff [OF _ named] doc in metis)+
      show "changes_below (key_at ws) (db_view view s) (db_view view s3)"
        unfolding changes_below_def
      proof (intro allI impI)
        fix x assume x: "\<not> at_or_below (key_at ws) x"
        then have "\<not> at_or_below (key_at (ws @ [c])) x" for c using at_or_below_entry by blast
        with stale(2) [of x] s3(2) have "db_view view s3 x = db_view view s2 x"
          unfolding map_le_def by (metis domIff)
        moreover have "db_view view s2 x = db_view view s1 x" using x unfolding v2 by (auto simp: at_or_below_def)
        moreover have "db_view view s1 x = db_view view s x"
          using s1(3) \<open>\<And>c. \<not> at_or_below (key_at (ws @ [c])) x\<close> by blast
        ultimately show "db_view view s3 x = db_view view s x" by simp
      qed
    qed (rule run)
  qed
qed

lemma localSync_run:
  assumes "db_ok X view s" and "record_ok X N (db_view view s)"
    and "folder_ok X (fs s) (g_basePath s)" and "folder_fits (fs s) D N" and "D < k" and "N < n"
  obtains e where "localSync k n X s = Ret () (s\<lparr>db := Some e\<rparr>)" and "record_ok X N (view e)"
    and "mirrored X (fs s) (g_basePath s) (db_view view s) (view e) []"
proof -
  have "syncs k n X view N (fs s) (g_basePath s) []"
    by (rule syncs_all [OF assms(3,4,6)]) (use assms(3,5) in \<open>simp_all add: folder_ok_def\<close>)
  then obtain t where t: "db_run view (syncDir k n X (path_at (g_basePath s) [])) () s t (db_view view t)"
    "record_ok X N (db_view view t)" "mirrored X (fs s) (g_basePath s) (db_view view s) (db_view view t) []"
    using assms(1,2) unfolding syncs_def by blast
  then obtain e where e: "t = s\<lparr>db := Some e\<rparr>" by (auto simp: db_run_def)
  have "path_at (g_basePath s) [] = g_basePath s" by (simp add: path_at_def)
  then show thesis
    using t db_runD(1) [OF t(1)] by (intro that [of e]) (simp_all add: e localSync_def db_view_def)
qed

section \<open>The property\<close>

text \<open>C40: The synchronisation of the record with the monitored directory ends, changes nothing but the
  record, and leaves it as a mirror of the directory: the document of every directory lists exactly the
  text files and directories in it, and no other key directly below it is on record; every text file
  that was on record keeps its document, and every other one gets a fresh one.\<close>

theorem localSync_mirrors_directory:
  assumes "db_ok X view s" and "record_ok X N (db_view view s)"
    and "folder_ok X (fs s) (g_basePath s)" and "folder_fits (fs s) D N" and "D < k" and "N < n"
  shows "\<exists>e. localSync k n X s = Ret () (s\<lparr>db := Some e\<rparr>) \<and> record_ok X N (view e) \<and>
    (\<forall>ws. list_all name_ok ws \<longrightarrow>
       (dir_at (fs s) (g_basePath s) ws \<longrightarrow> dir_mirrored X (fs s) (g_basePath s) (view e) ws) \<and>
       (text_at (fs s) (g_basePath s) ws \<longrightarrow> file_mirrored X (db_view view s) (view e) ws))"
  using localSync_run [OF assms] unfolding mirrored_def append_Nil by metis

section \<open>Witness\<close>

text \<open>A directory with a text file, a directory and a file of another kind; a file on record is gone.\<close>

definition demo_tree :: filesystem where
  "demo_tree = fmap_of_list [((True, [''h'']), Dir), ((True, [''h'', ''a.txt'']), File ''x''),
     ((True, [''h'', ''d'']), Dir), ((True, [''h'', ''d'', ''n.md'']), File ''y'')]"

definition demo_record :: "(string, string) fmap" where
  "demo_record = toy_db_of [(''dropbox/old.txt'', file_json (File_Metadata ''dropbox/old.txt''))]"

definition demo_boot :: "(unit, (string, string) fmap) client" where
  "demo_boot = (toy_client demo_record)\<lparr>fs := demo_tree\<rparr>"

lemma demo_boot_simps [simp]:
  "fs demo_boot = demo_tree" "g_basePath demo_boot = ''/h/''" "db demo_boot = Some demo_record"
  by (simp_all add: demo_boot_def toy_client_def)

lemma demo_tree_names: "names_at toy_client_ext demo_tree ''/h/'' [] = [''a.txt'', ''d'']"
proof -
  have "child_names demo_tree ''/h/'' = [''a.txt'', ''d'']" by code_simp
  then show ?thesis by (simp add: names_at_def path_at_def toy_ext_def)
qed

lemma demo_tree_kinds:
  "text_at demo_tree ''/h/'' [''a.txt'']" "\<not> dir_at demo_tree ''/h/'' [''a.txt'']"
  "dir_at demo_tree ''/h/'' [''d'']" "\<not> text_at demo_tree ''/h/'' [''d'']" "dir_at demo_tree ''/h/'' []"
  by code_simp+

lemma boot_tree_ok: "folder_ok toy_client_ext demo_tree ''/h/''"
proof -
  have "fs_ok demo_tree" by code_simp
  moreover have "fBall (fmdom demo_tree) (\<lambda>p. list_all name_ok (snd p))" by code_simp
  ultimately show ?thesis
    using demo_tree_kinds(5) by (simp add: folder_ok_def base_ok_def toy_ext_def)
qed

lemma boot_tree_fits: "folder_fits demo_tree 3 30"
  by code_simp

lemma demo_record_ok: "record_ok toy_client_ext 30 (fmlookup demo_record)"
  by (simp add: record_ok_def demo_record_def toy_db_of_def fmlookup_of_list) blast

theorem localSync_mirrors_directory_witness:
  "\<exists>e. localSync 4 31 toy_client_ext demo_boot = Ret () (demo_boot\<lparr>db := Some e\<rparr>) \<and>
    fmlookup e ''dropbox'' = Some (enc (dir_json \<lparr>files = [''dropbox/a.txt''], directories = [''dropbox/d''],
      directoryName = ''dropbox''\<rparr>)) \<and>
    fmlookup e ''dropbox/a.txt'' = Some (enc (file_json (File_Metadata ''dropbox/a.txt''))) \<and>
    fmlookup e ''dropbox/old.txt'' = None"
proof -
  have ok: "db_ok toy_client_ext fmlookup demo_boot"
    using toy_db_ok [of "()" demo_record] by (simp add: demo_boot_def)
  have v: "db_view fmlookup demo_boot = fmlookup demo_record" by (simp add: db_view_def)
  have old: "name_ok ''old.txt''" "name_ok ''a.txt''" by (simp_all add: name_ok_def)
  have keys: "key_at [] = ''dropbox''" "key_at [''a.txt''] = ''dropbox/a.txt''" "key_at [''d''] = ''dropbox/d''"
    "key_at [''old.txt''] = ''dropbox/old.txt''" by (simp_all add: key_at_def)
  have txt_of: "text_of toy_client_ext j = enc j" for j by (simp add: text_of_def toy_dump_def)
  obtain e where run: "localSync 4 31 toy_client_ext demo_boot = Ret () (demo_boot\<lparr>db := Some e\<rparr>)"
    and all: "\<forall>ws. list_all name_ok ws \<longrightarrow>
       (dir_at demo_tree ''/h/'' ws \<longrightarrow> dir_mirrored toy_client_ext demo_tree ''/h/'' (fmlookup e) ws) \<and>
       (text_at demo_tree ''/h/'' ws \<longrightarrow> file_mirrored toy_client_ext (fmlookup demo_record) (fmlookup e) ws)"
    using localSync_mirrors_directory [OF ok, of 30 3 4 31] demo_record_ok boot_tree_ok boot_tree_fits v by auto
  from all have d: "dir_mirrored toy_client_ext demo_tree ''/h/'' (fmlookup e) []" using demo_tree_kinds(5) by simp
  have f: "file_mirrored toy_client_ext (fmlookup demo_record) (fmlookup e) [''a.txt'']"
    using all demo_tree_kinds(1) old(2) by simp
  have doc: "dir_doc toy_client_ext demo_tree ''/h/'' [] = dir_json \<lparr>files = [''dropbox/a.txt''],
      directories = [''dropbox/d''], directoryName = ''dropbox''\<rparr>"
    by (simp add: dir_doc_def texts_in_def dirs_in_def demo_tree_names demo_tree_kinds keys)
  have "fmlookup demo_record ''dropbox/a.txt'' = None"
    by (simp add: demo_record_def toy_db_of_def fmlookup_of_list)
  with f have "fmlookup e ''dropbox/a.txt'' = Some (enc (file_json (File_Metadata ''dropbox/a.txt'')))"
    by (simp add: file_mirrored_def keys txt_of)
  moreover from d have "fmlookup e ''dropbox'' = Some (enc (dir_json \<lparr>files = [''dropbox/a.txt''],
      directories = [''dropbox/d''], directoryName = ''dropbox''\<rparr>))"
    by (simp add: dir_mirrored_def keys doc txt_of)
  moreover from d old(1) have "fmlookup e ''dropbox/old.txt'' = None"
    unfolding dir_mirrored_def demo_tree_names by (auto simp: keys)
  ultimately show ?thesis using run by blast
qed

end
