(* ===== verification/Block_Node.thy ===== *)
theory Block_Node
  imports Kv_Node Authentication
begin

text \<open>
  A storage server for the content of files: \<open>value_get\<close> and \<open>value_put\<close> of
  \<open>src/CODE/src/data_blockserver/server.py\<close>.  The node is that of \<open>Kv_Node\<close>, apart from its
  \<open>handle_get\<close>, which takes the key and gives the value alone.  A file's text is stored with a
  version number, and an update must name the version that is stored.
\<close>

section \<open>Python values\<close>

text \<open>
  \<open>int\<close>: of a string, surrounding white space, a sign, and digits with single underscores between
  them; \<open>None\<close> is an exception.
\<close>

definition py_space :: "char \<Rightarrow> bool" where
  "py_space c \<longleftrightarrow> is_space c \<or> (of_char c :: nat) \<in> {28, 29, 30, 31}"

definition py_strip :: "string \<Rightarrow> string" where
  "py_strip s = rev (dropWhile py_space (rev (dropWhile py_space s)))"

fun py_digits :: "bool \<Rightarrow> string \<Rightarrow> bool" where
  "py_digits after_digit [] = after_digit"
| "py_digits after_digit (c # cs) =
     (if is_digit c then py_digits True cs
      else c = CHR ''_'' \<and> after_digit \<and> py_digits False cs)"

definition py_int_of :: "string \<Rightarrow> int option" where
  "py_int_of s =
     (let t = py_strip s;
          signed = (t \<noteq> [] \<and> (hd t = CHR ''-'' \<or> hd t = CHR ''+''));
          u = (if signed then tl t else t);
          v = int (digits_value (filter is_digit u))
      in if py_digits False u then Some (if signed \<and> hd t = CHR ''-'' then - v else v) else None)"

definition py_int :: "('x) codec_scheme \<Rightarrow> json \<Rightarrow> int option" where
  "py_int X j = (case j of
       JStr s \<Rightarrow> py_int_of s
     | JNum i \<Rightarrow> Some i
     | JBool b \<Rightarrow> Some (if b then 1 else 0)
     | JFloat f \<Rightarrow> Some (float_trunc X f)
     | _ \<Rightarrow> None)"

text \<open>
  \<open>verify_jwt\<close> of a token as it came: what is not a string is refused, or has no
  \<open>count\<close> and raises.
\<close>

definition token_user ::
  "('w, 'x) meta_ext_scheme \<Rightarrow> string \<Rightarrow> int \<Rightarrow> json \<Rightarrow> string option option" where
  "token_user X pk now j = (case j of
       JStr t \<Rightarrow> Some (verify_jwt X pk now t)
     | JArr js \<Rightarrow> Some None
     | _ \<Rightarrow> if truthy j then None else Some None)"

section \<open>Handlers\<close>

text \<open>
  A request fails with an exception (\<open>None\<close>), which Flask answers with status 500.  The parser
  of JSON is the one of the clients: texts they print are read alike by Python's \<open>json.loads\<close>.
\<close>

definition failure :: "string \<Rightarrow> json" where
  "failure msg = obj [(''code'', JStr ''fail''), (''message'', JStr msg)]"

definition success :: "json \<Rightarrow> json" where
  "success payload = obj [(''code'', JStr ''success''), (''payload'', payload)]"

definition redirected :: "node \<Rightarrow> json \<Rightarrow> json option" where
  "redirected n payload =
     map_option (\<lambda>p. obj [(''code'', JStr ''fail''), (''payload'', p)]) (redirect_payload n payload)"

definition block_get ::
  "('w, 'x) meta_ext_scheme \<Rightarrow> string \<Rightarrow> int \<Rightarrow> node \<Rightarrow> json \<Rightarrow> json option" where
  "block_get X pk now n req =
     (case py_item req ''payload'' of
        None \<Rightarrow> None
      | Some payload \<Rightarrow>
          (case status n of
             LEADER \<Rightarrow>
               (case (py_item payload ''token'', py_item payload ''key'') of
                  (Some token, Some filePath) \<Rightarrow>
                    (case token_user X pk now token of
                       None \<Rightarrow> None
                     | Some None \<Rightarrow> Some (failure ''Invalid token'')
                     | Some (Some userID) \<Rightarrow>
                         (case filePath of
                            JStr p \<Rightarrow>
                              (case DB n (JStr (userID @ '':'' @ p)) of
                                 Some result \<Rightarrow>
                                   if truthy result then Some (success result)
                                   else Some (failure ''Key not found'')
                               | None \<Rightarrow> Some (failure ''Key not found''))
                          | _ \<Rightarrow> None))
                | _ \<Rightarrow> None)
           | FOLLOWER \<Rightarrow> redirected n payload
           | CANDIDATE \<Rightarrow> Some (obj [(''code'', JStr ''fail''), (''payload'', payload)])))"

text \<open>
  The put of one binding through the log.  The results are the reply, or the exception, the node
  afterwards and the message for the metadata server.
\<close>

definition put_binding ::
  "bool \<Rightarrow> node \<Rightarrow> string \<Rightarrow> json \<Rightarrow> json option \<Rightarrow> json \<Rightarrow> json option \<times> node \<times> json option" where
  "put_binding confirmed n failed new_payload message reply_ok =
     (let (r, n1) = handle_put confirmed n new_payload
      in case r of
           None \<Rightarrow> (None, n1, None)
         | Some result \<Rightarrow> if result then (Some reply_ok, n1, message) else (Some (failure failed), n1, None))"

definition block_delete :: "bool \<Rightarrow> node \<Rightarrow> json \<Rightarrow> json option \<times> node \<times> json option" where
  "block_delete confirmed n payload =
     (case py_item payload ''key'' of
        None \<Rightarrow> (None, n, None)
      | Some key \<Rightarrow>
          (let new_payload = obj [(''key'', key), (''value'', JStr DELETE_VALUE)]
           in put_binding confirmed n ''Deletion failed'' new_payload None (success new_payload)))"

text \<open>Storing a value under its next version, and the message that follows.\<close>

definition block_store ::
  "('w, 'x) meta_ext_scheme \<Rightarrow> bool \<Rightarrow> node \<Rightarrow> string \<Rightarrow> string \<Rightarrow> string \<Rightarrow> json \<Rightarrow> json \<Rightarrow> int \<Rightarrow>
     json option \<times> node \<times> json option" where
  "block_store X confirmed n failed userID p deviceID val new_version =
     (case json_dump X (py_set_item val ''version_number'' (JStr (to_string new_version))) of
        None \<Rightarrow> (None, n, None)
      | Some text \<Rightarrow>
          (let new_payload = obj [(''key'', JStr (userID @ '':'' @ p)), (''value'', JStr text)]
           in put_binding confirmed n failed new_payload
                (Some (obj [(''user_id'', JStr userID), (''path'', JStr p), (''device_id'', deviceID)]))
                (success new_payload)))"

definition block_write ::
  "('w, 'x) meta_ext_scheme \<Rightarrow> bool \<Rightarrow> node \<Rightarrow> string \<Rightarrow> string \<Rightarrow> json \<Rightarrow> json \<Rightarrow>
     json option \<times> node \<times> json option" where
  "block_write X confirmed n userID p deviceID val =
     (case py_item val ''version_number'' of
        None \<Rightarrow> (None, n, None)
      | Some new_version \<Rightarrow>
          (case DB n (JStr (userID @ '':'' @ p)) of
             None \<Rightarrow>
               if new_version \<noteq> JStr ''0'' then (Some (failure ''Version mismatch''), n, None)
               else block_store X confirmed n ''Creation failed'' userID p deviceID val 1
           | Some existing \<Rightarrow>
               if existing = JNull \<or> existing = JStr DELETE_VALUE then
                 (if new_version \<noteq> JStr ''0'' then (Some (failure ''Version mismatch''), n, None)
                  else block_store X confirmed n ''Creation failed'' userID p deviceID val 1)
               else
                 (case existing of
                    JStr text \<Rightarrow>
                      (case Option.bind (json_parse X text) (\<lambda>j. Option.bind (py_item j ''version_number'') (py_int X)) of
                         None \<Rightarrow> (None, n, None)
                       | Some existing_version \<Rightarrow>
                           (case py_int X new_version of
                              None \<Rightarrow> (None, n, None)
                            | Some v \<Rightarrow>
                                if existing_version \<noteq> v then (Some (failure ''Version mismatch''), n, None)
                                else block_store X confirmed n ''Update failed'' userID p deviceID val (v + 1)))
                  | _ \<Rightarrow> (None, n, None))))"

definition block_put ::
  "('w, 'x) meta_ext_scheme \<Rightarrow> string \<Rightarrow> int \<Rightarrow> bool \<Rightarrow> node \<Rightarrow> json \<Rightarrow>
     json option \<times> node \<times> json option" where
  "block_put X pk now confirmed n req =
     (case py_item req ''payload'' of
        None \<Rightarrow> (None, n, None)
      | Some payload \<Rightarrow>
          (case status n of
             LEADER \<Rightarrow>
               (case py_item payload ''value'' of
                  None \<Rightarrow> (None, n, None)
                | Some val0 \<Rightarrow>
                    if val0 = JStr DELETE_VALUE then block_delete confirmed n payload
                    else
                      (case (val0, py_item payload ''token'', py_item payload ''key'', py_item payload ''device_id'') of
                         (JStr text, Some token, Some filePath, Some deviceID) \<Rightarrow>
                           (case json_parse X text of
                              None \<Rightarrow> (None, n, None)
                            | Some val \<Rightarrow>
                                (case token_user X pk now token of
                                   None \<Rightarrow> (None, n, None)
                                 | Some None \<Rightarrow> (Some (failure ''Invalid token''), n, None)
                                 | Some (Some userID) \<Rightarrow>
                                     (case filePath of
                                        JStr p \<Rightarrow> block_write X confirmed n userID p deviceID val
                                      | _ \<Rightarrow> (None, n, None))))
                       | _ \<Rightarrow> (None, n, None)))
           | FOLLOWER \<Rightarrow> (redirected n payload, n, None)
           | CANDIDATE \<Rightarrow> (Some (obj [(''code'', JStr ''fail'')]), n, None)))"

section \<open>Storage servers behind libcurl\<close>

text \<open>
  \<open>confirmations\<close> are the messages sent to the metadata server; a failure to send one is only
  logged.
\<close>

record blocks = cluster +
  confirmations :: "json list"

definition block_perform ::
  "('r blocks_scheme, 'x) meta_ext_scheme \<Rightarrow> string \<Rightarrow> string \<Rightarrow> string \<Rightarrow> string option \<Rightarrow>
     'r blocks_scheme \<Rightarrow> curl_result \<times> 'r blocks_scheme" where
  "block_perform X pk url method body w =
     (let addr = take (length url - length ''/request'') url
      in case nodes w addr of
           None \<Rightarrow> (Curl_error ''Could not connect to server'', w)
         | Some n \<Rightarrow>
             (case Option.bind body (json_parse X) of
                None \<Rightarrow> (Curl_done 400 [], w)
              | Some req \<Rightarrow>
                  if method = ''PUT'' then
                    (let (r, n1, m) = block_put X pk (time_now X w) (quorum w) n req
                     in (http_reply X r,
                         w\<lparr>nodes := (nodes w)(addr \<mapsto> n1),
                           confirmations := confirmations w @ (case m of None \<Rightarrow> [] | Some j \<Rightarrow> [j])\<rparr>))
                  else (http_reply X (block_get X pk (time_now X w) n req), w)))"

end
