(* ===== verification/Block_Props.thy ===== *)
theory Block_Props
  imports Block_Node Server_Utils_Props Toy_Codec
begin

text \<open>
  The client's file operations against the storage servers for file content: a current upload is
  stored under the next version and read back, a stale one is refused in a way the client takes for
  success, and a deletion needs no token.
\<close>

section \<open>The client's library runs against a group of storage servers\<close>

text \<open>
  \<open>C\<close> are the client's libraries, \<open>X\<close> the server's and \<open>pk\<close> the public key of the
  tokens.  Neither the empty text nor the deletion marker is a JSON text.
\<close>

definition block_service ::
  "('r blocks_scheme, 'y) net_ext_scheme \<Rightarrow> ('r blocks_scheme, 'x) meta_ext_scheme \<Rightarrow> string \<Rightarrow> bool" where
  "block_service C X pk \<longleftrightarrow>
     codec_total C \<and> json_parse X = json_parse C \<and> json_dump X = json_dump C \<and>
     json_parse C [] = None \<and> json_parse C DELETE_VALUE = None \<and>
     (\<forall>w. curl_init C w = (True, w)) \<and> curl_perform C = block_perform X pk \<and>
     (\<forall>ss w. \<exists>ts. shuffled C ss w = (ts, w) \<and> set ts = set ss)"

lemma block_serviceD:
  assumes "block_service C X pk"
  shows "codec_total C" "curl_init C w = (True, w)" "curl_perform C = block_perform X pk"
    "json_dump C j = Some (text_of C j)" "json_dump X j = Some (text_of C j)"
    "json_parse C (text_of C j) = Some j" "json_parse X (text_of C j) = Some j"
    "dump C j = Inr (text_of C j)" "parse C (text_of C j) = Inr j"
    "text_of C j \<noteq> []" "text_of C j \<noteq> DELETE_VALUE"
proof -
  show t: "codec_total C" and "curl_init C w = (True, w)" and "curl_perform C = block_perform X pk"
    using assms by (simp_all add: block_service_def)
  show d: "json_dump C j = Some (text_of C j)" and p: "json_parse C (text_of C j) = Some j"
    using t by (simp_all add: codec_total_dump codec_total_parse)
  show "json_dump X j = Some (text_of C j)" and "json_parse X (text_of C j) = Some j"
    using assms d p by (simp_all add: block_service_def)
  show "dump C j = Inr (text_of C j)" and "parse C (text_of C j) = Inr j"
    using d p by (simp_all add: dump_def parse_def)
  show "text_of C j \<noteq> []" and "text_of C j \<noteq> DELETE_VALUE"
    using p assms by (auto simp: block_service_def)
qed

lemma block_target [simp]:
  assumes "block_service C X pk"
  shows "redirect_target C (text_of C j) =
    (if contains j ''payload'' then
       (case subscript j ''payload'' of
          Inr p \<Rightarrow> (if contains p ''message'' then
                     (case subscript p ''message'' of Inr (JStr a) \<Rightarrow> Some a | _ \<Rightarrow> None)
                   else None)
        | Inl e \<Rightarrow> None)
     else None)"
  using block_serviceD [OF assms]
  by (auto simp: redirect_target_def get_string_def split: sum.splits json.splits)

text \<open>One request to a node.\<close>

definition after_put :: "'r blocks_scheme \<Rightarrow> string \<Rightarrow> node \<Rightarrow> json option \<Rightarrow> 'r blocks_scheme" where
  "after_put w l n m =
     w\<lparr>nodes := (nodes w)(l \<mapsto> n),
       confirmations := confirmations w @ (case m of None \<Rightarrow> [] | Some j \<Rightarrow> [j])\<rparr>"

lemma block_send_put:
  assumes C: "block_service C X pk" and n: "nodes w l = Some n"
    and r: "block_put X pk (time_now X w) (quorum w) n req = (Some r, n1, m)"
  shows "sendRequest C (l @ ''/request'') ''put'' req w
    = Ret (mk_response (text_of C r) [] True) (after_put w l n1 m)"
  using n r block_serviceD [OF C]
  by (simp add: sendRequest_def request_method_def request_body_def block_perform_def Let_def
      http_reply_def after_put_def)

lemma block_send_get:
  assumes C: "block_service C X pk" and n: "nodes w l = Some n"
    and r: "block_get X pk (time_now X w) n req = Some r"
  shows "sendRequest C (l @ ''/request'') ''get'' req w = Ret (mk_response (text_of C r) [] True) w"
  using n r block_serviceD [OF C]
  by (simp add: sendRequest_def request_method_def request_body_def block_perform_def Let_def
      http_reply_def)

text \<open>
  A reply of the leader that names no other address is the answer of the group: a follower sends the
  client there.
\<close>

definition silent :: "json \<Rightarrow> bool" where
  "silent r \<longleftrightarrow> (\<forall>p. subscript r ''payload'' = Inr p \<longrightarrow> \<not> contains p ''message'')"

lemma silent_replies [simp]:
  "silent (failure msg)" "silent (success (JStr t))"
  "silent (success (obj [(''key'', a), (''value'', b)]))"
  by (auto simp: silent_def failure_def success_def subscript_def contains_def obj_def fmlookup_of_list)

lemma silent_target:
  "block_service C X pk \<Longrightarrow> silent r \<Longrightarrow> redirect_target C (text_of C r) = None"
  by (auto simp: silent_def split: sum.split)

lemma follower_redirects:
  assumes C: "block_service C X pk" and n: "nodes w s = Some n" "status n = FOLLOWER" "leader n = Some l"
    and req: "py_item req ''payload'' = Some (obj kvs)" and t: "t = ''get'' \<or> t = ''put''"
  shows "redirectToLeader C (s @ ''/request'') t req w
    = redirectToLeader C (l @ ''/request'') t req w"
proof -
  let ?p = "py_set_item (obj kvs) ''message'' (JStr l)"
  let ?r = "obj [(''code'', JStr ''fail''), (''payload'', ?p)]"
  have r: "redirected n (obj kvs) = Some ?r"
    using n(3) by (simp add: redirected_def redirect_payload_obj del: py_set_item_obj)
  have w: "after_put w s n None = w" using n(1) by (simp add: after_put_def fun_upd_idem)
  have "sendRequest C (s @ ''/request'') t req w = Ret (mk_response (text_of C ?r) [] True) w"
    using t block_send_get [OF C n(1)] block_send_put [OF C n(1), of req ?r n None] w req n(2) r
    by (auto simp: block_get_def block_put_def simp del: py_set_item_obj)
  then show ?thesis
    by (rule redirect_loop_follow)
      (use block_target [OF C, of ?r] in simp_all)
qed

lemma block_group:
  assumes C: "block_service C X pk" and g: "group_ok w es" "leader_of w es = Some l"
    and req: "py_item req ''payload'' = Some (obj kvs)" and t: "t = ''get'' \<or> t = ''put''"
    and sent: "sendRequest C (l @ ''/request'') t req w = Ret (mk_response (text_of C r) [] True) w1"
    and r: "silent r"
  shows "tryServers C es t req w = Ret (mk_response (text_of C r) [] True) w1"
proof -
  from g have mem: "l \<in> set es" and all: "\<And>s. s \<in> set es \<Longrightarrow> leads_to w l s"
    by (auto elim: group_okE)
  have at_leader: "redirectToLeader C (l @ ''/request'') t req w = Ret (mk_response (text_of C r) [] True) w1"
    by (rule redirect_loop_final [OF sent]) (use silent_target [OF C r] in simp)
  have member: "redirectToLeader C (s @ ''/request'') t req w = Ret (mk_response (text_of C r) [] True) w1"
    if "s \<in> set es" for s
  proof (cases "s = l")
    case False
    with all [OF that] obtain m where m: "nodes w s = Some m" "status m = FOLLOWER" "leader m = Some l"
      by (auto simp: leads_to_def split: option.splits)
    from follower_redirects [OF C m req t] at_leader show ?thesis by simp
  qed (use at_leader in simp)
  obtain ss where ss: "shuffled C es w = (ss, w)" "set ss = set es"
    using C unfolding block_service_def by metis
  show ?thesis
    by (rule tryServers_uniform [OF ss(1)]) (use ss(2) mem member in auto)
qed

section \<open>Documents and versions\<close>

definition file_doc :: "string \<Rightarrow> string \<Rightarrow> json" where
  "file_doc ver txt = obj [(''version_number'', JStr ver), (''data'', JStr txt)]"

lemma file_doc_item [simp]:
  "py_item (file_doc ver txt) ''version_number'' = Some (JStr ver)"
  "py_set_item (file_doc ver txt) ''version_number'' (JStr ver') = file_doc ver' txt"
  by (auto simp: file_doc_def obj_def py_set_item_def intro!: fmap_ext split: if_splits)

lemma py_int_of_to_string [simp]: "py_int_of (to_string i) = Some i"
proof -
  have digits: "py_digits b ds" if "\<forall>c \<in> set ds. is_digit c" "ds \<noteq> [] \<or> b" for b ds
    using that by (induction ds arbitrary: b) auto
  have no_space: "\<not> py_space c" if "is_digit c \<or> c = CHR ''-''" for c
    using that by (auto simp: py_space_def is_space_def is_digit_def)
  have strip: "py_strip s = s" if "\<forall>c \<in> set s. \<not> py_space c" for s
  proof -
    have idle: "dropWhile py_space t = t" if "\<forall>c \<in> set t. \<not> py_space c" for t
      using that by (cases t) auto
    show ?thesis using that idle [of s] idle [of "rev s"] by (simp add: py_strip_def)
  qed
  have ds: "\<forall>c \<in> set (digits_of n). is_digit c" for n by (rule digits_of_digits)
  have facts: "filter is_digit (digits_of n) = digits_of n" "py_digits False (digits_of n)"
    "hd (digits_of n) \<noteq> CHR ''-''" "hd (digits_of n) \<noteq> CHR ''+''" for n
    using ds [of n] digits [OF ds, of n False] hd_in_set [OF digits_of_not_Nil, of n] not_sign_digit
    by (auto simp: filter_id_conv)
  have "py_strip (to_string i) = to_string i"
    by (rule strip) (use ds no_space in \<open>auto simp: to_string_def\<close>)
  then show ?thesis
    by (cases "i < 0") (simp_all add: py_int_of_def to_string_def facts)
qed

text \<open>What a group binds to a key, and the version an upload must name to be accepted.\<close>

definition binding :: "'a cluster_scheme \<Rightarrow> string list \<Rightarrow> string \<Rightarrow> json option" where
  "binding w es k =
     (case Option.bind (leader_of w es) (nodes w) of None \<Rightarrow> None | Some n \<Rightarrow> DB n (JStr k))"

definition held_version :: "('x) codec_scheme \<Rightarrow> json option \<Rightarrow> int option" where
  "held_version X b = (case b of
       None \<Rightarrow> Some 0
     | Some (JStr text) \<Rightarrow>
         if text = DELETE_VALUE then Some 0
         else Option.bind (json_parse X text) (\<lambda>j. Option.bind (py_item j ''version_number'') (py_int X))
     | Some _ \<Rightarrow> None)"

lemma to_string_zero [simp]: "to_string i = ''0'' \<longleftrightarrow> i = 0"
proof -
  have zero: "to_string 0 = ''0''" by code_simp
  then have "i = 0" if "to_string i = ''0''"
    using that py_int_of_to_string [of i] py_int_of_to_string [of 0] by simp
  with zero show ?thesis by auto
qed

lemma block_write_versions:
  assumes "held_version X (DB n (JStr (u @ '':'' @ p))) = Some v"
  shows "\<exists>failed. block_write X b n u p dev (file_doc (to_string i) txt) =
    (if i = v then block_store X b n failed u p dev (file_doc (to_string i) txt) (v + 1)
     else (Some (failure ''Version mismatch''), n, None))"
  using assms
  by (auto simp: block_write_def held_version_def py_int_def
      split: option.splits json.splits if_splits)

section \<open>Uploads\<close>

lemma handle_put_confirmed:
  "handle_put True n (obj [(''key'', JStr k), (''value'', JStr v)]) = (Some True, leader_after_put True n k v)"
  by (simp add: handle_put_def commit_def py_value_def leader_after_put_def obj_def Let_def)

lemma leader_binding:
  assumes "group_ok w es"
  obtains l n where "leader_of w es = Some l" and "nodes w l = Some n" and "status n = LEADER"
    and "binding w es = (\<lambda>k. DB n (JStr k))"
  using assms
proof (rule group_okE)
  fix l n assume "leader_of w es = Some l" "nodes w l = Some n" "status n = LEADER"
  moreover from this have "binding w es = (\<lambda>k. DB n (JStr k))" by (simp add: binding_def fun_eq_iff)
  ultimately show thesis by (rule that)
qed

text \<open>
  A write that a majority confirmed: one more binding, and possibly a message.  Nothing else changes for
  any group, also not for one that shares servers with this one.
\<close>

definition bound ::
  "'r blocks_scheme \<Rightarrow> 'r blocks_scheme \<Rightarrow> string list \<Rightarrow> string \<Rightarrow> string \<Rightarrow> json list \<Rightarrow> bool" where
  "bound w w1 es k v ms \<longleftrightarrow>
     binding w1 es = (binding w es)(k \<mapsto> JStr v) \<and> group_ok w1 es \<and> quorum w1 = quorum w \<and>
     confirmations w1 = confirmations w @ ms \<and> blocks.more w1 = blocks.more w \<and>
     (\<forall>fs. group_ok w1 fs = group_ok w fs \<and> (\<forall>k'. k' \<noteq> k \<longrightarrow> binding w1 fs k' = binding w fs k'))"

lemma after_put_bound:
  assumes g: "group_ok w es" "leader_of w es = Some l" and n: "nodes w l = Some n"
  shows "bound w (after_put w l (leader_after_put True n k v) m) es k v (case m of None \<Rightarrow> [] | Some j \<Rightarrow> [j])"
proof -
  let ?n1 = "leader_after_put True n k v" and ?w1 = "after_put w l (leader_after_put True n k v) m"
  have same: "is_leader ?w1 = is_leader w" "leads_to ?w1 = leads_to w"
    using n by (auto simp: is_leader_def leads_to_def after_put_def fun_eq_iff)
  have leaders: "leader_of ?w1 fs = leader_of w fs" for fs using same by (simp add: leader_of_def)
  then have groups: "group_ok ?w1 fs = group_ok w fs" for fs
    using same by (simp add: group_ok_def split: option.split)
  have "binding ?w1 fs k' = binding w fs k'" if "k' \<noteq> k" for fs k'
    using leaders [of fs] n that by (auto simp: binding_def after_put_def split: Option.bind_splits option.split)
  then show ?thesis
    using g n leaders groups by (simp add: bound_def binding_def after_put_def fun_eq_iff)
qed

text \<open>A write request as the client's library sends it, and what comes back.\<close>

definition put_message :: "string \<Rightarrow> string \<Rightarrow> string \<Rightarrow> string \<Rightarrow> json" where
  "put_message k t d v = obj [(''type'', JStr ''put''),
     (''payload'', obj [(''key'', JStr k), (''token'', JStr t), (''device_id'', JStr d), (''value'', JStr v)])]"

lemma put_message_payload [simp]:
  "py_item (put_message k t d v) ''payload'' =
     Some (obj [(''key'', JStr k), (''token'', JStr t), (''device_id'', JStr d), (''value'', JStr v)])"
  by (simp add: put_message_def)

lemma kv_set_run:
  assumes C: "block_service C X pk" and g: "group_ok w es" "leader_of w es = Some l"
    and n: "nodes w l = Some n"
    and put: "block_put X pk (time_now X w) (quorum w) n (put_message k t d v) = (Some r, n1, m)"
    and r: "silent r"
  shows "kv_set C es k t d v w = Ret (mk_response (text_of C r) [] True) (after_put w l n1 m)"
  using block_group [OF C g put_message_payload _ block_send_put [OF C n put] r]
  by (simp add: kv_set_def put_message_def Let_def)

lemma setFile_run:
  assumes C: "block_service C X pk" and g: "group_ok w es" "leader_of w es = Some l"
    and n: "nodes w l = Some n"
    and put: "block_put X pk (time_now X w) (quorum w) n
        (put_message p t d (text_of C (file_doc ver txt))) = (Some r, n1, m)"
    and r: "silent r"
  shows "setFile C es p txt ver t d w = Ret (mk_response (text_of C r) [] True) (after_put w l n1 m)"
  using kv_set_run [OF C g n put r] block_serviceD [OF C]
  by (simp add: setFile_def file_response_def flip: file_doc_def)

lemma setFile_sends:
  assumes C: "block_service C X pk" and g: "group_ok w es" "leader_of w es = Some l"
    and n: "nodes w l = Some n" "status n = LEADER"
    and u: "verify_jwt X pk (time_now X w) t = Some u"
    and put: "block_write X (quorum w) n u p (JStr d) (file_doc ver txt) = (Some r, n1, m)"
    and r: "silent r"
  shows "setFile C es p txt ver t d w = Ret (mk_response (text_of C r) [] True) (after_put w l n1 m)"
  by (rule setFile_run [OF C g n(1) _ r])
    (use n(2) u put block_serviceD [OF C] in \<open>simp add: block_put_def token_user_def\<close>)

lemma setFile_rejected:
  assumes C: "block_service C X pk" and g: "group_ok w es" "leader_of w es = Some l"
    and n: "nodes w l = Some n" "status n = LEADER"
    and t: "verify_jwt X pk (time_now X w) t = None"
  shows "setFile C es p txt ver t d w = Ret (mk_response (text_of C (failure ''Invalid token'')) [] True) w"
proof -
  have "block_put X pk (time_now X w) (quorum w) n (put_message p t d (text_of C (file_doc ver txt)))
      = (Some (failure ''Invalid token''), n, None)"
    using n t block_serviceD [OF C] by (simp add: block_put_def token_user_def)
  from setFile_run [OF C g n(1) this silent_replies(1)] show ?thesis
    using n(1) by (simp add: after_put_def fun_upd_idem)
qed

lemma setFile_current:
  assumes C: "block_service C X pk" and g: "group_ok w es" and q: "quorum w"
    and u: "verify_jwt X pk (time_now X w) t = Some u"
    and v: "held_version X (binding w es (u @ '':'' @ p)) = Some v"
  obtains r w1 where "setFile C es p txt (to_string v) t d w = Ret r w1" and "resp_success r"
    and "bound w w1 es (u @ '':'' @ p) (text_of C (file_doc (to_string (v + 1)) txt))
      [obj [(''user_id'', JStr u), (''path'', JStr p), (''device_id'', JStr d)]]"
proof -
  obtain l n where n: "leader_of w es = Some l" "nodes w l = Some n" "status n = LEADER" "binding w es = (\<lambda>k. DB n (JStr k))"
    by (rule leader_binding [OF g])
  let ?k = "u @ '':'' @ p" and ?text = "text_of C (file_doc (to_string (v + 1)) txt)"
  let ?np = "obj [(''key'', JStr ?k), (''value'', JStr ?text)]"
  let ?m = "Some (obj [(''user_id'', JStr u), (''path'', JStr p), (''device_id'', JStr d)])"
  have "block_write X (quorum w) n u p (JStr d) (file_doc (to_string v) txt)
      = (Some (success ?np), leader_after_put True n ?k ?text, ?m)"
    using block_write_versions [where X = X and n = n and u = u and p = p and v = v and b = True and dev = "JStr d" and i = v] v n(4) q block_serviceD [OF C]
    by (auto simp: block_store_def put_binding_def handle_put_confirmed)
  from setFile_sends [OF C g n(1,2,3) u this]
  have "setFile C es p txt (to_string v) t d w
      = Ret (mk_response (text_of C (success ?np)) [] True) (after_put w l (leader_after_put True n ?k ?text) ?m)"
    by simp
  then show ?thesis
    by (rule that) (use after_put_bound [OF g n(1,2), of ?k ?text ?m] in simp_all)
qed

lemma setFile_stale:
  assumes C: "block_service C X pk" and g: "group_ok w es"
    and u: "verify_jwt X pk (time_now X w) t = Some u"
    and v: "held_version X (binding w es (u @ '':'' @ p)) = Some v" "i \<noteq> v"
  shows "setFile C es p txt (to_string i) t d w
    = Ret (mk_response (text_of C (failure ''Version mismatch'')) [] True) w"
proof -
  obtain l n where n: "leader_of w es = Some l" "nodes w l = Some n" "status n = LEADER" "binding w es = (\<lambda>k. DB n (JStr k))"
    by (rule leader_binding [OF g])
  have "block_write X (quorum w) n u p (JStr d) (file_doc (to_string i) txt)
      = (Some (failure ''Version mismatch''), n, None)"
    using block_write_versions [where X = X and n = n and u = u and p = p and v = v and b = "quorum w" and dev = "JStr d" and i = i] v n(4) by auto
  from setFile_sends [OF C g n(1,2,3) u this] show ?thesis
    using n(2) by (simp add: after_put_def fun_upd_idem)
qed

section \<open>Downloads\<close>

lemma getFile_reply:
  assumes C: "block_service C X pk" and g: "group_ok w es" "leader_of w es = Some l"
    and n: "nodes w l = Some n"
    and req: "\<And>req. py_item req ''payload'' = Some (obj [(''key'', JStr p), (''token'', JStr t)]) \<Longrightarrow>
        block_get X pk (time_now X w) n req = Some r"
    and r: "silent r"
  shows "tryServers C es ''get''
    (obj [(''type'', JStr ''get''), (''payload'', obj [(''key'', JStr p), (''token'', JStr t)])]) w
    = Ret (mk_response (text_of C r) [] True) w"
  using block_send_get [OF C n(1) req] by (intro block_group [OF C g _ _ _ r]) simp_all

lemma getFile_held:
  assumes C: "block_service C X pk" and g: "group_ok w es"
    and u: "verify_jwt X pk (time_now X w) t = Some u"
    and b: "binding w es (u @ '':'' @ p) = Some (JStr (text_of C (file_doc ver txt)))"
    and kept: "txt \<noteq> DELETE_VALUE"
  obtains r where "getFile C es p t w = Ret r w" and "resp_success r"
    and "remote_file C (resp_value r) = Inr (Some (txt, ver))"
proof -
  obtain l n where n: "leader_of w es = Some l" "nodes w l = Some n" "status n = LEADER" "binding w es = (\<lambda>k. DB n (JStr k))"
    by (rule leader_binding [OF g])
  note D = block_serviceD [OF C]
  let ?doc = "file_doc ver txt"
  have "block_get X pk (time_now X w) n req = Some (success (JStr (text_of C ?doc)))"
    if "py_item req ''payload'' = Some (obj [(''key'', JStr p), (''token'', JStr t)])" for req
    using that n u b D by (simp add: block_get_def token_user_def truthy_def)
  note reply = getFile_reply [where p = p and t = t, OF C g n(1,2) this]
  have "kv_get_reply C (mk_response (text_of C (success (JStr (text_of C ?doc)))) [] True)
      = Inr (mk_response (text_of C ?doc) ''Success'' True)"
    using D kept by (simp add: kv_get_reply_def success_def) (simp add: file_doc_def)
  then have got: "getFile C es p t w = Ret (mk_response (text_of C ?doc) [] True) w"
    using reply D by (simp add: getFile_def kv_get_def Let_def)
  have "remote_file C (text_of C ?doc) = Inr (Some (txt, ver))"
    using D by (simp add: remote_file_def) (simp add: file_doc_def string_at_def get_string_def)
  then show thesis by (intro that [OF got]) simp_all
qed

text \<open>What a refusal looks like to the client.\<close>

lemma getFile_refused:
  assumes C: "block_service C X pk" and g: "group_ok w es" "leader_of w es = Some l"
    and n: "nodes w l = Some n"
    and req: "\<And>req. py_item req ''payload'' = Some (obj [(''key'', JStr p), (''token'', JStr t)]) \<Longrightarrow>
        block_get X pk (time_now X w) n req = Some (failure msg)"
  shows "getFile C es p t w = Ret (mk_response [] ''Error: Key does not exist'' False) w"
proof -
  have "kv_get_reply C (mk_response (text_of C (failure msg)) [] True) = Inr key_missing"
    using block_serviceD [OF C] by (simp add: kv_get_reply_def failure_def)
  then show ?thesis
    using getFile_reply [where p = p and t = t, OF C g n req silent_replies(1)]
    by (simp add: getFile_def kv_get_def Let_def key_missing_def)
qed

lemma getFile_deleted:
  assumes C: "block_service C X pk" and g: "group_ok w es"
    and u: "verify_jwt X pk (time_now X w) t = Some u"
    and b: "binding w es (u @ '':'' @ p) = Some (JStr DELETE_VALUE)"
  obtains r where "getFile C es p t w = Ret r w" and "\<not> resp_success r"
proof -
  obtain l n where n: "leader_of w es = Some l" "nodes w l = Some n" "status n = LEADER" "binding w es = (\<lambda>k. DB n (JStr k))"
    by (rule leader_binding [OF g])
  have "block_get X pk (time_now X w) n req = Some (success (JStr DELETE_VALUE))"
    if "py_item req ''payload'' = Some (obj [(''key'', JStr p), (''token'', JStr t)])" for req
    using that n u b by (simp add: block_get_def token_user_def truthy_def DELETE_VALUE_def)
  note reply = getFile_reply [where p = p and t = t, OF C g n(1,2) this]
  have "parse C DELETE_VALUE = Inl Json_parse_error"
    using C by (simp add: block_service_def parse_def)
  then have "kv_get_reply C (mk_response (text_of C (success (JStr DELETE_VALUE))) [] True)
      = Inl Json_parse_error"
    using block_serviceD [OF C] by (simp add: kv_get_reply_def success_def)
  then have got: "getFile C es p t w = Ret (mk_response [] (''JSON parsing error: '' @ what C Json_parse_error) False) w"
    using reply by (simp add: getFile_def kv_get_def Let_def)
  show thesis by (rule that [OF got]) simp
qed

section \<open>Deletions\<close>

lemma deleteFile_sends:
  assumes C: "block_service C X pk" and g: "group_ok w es" and q: "quorum w"
  obtains r w1 where "deleteFile C es k t d w = Ret r w1" and "resp_success r"
    and "bound w w1 es k DELETE_VALUE []"
proof -
  obtain l n where n: "leader_of w es = Some l" "nodes w l = Some n" "status n = LEADER" "binding w es = (\<lambda>k. DB n (JStr k))"
    by (rule leader_binding [OF g])
  let ?r = "success (obj [(''key'', JStr k), (''value'', JStr DELETE_VALUE)])"
  have "block_put X pk (time_now X w) (quorum w) n (put_message k t d DELETE_VALUE)
      = (Some ?r, leader_after_put True n k DELETE_VALUE, None)"
    using n q by (simp add: block_put_def block_delete_def put_binding_def handle_put_confirmed)
  from kv_set_run [OF C g n(1,2) this silent_replies(3)]
  have "deleteFile C es k t d w = Ret (mk_response (text_of C ?r) [] True)
      (after_put w l (leader_after_put True n k DELETE_VALUE) None)"
    by (simp add: deleteFile_def kv_del_def file_response_def)
  then show thesis
    by (rule that) (use after_put_bound [OF g n(1,2), of k DELETE_VALUE None] in simp_all)
qed

section \<open>What the client gets\<close>

text \<open>C32: A file uploaded by a user with a valid token under the version the servers hold (0 for a file
  they do not have) is stored with the next version: a download gives back the text and that version,
  no other key changes, and the metadata server is told which file of which user changed on which
  device.  The token verifies throughout, and the text is not the marker of a deletion, which the client
  reads as a file that does not exist.\<close>

theorem upload_then_download:
  assumes C: "block_service C X pk" and g: "group_ok w es" and q: "quorum w"
    and u: "\<And>now. verify_jwt X pk now t = Some u"
    and v: "held_version X (binding w es (u @ '':'' @ p)) = Some v"
    and kept: "txt \<noteq> DELETE_VALUE"
  shows "\<exists>r w1 r1. setFile C es p txt (to_string v) t d w = Ret r w1 \<and> resp_success r \<and>
    getFile C es p t w1 = Ret r1 w1 \<and> resp_success r1 \<and>
    remote_file C (resp_value r1) = Inr (Some (txt, to_string (v + 1))) \<and>
    held_version X (binding w1 es (u @ '':'' @ p)) = Some (v + 1) \<and>
    binding w1 es |` (- {u @ '':'' @ p}) = binding w es |` (- {u @ '':'' @ p}) \<and>
    confirmations w1 = confirmations w @
      [obj [(''user_id'', JStr u), (''path'', JStr p), (''device_id'', JStr d)]]"
proof -
  obtain r w1 where s: "setFile C es p txt (to_string v) t d w = Ret r w1" "resp_success r"
    "bound w w1 es (u @ '':'' @ p) (text_of C (file_doc (to_string (v + 1)) txt))
      [obj [(''user_id'', JStr u), (''path'', JStr p), (''device_id'', JStr d)]]"
    by (rule setFile_current [OF C g q u v])
  have b: "binding w1 es (u @ '':'' @ p) = Some (JStr (text_of C (file_doc (to_string (v + 1)) txt)))"
    and g1: "group_ok w1 es" using s(3) g by (simp_all add: bound_def)
  obtain r1 where "getFile C es p t w1 = Ret r1 w1" "resp_success r1"
    "remote_file C (resp_value r1) = Inr (Some (txt, to_string (v + 1)))"
    by (rule getFile_held [OF C g1 u b kept])
  moreover have "held_version X (binding w1 es (u @ '':'' @ p)) = Some (v + 1)"
    using b block_serviceD [OF C] by (simp add: held_version_def py_int_def)
  ultimately show ?thesis
    using s by (intro exI [of _ r] exI [of _ w1] exI [of _ r1]) (simp add: bound_def)
qed

text \<open>C33: An upload whose version is not the one the servers hold is refused, but the refusal is a reply with
  status 200 and the client does not read its code: the upload counts as successful, the servers keep
  what they had, and the client's record takes the text as uploaded under the next version.\<close>

theorem stale_upload_reported_as_success:
  assumes ok: "db_ok C view s" and m: "db_docs C view s k = Some (file_json m)" "fileName m = k"
    and es: "endpoints_alive C s k es" "es \<noteq> []" and tok: "token s \<noteq> []"
    and ver: "version m = to_string i" "int_min \<le> i" "i < int_max"
    and C: "block_service C X pk" and g: "group_ok (web s) es"
    and u: "verify_jwt X pk (time_now X (web s)) (token s) = Some u"
    and v: "held_version X (binding (web s) es (u @ '':'' @ k)) = Some v" "i \<noteq> v"
  shows "\<exists>t. uploadFile (Suc n) C k s = Ret True t \<and> web t = web s \<and>
    db_docs C view t k = Some (file_json (recorded C m (local_text s k) (to_string (i + 1))))"
proof -
  have "stoi (version m) = Inr i" using ver by (simp add: stoi_to_string)
  from upload_run [OF ok m es tok this ver(3), of "mk_response (text_of C (failure ''Version mismatch'')) [] True"]
  show ?thesis
    using setFile_stale [OF C g u v] ver(1) by (metis fun_upd_same response.select_convs(3))
qed

text \<open>C34: When a conflict merges, the merged text stays on the device: it is uploaded with the version the
  record had before, which the servers refuse; they keep the other device's text, while the client's
  record takes the merged text as uploaded.\<close>

theorem merged_text_stays_local:
  assumes ok: "db_ok C view s" and m: "db_docs C view s k = Some (file_json m)" "fileName m = k"
    and es: "endpoints_alive C s k es" "es \<noteq> []" and tok: "token s \<noteq> []"
    and ver: "version m = to_string i" "int_min \<le> i" "i < int_max"
    and C: "block_service C X pk" and g: "group_ok (web s) es"
    and u: "\<And>now. verify_jwt X pk now (token s) = Some u"
    and b: "binding (web s) es (u @ '':'' @ k) = Some (JStr (text_of C (file_doc (to_string v) theirs)))"
    and newer: "i \<noteq> v" and kept: "theirs \<noteq> DELETE_VALUE"
    and merge: "local_text s k \<noteq> theirs"
      "mergeCheck C (file_content m) (local_text s k) theirs = (True, merged)"
    and place: "can_write (fs s) (g_basePath s) k"
  shows "\<exists>t. Conflict (Suc (Suc n)) C k s = Ret () t \<and> web t = web s \<and> local_text t k = merged \<and>
    db_docs C view t k = Some (file_json (recorded C m merged (to_string (i + 1))))"
proof -
  have i: "stoi (version m) = Inr i" using ver by (simp add: stoi_to_string)
  have held: "held_version X (binding (web s) es (u @ '':'' @ k)) = Some v"
    using b block_serviceD [OF C] by (simp add: held_version_def py_int_def)
  obtain r where r: "getFile C es k (token s) (web s) = Ret r (web s)" "resp_success r"
    "remote_file C (resp_value r) = Inr (Some (theirs, to_string v))"
    by (rule getFile_held [OF C g u b kept])
  have "endpoints_alive C (s\<lparr>web := web s\<rparr>) k es" using es(1) by simp
  from merge_upload_run [OF ok m es tok r merge this i ver(3) _ _ place]
  show ?thesis
    using setFile_stale [OF C g u held newer] ver(1) by (metis fun_upd_same response.select_convs(3))
qed

text \<open>C35: Without a valid token nothing can be stored or read, but every file of every user can be deleted:
  the servers check the token of an upload and of a download and not that of a deletion.\<close>

theorem deletion_needs_no_token:
  assumes C: "block_service C X pk" and g: "group_ok w es" and q: "quorum w"
    and t: "\<And>now. verify_jwt X pk now t = None"
    and owner: "\<And>now. verify_jwt X pk now t' = Some u"
  shows "\<exists>r1 r2 r3 w3 r4. setFile C es p txt (to_string i) t d w = Ret r1 w \<and>
    getFile C es p t w = Ret r2 w \<and> \<not> resp_success r2 \<and>
    deleteFile C es (u @ '':'' @ p) t d w = Ret r3 w3 \<and> resp_success r3 \<and>
    getFile C es p t' w3 = Ret r4 w3 \<and> \<not> resp_success r4"
proof -
  obtain l n where n: "leader_of w es = Some l" "nodes w l = Some n" "status n = LEADER" "binding w es = (\<lambda>k. DB n (JStr k))"
    by (rule leader_binding [OF g])
  note set = setFile_rejected [OF C g n(1-3) t, of p "txt" "to_string i" d]
  have get: "getFile C es p t w = Ret (mk_response [] ''Error: Key does not exist'' False) w"
    by (rule getFile_refused [OF C g n(1,2), of _ _ "''Invalid token''"])
      (use n(3) t in \<open>simp add: block_get_def token_user_def\<close>)
  obtain r3 w3 where del: "deleteFile C es (u @ '':'' @ p) t d w = Ret r3 w3" "resp_success r3"
    "bound w w3 es (u @ '':'' @ p) DELETE_VALUE []" by (rule deleteFile_sends [OF C g q])
  then have g3: "group_ok w3 es" and b3: "binding w3 es (u @ '':'' @ p) = Some (JStr DELETE_VALUE)"
    using g by (simp_all add: bound_def)
  obtain r4 where "getFile C es p t' w3 = Ret r4 w3" "\<not> resp_success r4"
    by (rule getFile_deleted [OF C g3 owner b3])
  with set get del show ?thesis by force
qed

section \<open>Witnesses\<close>

definition block_meta :: "blocks meta_ext" where
  "block_meta = \<lparr>json_parse = toy_parse, json_dump = toy_dump, json_pretty = toy_dump,
     what = (\<lambda>_. ''what''), float_trunc = (\<lambda>_. 0), json_read = toy_parse, curl_init = (\<lambda>c. (True, c)),
     curl_perform = (\<lambda>_ _ _ w. (Curl_error ''down'', w)), shuffled = (\<lambda>ss c. (ss, c)),
     jwt_user = (\<lambda>t k n. if t = ''a.b.c'' then Some ''ann'' else None), hash = length, time_now = (\<lambda>_. 7)\<rparr>"

definition block_client :: "(blocks, (string, string) fmap) client_ext" where
  "block_client = toy_ext\<lparr>curl_perform := block_perform block_meta ''pk'',
     git_merge := (\<lambda>_ _ _. (0, Some (''both'', True)))\<rparr>"

lemma block_client_simps [simp]:
  "json_parse block_client = toy_parse" "json_dump block_client = toy_dump"
  "json_pretty block_client = toy_dump" "curl_perform block_client = block_perform block_meta ''pk''"
  "steady_now block_client = (\<lambda>_. 0)" "curl_init block_client = (\<lambda>c. (True, c))"
  "shuffled block_client = (\<lambda>ss c. (ss, c))" "json_parse block_meta = toy_parse"
  "json_dump block_meta = toy_dump"
  by (simp_all add: block_client_def toy_ext_def block_meta_def)

lemma block_client_service: "block_service block_client block_meta ''pk''"
proof -
  have "codec_total block_client" by (rule toy_codec_total) simp_all
  moreover have "toy_parse [] = None" "toy_parse DELETE_VALUE = None"
    by (simp_all add: toy_parse_def DELETE_VALUE_def)
  ultimately show ?thesis by (simp add: block_service_def)
qed

text \<open>A leader that holds version 7 of Ann's file, and a follower.\<close>

definition block_demo :: blocks where
  "block_demo =
     (let n = \<lparr>status = LEADER, leader = None,
               DB = string_db [''ann:dropbox/a.txt'' \<mapsto> JStr (enc (file_doc ''7'' ''theirs''))], log = [],
               commitIdx = 0, staged = None\<rparr>
      in \<lparr>nodes = [''s1'' \<mapsto> n, ''s2'' \<mapsto> n\<lparr>status := FOLLOWER, leader := Some ''s1''\<rparr>], quorum = True, confirmations = []\<rparr>)"

lemma block_demo_group:
  "group_ok block_demo [''s1'']" "group_ok block_demo [''s2'', ''s1'']" "quorum block_demo"
  "confirmations block_demo = []"
  by (simp_all add: block_demo_def group_ok_def leader_of_def leads_to_def is_leader_def)

lemma block_demo_binding:
  "es = [''s1''] \<or> es = [''s2'', ''s1''] \<Longrightarrow>
     binding block_demo es (''ann'' @ '':'' @ ''dropbox/a.txt'') = Some (JStr (enc (file_doc (to_string 7) ''theirs'')))"
proof -
  have "to_string 7 = ''7''" by code_simp
  then show "es = [''s1''] \<or> es = [''s2'', ''s1''] \<Longrightarrow>
     binding block_demo es (''ann'' @ '':'' @ ''dropbox/a.txt'') = Some (JStr (enc (file_doc (to_string 7) ''theirs'')))"
    by (auto simp: binding_def leader_of_def is_leader_def block_demo_def)
qed

lemma block_demo_held:
  assumes "es = [''s1''] \<or> es = [''s2'', ''s1'']"
  shows "held_version block_meta (binding block_demo es (''ann'' @ '':'' @ ''dropbox/a.txt'')) = Some 7"
proof -
  have "enc (file_doc x ''theirs'') \<noteq> DELETE_VALUE" for x
    by (simp add: file_doc_def obj_def DELETE_VALUE_def Let_def)
  then show ?thesis
    using block_demo_binding [OF assms] by (simp add: held_version_def py_int_def del: enc.simps append.simps)
qed

lemma block_demo_tokens:
  "verify_jwt block_meta ''pk'' now ''a.b.c'' = Some ''ann''" "verify_jwt block_meta ''pk'' now [] = None"
  by (simp_all add: verify_jwt_def block_meta_def)

theorem upload_then_download_witness:
  "\<exists>w1 r1. getFile block_client [''s2'', ''s1''] ''dropbox/a.txt'' ''a.b.c'' w1 = Ret r1 w1 \<and>
    remote_file block_client (resp_value r1) = Inr (Some (''mine'', to_string 8)) \<and>
    confirmations w1 = [obj [(''user_id'', JStr ''ann''), (''path'', JStr ''dropbox/a.txt''), (''device_id'', JStr ''d1'')]]"
  using upload_then_download [OF block_client_service block_demo_group(2,3) block_demo_tokens(1), of "''dropbox/a.txt''"
      7 "''mine''" "''d1''"] block_demo_held [of "[''s2'', ''s1'']"] block_demo_group(4)
  by (force simp: DELETE_VALUE_def)

theorem deletion_needs_no_token_witness:
  "\<exists>r2 r3 w3 r4. getFile block_client [''s2'', ''s1''] ''dropbox/a.txt'' [] block_demo = Ret r2 block_demo \<and>
    \<not> resp_success r2 \<and>
    deleteFile block_client [''s2'', ''s1''] ''ann:dropbox/a.txt'' [] ''d9'' block_demo = Ret r3 w3 \<and> resp_success r3 \<and>
    getFile block_client [''s2'', ''s1''] ''dropbox/a.txt'' ''a.b.c'' w3 = Ret r4 w3 \<and> \<not> resp_success r4"
  using deletion_needs_no_token [OF block_client_service block_demo_group(2,3) block_demo_tokens(2,1), of
      "''dropbox/a.txt''" "''x''" 0 "''d9''"] by auto

text \<open>Ann's client with version 4 of the file on record.\<close>

definition behind :: "(blocks, (string, string) fmap) client" where
  "behind = (online_at block_demo [(''dropbox/a.txt'', file_json old_file)])\<lparr>token := ''a.b.c''\<rparr>"

lemma behind_ok:
  "db_ok block_client fmlookup behind" "db_docs block_client fmlookup behind ''dropbox/a.txt'' = Some (file_json old_file)"
  "endpoints_alive block_client behind ''dropbox/a.txt'' [''s1'']" "token behind = ''a.b.c''" "web behind = block_demo"
  "local_text behind k = []"
proof -
  have "codec_total block_client" by (rule toy_codec_total) simp_all
  then show "db_ok block_client fmlookup behind"
    using toy_rocks_ok by (simp add: db_ok_def rocks_ok_def block_client_def behind_def online_def toy_client_def)
  show "db_docs block_client fmlookup behind ''dropbox/a.txt'' = Some (file_json old_file)"
    by (simp add: db_docs_def behind_def online_def toy_client_def toy_db_of_def)
  show "endpoints_alive block_client behind ''dropbox/a.txt'' [''s1'']"
    using online_alive [of True True "[(''dropbox/a.txt'', file_json old_file)]"]
    by (simp add: endpoints_alive_def behind_def)
  show "token behind = ''a.b.c''" "web behind = block_demo" by (simp_all add: behind_def)
  show "local_text behind k = []"
    by (simp add: behind_def local_text_def read_file_def node_at_def split: option.split)
qed

theorem stale_upload_reported_as_success_witness:
  "\<exists>t. uploadFile 1 block_client ''dropbox/a.txt'' behind = Ret True t \<and> web t = block_demo \<and>
    db_docs block_client fmlookup t ''dropbox/a.txt''
      = Some (file_json (recorded block_client old_file [] (to_string 5)))"
proof -
  have "version old_file = to_string 4" by code_simp
  with stale_upload_reported_as_success [OF behind_ok(1,2) _ behind_ok(3) _ _ _ _ _ block_client_service, of 4 "''ann''" 7 0]
  show ?thesis
    using behind_ok(4,5,6) block_demo_group(1) block_demo_tokens(1) block_demo_held [of "[''s1'']"]
    by (simp add: int_min_def int_max_def)
qed

theorem merged_text_stays_local_witness:
  "\<exists>t. Conflict 2 block_client ''dropbox/a.txt'' behind = Ret () t \<and> web t = block_demo \<and>
    local_text t ''dropbox/a.txt'' = ''both''"
proof -
  have version: "version old_file = to_string 4" by code_simp
  have merge: "mergeCheck block_client b l r = (True, ''both'')" for b l r
    by (simp add: mergeCheck_def block_client_def)
  have txt_of: "text_of block_client j = enc j" for j by (simp add: text_of_def toy_dump_def)
  have place: "fs behind = fmempty" "g_basePath behind = ''/h/''" by (simp_all add: behind_def)
  show ?thesis
    using merged_text_stays_local [OF behind_ok(1,2) _ behind_ok(3) _ _ version _ _ block_client_service, of
        "''ann''" 7 "''theirs''" "''both''" 0]
      behind_ok(4,5,6) block_demo_group(1) block_demo_tokens(1) block_demo_binding [of "[''s1'']"] merge place
      online_paths(1)
    by (auto simp: int_min_def int_max_def txt_of DELETE_VALUE_def numeral_2_eq_2 simp del: enc.simps append.simps Conflict.simps)
qed

end
