(* ===== verification/Client_Meta.thy ===== *)
theory Client_Meta
  imports Boot_Props Client_Events Metaserver_Tree Block_Props
begin

text \<open>
  The client against the metadata server: its requests are answered by the server's handlers, and the
  events of its own directory change its record and the user's namespace on the server alike.
\<close>

section \<open>Requests\<close>

text \<open>The world of a client: storage servers for texts, and the metadata server with its storage nodes.\<close>

record services = blocks +
  meta_state :: "cluster mstate"

abbreviation server :: "(services, 'd) client \<Rightarrow> cluster mstate" where
  "server s \<equiv> meta_state (web s)"

abbreviation put_server :: "cluster mstate \<Rightarrow> (services, 'd) client \<Rightarrow> (services, 'd) client" where
  "put_server v s \<equiv> s\<lparr>web := (web s)\<lparr>meta_state := v\<rparr>\<rparr>"

text \<open>What a POST does when the server answers it; the headers are those of the request.\<close>

definition meta_perform :: "(cluster, 'x) meta_ext_scheme \<Rightarrow> string \<Rightarrow> (string \<times> string) list \<Rightarrow> string \<Rightarrow>
    services \<Rightarrow> (int \<times> string) option \<times> services" where
  "meta_perform M endpoint hs body w =
     (case serve M endpoint \<lparr>req_header = map_of hs, req_body = body\<rparr> (meta_state w) of
        Ret r v \<Rightarrow> (Some (res_status r, res_body r), w\<lparr>meta_state := v\<rparr>)
      | _ \<Rightarrow> (None, w))"

text \<open>
  \<open>C\<close> are the client's libraries and \<open>M\<close> the server's, at the address \<open>addr\<close>.  The texts the
  server writes by hand are objects.
\<close>

definition is_object_text :: "('x) codec_scheme \<Rightarrow> string \<Rightarrow> bool" where
  "is_object_text C b \<longleftrightarrow> (\<exists>m. json_parse C b = Some (JObj m))"

definition meta_service ::
  "(services, 'd, 'y) client_ext_scheme \<Rightarrow> (cluster, 'x) meta_ext_scheme \<Rightarrow> string \<times> nat \<Rightarrow> bool" where
  "meta_service C M addr \<longleftrightarrow>
     codec_total C \<and> json_parse M = json_parse C \<and> json_dump M = json_dump C \<and> marker_not_json M \<and>
     (\<forall>endpoint hs body w. http_post C (fst addr) (snd addr) endpoint hs body w = meta_perform M endpoint hs body w) \<and>
     is_object_text C ''{\"message\": \"Path deleted\"}'' \<and>
     (\<forall>j. is_object_text C (''{\"message\": \"File created\", \"metadata\": '' @ text_of C j @ ''}'')) \<and>
     (\<forall>j. is_object_text C (''{\"message\": \"Directory created\", \"metadata\": '' @ text_of C j @ ''}''))"

lemma meta_serviceD:
  assumes "meta_service C M addr"
  shows "codec_total C" and "marker_not_json M"
    and "http_post C (fst addr) (snd addr) endpoint hs body w = meta_perform M endpoint hs body w"
    and "is_object_text C ''{\"message\": \"Path deleted\"}''"
    and "is_object_text C (''{\"message\": \"Directory created\", \"metadata\": '' @ text_of M j @ ''}'')"
    and "json_parse M (text_of C j) = Some j"
    and "is_object_text C (''{\"message\": \"File created\", \"metadata\": '' @ text_of M j @ ''}'')"
    and "json_parse C (text_of M j) = Some j"
  using assms codec_total_parse [of C j] by (simp_all add: meta_service_def text_of_def)

definition request_of ::
  "(services, 'd, 'y) client_ext_scheme \<Rightarrow> (services, 'd) client \<Rightarrow> string \<Rightarrow> http_request" where
  "request_of C s k = \<lparr>req_header = map_of (auth_headers (token s)),
     req_body = text_of C (obj [(''path'', JStr k), (''device_id'', JStr (device_id s))])\<rparr>"

text \<open>A client that is logged in as the user at that server.\<close>

definition logged_in :: "(cluster, 'x) meta_ext_scheme \<Rightarrow> string \<times> nat \<Rightarrow> string \<Rightarrow> (services, 'd) client \<Rightarrow> bool" where
  "logged_in M addr u s \<longleftrightarrow> meta_lb s = addr \<and> token s \<noteq> [] \<and>
     verify_jwt M (public_key (init (server s))) (time_now M (net (server s))) (token s) = Some u"

lemma request_for_of:
  assumes "meta_service C M addr" shows "request_for M (request_of C s k) k (device_id s)"
  using meta_serviceD(6) [OF assms] by (simp add: request_for_def request_of_def string_at_def)

lemma asks_as_of: "logged_in M addr u s \<Longrightarrow> asks_as M (server s) (request_of C s k) u"
  by (simp add: logged_in_def asks_as_def authenticate_request_def request_of_def auth_headers_def bearer_token_def)

lemma request_payload:
  "set_key (path_payload k) ''device_id'' (JStr d) = Inr (obj [(''path'', JStr k), (''device_id'', JStr d)])"
  by (auto simp: path_payload_def set_key_def obj_def intro!: fmap_ext)

lemma ask_meta_read:
  assumes C: "meta_service C M addr" and s: "logged_in M addr u s"
    and r: "serve M endpoint (request_of C s k) (server s) = Ret (reply 200 b) w" "parse_body C b = Inr (JObj m)"
  shows "ask_meta C endpoint k s = Ret (JObj m) (put_server w s)"
proof -
  have "dump C j = Inr (text_of C j)" for j
    using codec_total_dump [OF meta_serviceD(1) [OF C]] by (simp add: dump_def)
  moreover have "json_pretty C j \<noteq> None" for j
    using meta_serviceD(1) [OF C] unfolding codec_total_def by (metis option.distinct(1))
  moreover have "meta_lb s = addr" "token s \<noteq> []" using s by (simp_all add: logged_in_def)
  ultimately show ?thesis
    using r meta_serviceD(3) [OF C]
    by (simp add: ask_meta_def makeRequest_def request_payload send_authorized_def post_def on_web_def
        meta_perform_def request_of_def log_json_def zoom_def call_def split: option.split)
qed

lemma ask_meta_parsed:
  assumes "meta_service C M addr" and "logged_in M addr u s"
    and "serve M endpoint (request_of C s k) (server s) = Ret (reply 200 b) w" "json_parse C b = Some (JObj m)"
  shows "ask_meta C endpoint k s = Ret (JObj m) (put_server w s)"
  using assms(4) by (intro ask_meta_read [OF assms(1-3)]) (simp add: parse_body_def parse_def)

lemma ask_meta_run:
  assumes "meta_service C M addr" and "logged_in M addr u s"
    and "serve M endpoint (request_of C s k) (server s) = Ret (reply 200 b) w" "is_object_text C b"
  shows "\<exists>m. ask_meta C endpoint k s = Ret (JObj m) (put_server w s)"
  using ask_meta_parsed [OF assms(1-3)] assms(4) unfolding is_object_text_def by blast

section \<open>The record and the namespace in step\<close>

text \<open>
  Every directory on the client's record is a directory of the user on the server with the same lists.
\<close>

definition same_lists :: "dir_meta \<Rightarrow> json \<Rightarrow> bool" where
  "same_lists dm D \<longleftrightarrow> lists_field ''files'' D \<and> lists_field ''subdirectories'' D \<and>
     entries ''files'' D = map JStr (files dm) \<and> entries ''subdirectories'' D = map JStr (directories dm)"

definition in_step :: "(services, 'd, 'y) client_ext_scheme \<Rightarrow> ('d \<Rightarrow> string \<rightharpoonup> string) \<Rightarrow>
    (cluster, 'x) meta_ext_scheme \<Rightarrow> string \<Rightarrow> (services, 'd) client \<Rightarrow> bool" where
  "in_step C view M u s \<longleftrightarrow> (\<forall>k dm. db_docs C view s k = Some (dir_json dm) \<longrightarrow>
     directoryName dm = k \<and> (\<exists>D. docs M (server s) (user_key u k) = Some D \<and> same_lists dm D))"

lemma in_stepE:
  assumes "in_step C view M u s" and "db_docs C view s k = Some (dir_json dm)"
  obtains D where "directoryName dm = k" and "docs M (server s) (user_key u k) = Some D" and "same_lists dm D"
  using assms unfolding in_step_def by blast

lemma dir_json_inj [simp]: "dir_json a = dir_json b \<longleftrightarrow> a = b"
  by (metis dir_of_dir_json sum.inject(2))

lemma same_lists_new: "same_lists (Directory_Metadata k) (dir_metadata u now)"
  by (simp add: same_lists_def Directory_Metadata_def)

lemma entries_update [simp]:
  "lists_field f D \<Longrightarrow> entries f (with_entry f p D) = entries f D @ [JStr p]"
  "lists_field f D \<Longrightarrow> entries f (without_entry f p D) = removeAll (JStr p) (entries f D)"
  by (auto elim!: lists_fieldE simp: entries_def with_entry_def without_entry_def)

lemma removeAll_map_JStr: "removeAll (JStr k) (map JStr xs) = map JStr (removeAll k xs)"
  by (induction xs) auto

lemma same_lists_create:
  "same_lists dm D \<Longrightarrow> same_lists (dm\<lparr>directories := directories dm @ [k]\<rparr>) (with_entry ''subdirectories'' k D)"
  by (simp add: same_lists_def)

text \<open>The listing of the parent after an entry of the kind its name says is gone.\<close>

definition unlisted :: "string \<Rightarrow> dir_meta \<Rightarrow> dir_meta" where
  "unlisted k dm = (if is_txt k then dm\<lparr>files := removeAll k (files dm)\<rparr>
     else dm\<lparr>directories := removeAll k (directories dm)\<rparr>)"

lemma same_lists_remove:
  "same_lists dm D \<Longrightarrow> same_lists (unlisted k dm) (without_entry (fst (deletion_kind k)) k D)"
  by (simp add: same_lists_def unlisted_def deletion_kind_def removeAll_map_JStr)

lemma db_docs_view: "db_docs C view s k = Option.bind (db_view view s k) (json_parse C)"
  by (simp add: db_docs_def db_view_def split: option.split)

section \<open>A directory is created\<close>

text \<open>What the server does when a client asks for a new directory or file in a directory it knows.\<close>

lemma directory_asked:
  assumes C: "meta_service C M addr" and s: "logged_in M addr u s" "ready M (server s)"
    and par: "parent_of k = Some q" "docs M (server s) (user_key u q) = Some D" "same_lists dm D"
    and new: "meta_view M (server s) (user_key u k) = None"
  obtains j v where "createDir C k s = Ret j (put_server v s)" and "ready M v" and "init v = init (server s)"
    and "outbox v = outbox (server s) @ notified (server s) (notification ''DIR+'' u k (device_id s))"
    and "docs M v = (docs M (server s))(user_key u k \<mapsto> dir_metadata u (time_now M (net (server s))),
        user_key u q \<mapsto> with_entry ''subdirectories'' k D)"
    and "dom (meta_view M v) = insert (user_key u k) (dom (meta_view M (server s)))"
proof -
  from create_directory_runs [OF s(2) meta_serviceD(2) [OF C] asks_as_of [OF s(1)] request_for_of [OF C] new par(1,2)]
  obtain c where run: "create_directory M (request_of C s k) (server s)
      = Ret (reply 200 (''{\"message\": \"Directory created\", \"metadata\": '' @
             text_of M (dir_metadata u (time_now M (net (server s)))) @ ''}''))
          ((server s)\<lparr>net := c, outbox := outbox (server s) @ notified (server s) (notification ''DIR+'' u k (device_id s))\<rparr>)"
      (is "_ = Ret ?r ?w")
    and ok: "store_ok M ((server s)\<lparr>net := c\<rparr>)"
    and dom: "dom (meta_view M ((server s)\<lparr>net := c\<rparr>)) = insert (user_key u k) (dom (meta_view M (server s)))"
    and N: "docs M ((server s)\<lparr>net := c\<rparr>) = (docs M (server s))(user_key u k \<mapsto> dir_metadata u (time_now M (net (server s))),
        user_key u q \<mapsto> with_entry ''subdirectories'' k D)"
    using par(3) unfolding same_lists_def by blast
  have "serve M ''/create-directory'' (request_of C s k) (server s) = Ret ?r ?w"
    using run by (simp add: serve_def route_def)
  from ask_meta_run [OF C s(1) this meta_serviceD(5) [OF C]] obtain m where
    "createDir C k s = Ret (JObj m) (put_server ?w s)" unfolding createDir_def by blast
  moreover have "docs M ?w = docs M ((server s)\<lparr>net := c\<rparr>)" by (simp add: docs_def fun_eq_iff)
  ultimately show thesis
    using s(2) ok dom N by (intro that [of "JObj m" ?w]) (simp_all add: ready_def store_ok_def)
qed

lemma file_asked:
  assumes C: "meta_service C M addr" and s: "logged_in M addr u s" "ready M (server s)"
    and par: "parent_of k = Some q" "docs M (server s) (user_key u q) = Some D" "same_lists dm D"
    and new: "meta_view M (server s) (user_key u k) = None"
  obtains j v where "createFile C k s = Ret j (put_server v s)" and "ready M v" and "init v = init (server s)"
    and "outbox v = outbox (server s) @ notified (server s) (notification ''FILE+'' u k (device_id s))"
    and "docs M v = (docs M (server s))(user_key u k \<mapsto> file_metadata u (time_now M (net (server s))) q k,
        user_key u q \<mapsto> with_entry ''files'' k D)"
    and "dom (meta_view M v) = insert (user_key u k) (dom (meta_view M (server s)))"
proof -
  let ?F = "file_metadata u (time_now M (net (server s))) q k"
  from create_file_runs [OF s(2) meta_serviceD(2) [OF C] asks_as_of [OF s(1)] request_for_of [OF C] new par(1,2)]
  obtain c where run: "create_file M (request_of C s k) (server s)
      = Ret (reply 200 (''{\"message\": \"File created\", \"metadata\": '' @ text_of M ?F @ ''}''))
          ((server s)\<lparr>net := c, outbox := outbox (server s) @ notified (server s) (notification ''FILE+'' u k (device_id s))\<rparr>)"
      (is "_ = Ret ?r ?w")
    and ok: "store_ok M ((server s)\<lparr>net := c\<rparr>)"
    and dom: "dom (meta_view M ((server s)\<lparr>net := c\<rparr>)) = insert (user_key u k) (dom (meta_view M (server s)))"
    and N: "docs M ((server s)\<lparr>net := c\<rparr>) = (docs M (server s))(user_key u k \<mapsto> ?F, user_key u q \<mapsto> with_entry ''files'' k D)"
    using par(3) unfolding same_lists_def by blast
  have "serve M ''/create-file'' (request_of C s k) (server s) = Ret ?r ?w"
    using run by (simp add: serve_def route_def)
  from ask_meta_run [OF C s(1) this meta_serviceD(7) [OF C]] obtain m where
    "createFile C k s = Ret (JObj m) (put_server ?w s)" unfolding createFile_def by blast
  moreover have "docs M ?w = docs M ((server s)\<lparr>net := c\<rparr>)" by (simp add: docs_def fun_eq_iff)
  ultimately show thesis
    using s(2) ok dom N by (intro that [of "JObj m" ?w]) (simp_all add: ready_def store_ok_def)
qed

lemma directory_created_run:
  assumes C: "meta_service C M addr" and s: "logged_in M addr u s" "db_ok C view s" "in_step C view M u s" "ready M (server s)"
    and par: "parent_of k = Some q" "db_docs C view s q = Some (dir_json dm)" "k \<notin> set (directories dm)"
    and new: "db_view view s k = None" "meta_view M (server s) (user_key u k) = None"
  obtains e w where "create_directory_local C k s = Ret () (put_server w (s\<lparr>db := Some e\<rparr>))"
    and "in_step C view M u (put_server w (s\<lparr>db := Some e\<rparr>))" and "ready M w"
    and "outbox w = outbox (server s) @ notified (server s) (notification ''DIR+'' u k (device_id s))"
    and "db_docs C view (put_server w (s\<lparr>db := Some e\<rparr>)) = (db_docs C view s)
       (q \<mapsto> dir_json (dm\<lparr>directories := directories dm @ [k]\<rparr>), k \<mapsto> dir_json (Directory_Metadata k))"
proof -
  obtain D where name: "directoryName dm = q" and D: "docs M (server s) (user_key u q) = Some D" "same_lists dm D"
    by (rule in_stepE [OF s(3) par(2)])
  have load: "dir_load C (Directory_Metadata k) s = Ret None s"
    using dir_load_None [OF s(2) new(1)] .
  obtain e1 where e1: "addDirectoryToDirectory C k s = Ret True (s\<lparr>db := Some e1\<rparr>)"
    "db_docs C view (s\<lparr>db := Some e1\<rparr>) = (db_docs C view s)(q \<mapsto> dir_json (dm\<lparr>directories := directories dm @ [k]\<rparr>))"
    using listing_operations [OF s(2) par(1,2) name] par(3) by auto
  let ?s1 = "s\<lparr>db := Some e1\<rparr>"
  have s1: "logged_in M addr u ?s1" "server ?s1 = server s" "device_id ?s1 = device_id s" using s(1) by (simp_all add: logged_in_def)
  obtain j w where asked: "createDir C k ?s1 = Ret j (put_server w ?s1)" and w: "ready M w"
    "outbox w = outbox (server s) @ notified (server s) (notification ''DIR+'' u k (device_id s))"
    and N: "docs M w = (docs M (server s))(user_key u k \<mapsto> dir_metadata u (time_now M (net (server s))),
        user_key u q \<mapsto> with_entry ''subdirectories'' k D)"
    using directory_asked [OF C s1(1) _ par(1) _ D(2)] s(4) D(1) new(2) unfolding s1(2,3) by metis
  have ok2: "db_ok C view (put_server w ?s1)" using s(2) by (simp add: db_ok_def)
  obtain e2 where e2: "db_store C k (dir_json (Directory_Metadata k)) (put_server w ?s1)
      = Ret True ((put_server w ?s1)\<lparr>db := Some e2\<rparr>)"
    "db_docs C view ((put_server w ?s1)\<lparr>db := Some e2\<rparr>) = (db_docs C view (put_server w ?s1))(k \<mapsto> dir_json (Directory_Metadata k))"
    by (rule db_storeE [OF ok2])
  let ?t = "put_server w (s\<lparr>db := Some e2\<rparr>)"
  have t: "(put_server w ?s1)\<lparr>db := Some e2\<rparr> = ?t" by simp
  have docs_t: "db_docs C view ?t = (db_docs C view s)
      (q \<mapsto> dir_json (dm\<lparr>directories := directories dm @ [k]\<rparr>), k \<mapsto> dir_json (Directory_Metadata k))"
    using e2(2) e1(2) unfolding t by simp
  have kq: "q \<noteq> k" by (rule parent_of_neq [OF par(1)])
  show thesis
  proof (rule that [of w e2])
    show "create_directory_local C k s = Ret () ?t"
      using load e1(1) asked e2(1) t
      by (simp add: create_directory_local_def createDir_def dir_store_def Directory_Metadata_def)
    show "ready M w" by (rule w(1))
    show "in_step C view M u ?t"
      unfolding in_step_def docs_t
    proof (intro allI impI)
      fix k' dm' assume k': "((db_docs C view s)(q \<mapsto> dir_json (dm\<lparr>directories := directories dm @ [k]\<rparr>),
          k \<mapsto> dir_json (Directory_Metadata k))) k' = Some (dir_json dm')"
      consider (new) "k' = k" | (parent) "k' = q" "k' \<noteq> k" | (other) "k' \<noteq> q" "k' \<noteq> k" by blast
      then show "directoryName dm' = k' \<and> (\<exists>D. docs M (server ?t) (user_key u k') = Some D \<and> same_lists dm' D)"
      proof cases
        case new
        with k' have "dm' = Directory_Metadata k" by simp
        with new N kq show ?thesis by (simp add: same_lists_new [unfolded Directory_Metadata_def] Directory_Metadata_def)
      next
        case parent
        with k' have "dm' = dm\<lparr>directories := directories dm @ [k]\<rparr>" by simp
        with parent N name same_lists_create [OF D(2)] show ?thesis by simp
      next
        case other
        with k' have "db_docs C view s k' = Some (dir_json dm')" by simp
        from in_stepE [OF s(3) this] obtain D' where
          "directoryName dm' = k'" "docs M (server s) (user_key u k') = Some D'" "same_lists dm' D'" by blast
        with other N show ?thesis by simp
      qed
    qed
  qed (use docs_t w in simp_all)
qed

section \<open>An entry is removed\<close>

text \<open>What the client does to its record: the document of the entry goes, with those below a directory.\<close>

lemma entry_dropped:
  assumes s: "db_ok C view s" "record_ok C N (db_view view s)" "N < n" and kind: "ft = (if is_txt k then FileT else DirectoryT)"
    and par: "parent_of k = Some q" "db_docs C view s q = Some (dir_json dm)" "directoryName dm = q"
  obtains e where "delete_event n C k ft s = ignore (deleteFile_meta C k) (s\<lparr>db := Some e\<rparr>)"
    and "db_docs C view (s\<lparr>db := Some e\<rparr>) \<subseteq>\<^sub>m (db_docs C view s)(q \<mapsto> dir_json (unlisted k dm))"
    and "db_docs C view (s\<lparr>db := Some e\<rparr>) k = None"
    and "db_docs C view (s\<lparr>db := Some e\<rparr>) q = Some (dir_json (unlisted k dm))"
proof -
  have short: "length q < length k" by (rule parent_of_shorter [OF par(1)])
  have qk: "q \<noteq> k" using short by auto
  define rm where "rm = (if is_txt k then removeFileFromDatabase C k else removeDirectoryFromDatabase n C k)"
  have "\<exists>b e. rm s = Ret b (s\<lparr>db := Some e\<rparr>) \<and> view e \<subseteq>\<^sub>m db_view view s \<and> view e k = None \<and>
      view e q = db_view view s q"
  proof (cases "is_txt k")
    case True
    obtain e where "db_remove C k s = Ret True (s\<lparr>db := Some e\<rparr>)" "view e = (db_view view s)(k := None)"
      by (rule db_removeE' [OF s(1)])
    with True qk show ?thesis
      by (intro exI [of _ True] exI [of _ e]) (auto simp: rm_def removeFileFromDatabase_def map_le_def)
  next
    case False
    have "N - length k < n" using s(3) by simp
    from removesE [OF removes_all [where rank = "\<lambda>k. N - length k", OF this] s(1) record_decodes [OF s(2)] record_ranked [OF s(2)]]
    obtain b e where e: "removeDirectoryFromDatabase n C k s = Ret b (s\<lparr>db := Some e\<rparr>)"
      "removed_from C (db_view view s) k (view e)" by blast
    have "\<not> at_or_below k q" using short by (auto simp: at_or_below_def prefix_def)
    then have "view e q = db_view view s q"
      using e(2) record_listed_below [OF s(2)] unfolding removed_from_def map_le_def by (metis domIff)
    with e False show ?thesis by (intro exI [of _ b] exI [of _ e]) (simp add: rm_def removed_from_def)
  qed
  then obtain b e1 where e1: "rm s = Ret b (s\<lparr>db := Some e1\<rparr>)" "view e1 \<subseteq>\<^sub>m db_view view s" "view e1 k = None"
    "view e1 q = db_view view s q" by blast
  let ?s1 = "s\<lparr>db := Some e1\<rparr>"
  have v1: "db_view view ?s1 = view e1" by (simp add: db_view_def)
  have docs1: "db_docs C view ?s1 \<subseteq>\<^sub>m db_docs C view s" "db_docs C view ?s1 k = None"
    "db_docs C view ?s1 q = Some (dir_json dm)"
    using e1(2-4) par(2) unfolding db_docs_view map_le_def dom_def v1 by (auto split: Option.bind_splits)
  have "\<exists>e. (if is_txt k then removeFileFromDirectory C k else removeDirectoryFromDirectory C k) ?s1
      = Ret True (s\<lparr>db := Some e\<rparr>) \<and>
    db_docs C view (s\<lparr>db := Some e\<rparr>) = (db_docs C view ?s1)(q \<mapsto> dir_json (unlisted k dm))"
    using listing_operations [OF db_ok_db [OF s(1)] par(1) docs1(3) par(3)] by (auto simp: unlisted_def)
  then obtain e where e: "(if is_txt k then removeFileFromDirectory C k else removeDirectoryFromDirectory C k) ?s1
      = Ret True (s\<lparr>db := Some e\<rparr>)"
    "db_docs C view (s\<lparr>db := Some e\<rparr>) = (db_docs C view ?s1)(q \<mapsto> dir_json (unlisted k dm))" by blast
  show thesis
  proof (rule that [of e])
    show "delete_event n C k ft s = ignore (deleteFile_meta C k) (s\<lparr>db := Some e\<rparr>)"
    proof (cases "is_txt k")
      case True
      with e1(1) e(1) kind show ?thesis by (simp add: delete_event_def rm_def)
    next
      case False
      with e1(1) e(1) kind show ?thesis by (simp add: delete_event_def rm_def)
    qed
    show "db_docs C view (s\<lparr>db := Some e\<rparr>) \<subseteq>\<^sub>m (db_docs C view s)(q \<mapsto> dir_json (unlisted k dm))"
      unfolding e(2) using docs1(1) by (auto simp: map_le_def)
  qed (use e(2) docs1(2) qk in auto)
qed

lemma entry_removed_run:
  assumes C: "meta_service C M addr" and s: "logged_in M addr u s" "db_ok C view s" "in_step C view M u s" "ready M (server s)"
    and rec: "record_ok C N (db_view view s)" "N < n" and kind: "ft = (if is_txt k then FileT else DirectoryT)"
    and par: "parent_of k = Some q" "db_docs C view s q = Some (dir_json dm)"
    and old: "meta_view M (server s) (user_key u k) \<noteq> None"
  obtains e w where "delete_event n C k ft s = Ret () (put_server w (s\<lparr>db := Some e\<rparr>))"
    and "in_step C view M u (put_server w (s\<lparr>db := Some e\<rparr>))" and "ready M w"
    and "outbox w = outbox (server s) @ notified (server s) (notification (snd (deletion_kind k)) u k (device_id s))"
    and "db_docs C view (put_server w (s\<lparr>db := Some e\<rparr>)) k = None"
    and "db_docs C view (put_server w (s\<lparr>db := Some e\<rparr>)) q = Some (dir_json (unlisted k dm))"
proof -
  obtain D where name: "directoryName dm = q" and D: "docs M (server s) (user_key u q) = Some D" "same_lists dm D"
    by (rule in_stepE [OF s(3) par(2)])
  obtain e where e: "delete_event n C k ft s = ignore (deleteFile_meta C k) (s\<lparr>db := Some e\<rparr>)"
    "db_docs C view (s\<lparr>db := Some e\<rparr>) \<subseteq>\<^sub>m (db_docs C view s)(q \<mapsto> dir_json (unlisted k dm))"
    "db_docs C view (s\<lparr>db := Some e\<rparr>) k = None"
    "db_docs C view (s\<lparr>db := Some e\<rparr>) q = Some (dir_json (unlisted k dm))"
    by (rule entry_dropped [OF s(2) rec kind par name])
  let ?s1 = "s\<lparr>db := Some e\<rparr>"
  have s1: "logged_in M addr u ?s1" "request_of C ?s1 k = request_of C s k" "server ?s1 = server s"
    using s(1) by (simp_all add: logged_in_def request_of_def)
  have "lists_field (fst (deletion_kind k)) D" using D(2) by (simp add: same_lists_def deletion_kind_def)
  from delete_path_runs [OF s(4) meta_serviceD(2) [OF C] asks_as_of [OF s(1)] request_for_of [OF C] old par(1) D(1) this]
  obtain c where run: "delete_path M (request_of C s k) (server s) = Ret (reply (-1) ''{\"message\": \"Path deleted\"}'')
        ((server s)\<lparr>net := c, deletion_queue := deletion_queue (server s) @ (if is_txt k then [user_key u k] else []),
           outbox := outbox (server s) @ notified (server s) (notification (snd (deletion_kind k)) u k (device_id s))\<rparr>)"
      (is "_ = Ret _ ?w")
    and ok: "store_ok M ((server s)\<lparr>net := c\<rparr>)"
    and N: "docs M ((server s)\<lparr>net := c\<rparr>) = (docs M (server s))(user_key u k := None,
        user_key u q \<mapsto> without_entry (fst (deletion_kind k)) k D)" by blast
  have "serve M ''/delete'' (request_of C ?s1 k) (server ?s1) = Ret (reply 200 ''{\"message\": \"Path deleted\"}'') ?w"
    using run s1(2,3) by (simp add: serve_def route_def)
  from ask_meta_run [OF C s1(1) this meta_serviceD(4) [OF C]] obtain m where
    asked: "ask_meta C ''/delete'' k ?s1 = Ret (JObj m) (put_server ?w ?s1)" by blast
  have docs_t: "db_docs C view (put_server ?w ?s1) = db_docs C view ?s1" by simp
  have ns: "docs M ?w = docs M ((server s)\<lparr>net := c\<rparr>)" by (simp add: docs_def meta_view_def fun_eq_iff)
  show thesis
  proof (rule that [of ?w e])
    show "delete_event n C k ft s = Ret () (put_server ?w ?s1)"
      using e(1) asked by (simp add: deleteFile_meta_def)
    show "ready M ?w" using s(4) ok by (simp add: ready_def store_ok_def)
    show "in_step C view M u (put_server ?w ?s1)"
      unfolding in_step_def docs_t
    proof (intro allI impI)
      fix k' dm' assume k': "db_docs C view ?s1 k' = Some (dir_json dm')"
      have nk: "k' \<noteq> k" using k' e(3) by auto
      show "directoryName dm' = k' \<and> (\<exists>D. docs M (server (put_server ?w ?s1)) (user_key u k') = Some D \<and> same_lists dm' D)"
      proof (cases "k' = q")
        case True
        with k' e(4) have "dm' = unlisted k dm" by simp
        with True N ns name same_lists_remove [OF D(2)] show ?thesis by (simp add: unlisted_def)
      next
        case False
        with k' e(2) have "db_docs C view s k' = Some (dir_json dm')"
          unfolding map_le_def by (metis domI fun_upd_other)
        from in_stepE [OF s(3) this] obtain D' where
          "directoryName dm' = k'" "docs M (server s) (user_key u k') = Some D'" "same_lists dm' D'" by blast
        with False nk N ns show ?thesis by simp
      qed
    qed
  qed (use e(3,4) docs_t in simp_all)
qed

section \<open>The property\<close>

definition created_directory :: "file_event \<Rightarrow> bool" where
  "created_directory e \<longleftrightarrow> (eventType e = Created \<or> eventType e = MovedTo) \<and> fileType e = DirectoryT"

text \<open>The removal of a text file or of a directory whose name is not that of a text file.\<close>

definition removed_entry :: "file_event \<Rightarrow> string \<Rightarrow> bool" where
  "removed_entry e k \<longleftrightarrow> (eventType e = Deleted \<or> eventType e = MovedFrom) \<and>
     fileType e = (if is_txt k then FileT else DirectoryT) \<and>
     (fileType e = FileT \<longrightarrow> path_extension (path e) = ''.txt'')"

text \<open>C7: A directory that is created or moved into the monitored directory, and a text file or directory
  that is deleted or moved away, changes the client's record and the user's namespace on the metadata
  server alike: when every directory on record had the same lists on both sides, it has them afterwards.
  The entry is listed in its parent, or no longer listed, on both sides, and the server has the other
  devices told once.\<close>

theorem local_changes_keep_in_step:
  assumes C: "meta_service C M addr" and s: "logged_in M addr u s" "db_ok C view s" "in_step C view M u s" "ready M (server s)"
    and rec: "record_ok C N (db_view view s)" "N < n"
    and k: "k = buildKeyfromFullPath (g_basePath s) (path e)" "parent_of k = Some q" "db_docs C view s q = Some (dir_json dm)"
    and change: "created_directory e \<and> k \<notin> set (directories dm) \<and> db_view view s k = None \<and>
        meta_view M (server s) (user_key u k) = None \<or>
      removed_entry e k \<and> meta_view M (server s) (user_key u k) \<noteq> None"
  shows "\<exists>t. process_event_local n C e s = Ret () t \<and> in_step C view M u t \<and> ready M (server t) \<and>
    outbox (server t) = outbox (server s) @ notified (server s)
      (notification (if created_directory e then ''DIR+'' else snd (deletion_kind k)) u k (device_id s)) \<and>
    db_docs C view t q = Some (dir_json
      (if created_directory e then dm\<lparr>directories := directories dm @ [k]\<rparr> else unlisted k dm)) \<and>
    (db_docs C view t k \<noteq> None \<longleftrightarrow> created_directory e)"
  using change
proof
  assume a: "created_directory e \<and> k \<notin> set (directories dm) \<and> db_view view s k = None \<and>
        meta_view M (server s) (user_key u k) = None"
  then obtain d w where run: "create_directory_local C k s = Ret () (put_server w (s\<lparr>db := Some d\<rparr>))"
    "in_step C view M u (put_server w (s\<lparr>db := Some d\<rparr>))" "ready M w"
    "outbox w = outbox (server s) @ notified (server s) (notification ''DIR+'' u k (device_id s))"
    "db_docs C view (put_server w (s\<lparr>db := Some d\<rparr>)) = (db_docs C view s)
       (q \<mapsto> dir_json (dm\<lparr>directories := directories dm @ [k]\<rparr>), k \<mapsto> dir_json (Directory_Metadata k))"
    using directory_created_run [OF C s k(2,3)] by metis
  from a have "process_event_local n C e s = Ret () (put_server w (s\<lparr>db := Some d\<rparr>))"
    using run(1) k(1) by (auto simp: created_directory_def process_event_local_def)
  then show ?thesis
    using run(2-5) a parent_of_neq [OF k(2)] by (intro exI [of _ "put_server w (s\<lparr>db := Some d\<rparr>)"]) simp
next
  assume a: "removed_entry e k \<and> meta_view M (server s) (user_key u k) \<noteq> None"
  then have ft: "fileType e = (if is_txt k then FileT else DirectoryT)" and gone: "\<not> created_directory e"
    by (auto simp: removed_entry_def created_directory_def)
  obtain d w where run: "delete_event n C k (fileType e) s = Ret () (put_server w (s\<lparr>db := Some d\<rparr>))"
    "in_step C view M u (put_server w (s\<lparr>db := Some d\<rparr>))" "ready M w"
    "outbox w = outbox (server s) @ notified (server s) (notification (snd (deletion_kind k)) u k (device_id s))"
    "db_docs C view (put_server w (s\<lparr>db := Some d\<rparr>)) k = None"
    "db_docs C view (put_server w (s\<lparr>db := Some d\<rparr>)) q = Some (dir_json (unlisted k dm))"
    using entry_removed_run [OF C s rec ft k(2,3)] a by metis
  from a have "process_event_local n C e s = Ret () (put_server w (s\<lparr>db := Some d\<rparr>))"
    using run(1) k(1) by (auto simp: removed_entry_def process_event_local_def)
  then show ?thesis
    using run(2-6) gone by (intro exI [of _ "put_server w (s\<lparr>db := Some d\<rparr>)"]) simp
qed

section \<open>Witness\<close>

text \<open>A codec that also reads texts in braces, as the server writes them.\<close>

definition brace_parse :: "string \<Rightarrow> json option" where
  "brace_parse b = (if b \<noteq> [] \<and> hd b = CHR ''{'' then Some (JObj fmempty) else toy_parse b)"

definition brace_meta :: "cluster meta_ext" where
  "brace_meta = demo_ext\<lparr>json_parse := brace_parse,
     curl_perform := cluster_perform (toy_codec\<lparr>json_parse := brace_parse\<rparr>)\<rparr>"

definition brace_blocks :: "services meta_ext" where
  "brace_blocks = \<lparr>json_parse = brace_parse, json_dump = toy_dump, json_pretty = toy_dump,
     what = (\<lambda>_. ''what''), float_trunc = (\<lambda>_. 0), json_read = brace_parse, curl_init = (\<lambda>w. (True, w)),
     curl_perform = (\<lambda>_ _ _ w. (Curl_error ''down'', w)), shuffled = (\<lambda>ss w. (ss, w)),
     jwt_user = (\<lambda>t k n. if t = ''a.b.c'' then Some ''ann'' else None), hash = length, time_now = (\<lambda>_. 7)\<rparr>"

definition brace_client :: "(services, (string, string) fmap) client_ext" where
  "brace_client = toy_ext\<lparr>json_parse := brace_parse, curl_perform := block_perform brace_blocks ''pk'', http_post := \<lambda>a p. meta_perform brace_meta\<rparr>"

lemma brace_parse_enc [simp]: "brace_parse (enc j) = Some j"
proof -
  have "enc j \<noteq> [] \<longrightarrow> hd (enc j) \<noteq> CHR ''{''" by (cases j) (simp_all add: enc.simps Let_def)
  then show ?thesis by (auto simp: brace_parse_def)
qed

lemma brace_simps [simp]:
  "json_parse brace_meta = brace_parse" "json_dump brace_meta = toy_dump" "json_pretty brace_meta = toy_dump"
  "json_parse brace_client = brace_parse" "json_dump brace_client = toy_dump" "json_pretty brace_client = toy_dump"
  "http_post brace_client a p = meta_perform brace_meta" "hash brace_meta = length"
  "jwt_user brace_meta t pk now = (if t = ''a.b.c'' then Some ''ann'' else None)"
  by (simp_all add: brace_meta_def brace_client_def demo_ext_def toy_ext_def)

lemma brace_codec_total: "codec_total brace_meta" "codec_total brace_client"
  by (simp_all add: codec_total_def toy_dump_def)

lemma brace_texts [simp]: "text_of brace_meta j = enc j" "text_of brace_client j = enc j"
  by (simp_all add: text_of_def toy_dump_def)

lemma brace_service: "meta_service brace_client brace_meta ([], 0)"
  using brace_codec_total
  by (simp add: meta_service_def is_object_text_def brace_parse_def marker_not_json_def DELETE_VALUE_def toy_parse_def)

lemma brace_backed: "cluster_backed brace_meta"
  unfolding cluster_backed_def
  using brace_codec_total(1) cluster_perform_codec [of brace_meta "toy_codec\<lparr>json_parse := brace_parse\<rparr>"]
  by (simp add: brace_meta_def demo_ext_def)

text \<open>Ann's directory with a directory in it, on record and on the server.\<close>

definition ann_server :: "cluster mstate" where
  "ann_server = demo_state [''ann:dropbox'' \<mapsto> JStr (enc (demo_dir [''dropbox/d''] [])),
     ''ann:dropbox/d'' \<mapsto> JStr (enc (demo_dir [] []))]"

definition ann_home :: dir_meta where
  "ann_home = \<lparr>files = [], directories = [''dropbox/d''], directoryName = ''dropbox''\<rparr>"

definition ann_world :: services where
  "ann_world = \<lparr>nodes = [''b1'' \<mapsto> \<lparr>status = LEADER, leader = Some ''b1'', DB = Map.empty, log = [], commitIdx = 0, staged = None\<rparr>],
     quorum = True, confirmations = [], meta_state = ann_server\<rparr>"

definition ann_client :: "(services, (string, string) fmap) client" where
  "ann_client = (toy_client_at ann_world (toy_db_of [(''dropbox'', dir_json ann_home),
     (''dropbox/d'', dir_json (Directory_Metadata ''dropbox/d''))]))\<lparr>token := ''a.b.c''\<rparr>"

lemma ann_ready: "ready brace_meta ann_server"
  using brace_backed
  by (simp add: ready_def store_ok_def ann_server_def demo_state_def group_ok_def leader_of_def is_leader_def
      demo_node_def leads_to_def)

lemma ann_view: "meta_view brace_meta ann_server = [''ann:dropbox'' \<mapsto> enc (demo_dir [''dropbox/d''] []),
    ''ann:dropbox/d'' \<mapsto> enc (demo_dir [] [])]"
  by (rule ext) (simp add: ann_server_def meta_view_def demo_state_def group_of_def stored_def leader_of_def
      is_leader_def demo_node_def)

lemma ann_docs: "docs brace_meta ann_server = [''ann:dropbox'' \<mapsto> demo_dir [''dropbox/d''] [],
    ''ann:dropbox/d'' \<mapsto> demo_dir [] []]"
  using doc_of_text [OF brace_backed] by (intro ext) (simp add: docs_def ann_view)

lemma ann_client_simps [simp]:
  "web ann_client = ann_world" "meta_state ann_world = ann_server" "g_basePath ann_client = ''/h/''" "device_id ann_client = ''d1''"
  "token ann_client = ''a.b.c''" "meta_lb ann_client = ([], 0)"
  by (simp_all add: ann_client_def ann_world_def toy_client_def)

lemma ann_record: "db_docs brace_client fmlookup ann_client = [''dropbox'' \<mapsto> dir_json ann_home,
    ''dropbox/d'' \<mapsto> dir_json (Directory_Metadata ''dropbox/d'')]"
  by (rule ext) (simp add: db_docs_def ann_client_def toy_client_def toy_db_of_def fmlookup_of_list)

lemma ann_in_step: "in_step brace_client fmlookup brace_meta ''ann'' ann_client"
  by (auto simp: in_step_def ann_record ann_docs user_key_def same_lists_def ann_home_def Directory_Metadata_def)

theorem local_changes_keep_in_step_witness:
  "\<exists>t. process_event_local 100 brace_client (mk_event Deleted ''/h/d'' DirectoryT) ann_client = Ret () t \<and>
    in_step brace_client fmlookup brace_meta ''ann'' t \<and>
    db_docs brace_client fmlookup t ''dropbox'' = Some (dir_json (ann_home\<lparr>directories := []\<rparr>)) \<and>
    outbox (server t) = outbox ann_server @ notified ann_server (notification ''DIR-'' ''ann'' ''dropbox/d'' ''d1'')"
proof -
  let ?e = "mk_event Deleted ''/h/d'' DirectoryT"
  have k: "''dropbox/d'' = buildKeyfromFullPath (g_basePath ann_client) (path ?e)" "parent_of ''dropbox/d'' = Some ''dropbox''"
    "\<not> is_txt ''dropbox/d''" "unlisted ''dropbox/d'' ann_home = ann_home\<lparr>directories := []\<rparr>"
    "deletion_kind ''dropbox/d'' = (''subdirectories'', ''DIR-'')"
    unfolding ann_client_simps ann_home_def by code_simp+
  have "record_ok brace_client 30 (db_view fmlookup ann_client)"
    by (auto simp: record_ok_def db_view_def ann_client_def toy_client_def toy_db_of_def fmlookup_of_list ann_home_def
        Directory_Metadata_def split: if_splits)
  moreover have "logged_in brace_meta ([], 0) ''ann'' ann_client" by (simp add: logged_in_def verify_jwt_def)
  moreover have "db_ok brace_client fmlookup ann_client"
    using toy_rocks_ok brace_codec_total(2)
    by (simp add: db_ok_def rocks_ok_def brace_client_def ann_client_def toy_client_def)
  moreover have "removed_entry ?e ''dropbox/d''" "\<not> created_directory ?e"
    using k(3) by (simp_all add: removed_entry_def created_directory_def)
  moreover have "meta_view brace_meta (server ann_client) (user_key ''ann'' ''dropbox/d'') \<noteq> None"
    by (simp add: ann_view user_key_def)
  moreover have "db_docs brace_client fmlookup ann_client ''dropbox'' = Some (dir_json ann_home)"
    by (simp add: ann_record)
  moreover have "ready brace_meta (server ann_client)" by (simp add: ann_ready)
  ultimately show ?thesis
    using local_changes_keep_in_step [OF brace_service _ _ ann_in_step _ _ _ k(1,2), of 30 100 ann_home] k(4,5)
    by auto
qed

end
