(* ===== verification/New_File.thy ===== *)
theory New_File
  imports Client_Meta
begin

text \<open>
  A new text file on its way from the watcher's event to both services: the metadata server lists it
  and names the storage servers, which get the text as its first version.
\<close>

section \<open>The two services side by side\<close>

lemma put_server_blocks [simp]:
  "nodes (w\<lparr>meta_state := v\<rparr>) = nodes w" "quorum (w\<lparr>meta_state := v\<rparr>) = quorum w"
  "confirmations (w\<lparr>meta_state := v\<rparr>) = confirmations w"
  "group_ok (w\<lparr>meta_state := v\<rparr>) es = group_ok w es" "binding (w\<lparr>meta_state := v\<rparr>) es = binding w es"
proof -
  have "is_leader (w\<lparr>meta_state := v\<rparr>) = is_leader w" "leads_to (w\<lparr>meta_state := v\<rparr>) = leads_to w"
    by (simp_all add: is_leader_def leads_to_def fun_eq_iff)
  then have "leader_of (w\<lparr>meta_state := v\<rparr>) xs = leader_of w xs" "leads_to (w\<lparr>meta_state := v\<rparr>) = leads_to w" for xs
    by (simp_all add: leader_of_def)
  then show "group_ok (w\<lparr>meta_state := v\<rparr>) es = group_ok w es" "binding (w\<lparr>meta_state := v\<rparr>) es = binding w es"
    by (simp_all add: group_ok_def binding_def fun_eq_iff split: option.split)
qed simp_all

lemma bound_server: "bound w w1 es k v ms \<Longrightarrow> meta_state w1 = meta_state w"
  by (cases w; cases w1) (simp add: bound_def blocks.defs)

text \<open>
  The endpoints of a file the server knows, whether they are in the cache or not; \<open>P\<close> is what
  is known of the values in the cache.
\<close>

abbreviation endpoints_for :: "(cluster, 'x) meta_ext_scheme \<Rightarrow> services \<Rightarrow> string \<Rightarrow> string \<Rightarrow> string list" where
  "endpoints_for M w u k \<equiv> group_of M (blockserver_lists (init (meta_state w))) (user_key u k)"

lemma endpoints_known:
  assumes C: "meta_service C M addr" and s: "logged_in M addr u s" "ready M (server s)"
    and D: "docs M (server s) (user_key u k) = Some D"
    and es: "es = endpoints_for M (web s) u k" "es \<noteq> []" "fits k es"
    and c: "cache_instance s = Some c" "lru.explained P c" "\<And>v. P k v \<longleftrightarrow> v = es"
  obtains d where "getFileEndpoints C k s = Ret es (s\<lparr>cache_instance := Some d\<rparr>)" and "lru.explained P d"
proof -
  let ?now = "steady_now C (web s)"
  let ?c1 = "snd (cache_get ?now k c)"
  let ?s1 = "s\<lparr>cache_instance := Some ?c1\<rparr>"
  note look = lru.explained_look [OF c(2), of ?now k]
  show thesis
  proof (cases "fst (cache_get ?now k c) = []")
    case False
    with look c(3) have "fst (cache_get ?now k c) = es" by simp
    then show thesis using that [of ?c1] look c(1) es(2) by (simp add: getFileEndpoints_def cache_lookup_def)
  next
    case miss: True
    have s1: "logged_in M addr u ?s1" "request_of C ?s1 k = request_of C s k" "server ?s1 = server s"
      using s(1) by (simp_all add: logged_in_def request_of_def)
    obtain j where j: "json_parse M (req_body (request_of C s k)) = Some j" "string_at j ''path'' = Inr k"
      using request_forE [OF request_for_of [OF C]] by metis
    let ?r = "obj [(''endpoints'', JArr (map JStr es))]"
    from get_file_endpoints_runs [OF s(2) asks_as_of [OF s(1)] j D] have
      "serve M ''/get-file-endpoints'' (request_of C ?s1 k) (server ?s1) = Ret (reply 200 (text_of M ?r)) (server s)"
      using s1(2,3) es(1) by (simp add: serve_def route_def)
    moreover obtain m where m: "?r = JObj m" by (simp add: obj_def)
    moreover have "json_parse C (text_of M ?r) = Some (JObj m)" using meta_serviceD(8) [OF C] m by metis
    ultimately have ask: "ask_meta C ''/get-file-endpoints'' k ?s1 = Ret ?r (put_server (server s) ?s1)"
      using ask_meta_parsed [OF C s1(1)] by metis
    have same: "put_server (server s) ?s1 = ?s1" by simp
    have eps: "endpoints_of ?r = Inr es" by (simp add: endpoints_of_def get_strings_map is_array_simps)
    from lru.explained_store [OF conjunct1 [OF look] _ es(3), of ?now 0] c(3) obtain d where
      d: "cache_set ?now k es 0 ?c1 = Some d" "lru.explained P d" by blast
    have "getFileEndpoints C k s = Ret es (s\<lparr>cache_instance := Some d\<rparr>)"
      using c(1) miss ask eps d(1) es(2) m unfolding same
      by (simp add: getFileEndpoints_def cache_lookup_def cache_store_def)
    then show thesis using d(2) by (rule that)
  qed
qed

section \<open>From the event to both services\<close>

definition created_text :: "file_event \<Rightarrow> bool" where
  "created_text e \<longleftrightarrow> (eventType e = Created \<or> eventType e = MovedTo) \<and> fileType e = FileT \<and>
     path_extension (path e) = ''.txt''"

lemma same_lists_file:
  "same_lists dm D \<Longrightarrow> same_lists (dm\<lparr>files := files dm @ [k]\<rparr>) (with_entry ''files'' k D)"
  by (simp add: same_lists_def)

lemma file_not_dir_json: "file_json m \<noteq> dir_json dm"
proof
  assume "file_json m = dir_json dm"
  then have "contains (file_json m) ''directoryName''" by (simp add: dir_json_def)
  then show False by (simp add: file_json_def)
qed

text \<open>The record and the metadata server, before the text is sent.\<close>

lemma new_file_listed:
  assumes C: "meta_service C M addr" and s: "logged_in M addr u s" "db_ok C view s" "in_step C view M u s" "ready M (server s)"
    and par: "parent_of k = Some q" "db_docs C view s q = Some (dir_json dm)" "k \<notin> set (files dm)"
    and new: "db_view view s k = None" "meta_view M (server s) (user_key u k) = None"
  obtains d v where "create_file_local n C k s = ignore (uploadFile n C k) (put_server v (s\<lparr>db := Some d\<rparr>))"
    and "in_step C view M u (put_server v (s\<lparr>db := Some d\<rparr>))" and "ready M v" and "init v = init (server s)"
    and "docs M v (user_key u k) = Some (file_metadata u (time_now M (net (server s))) q k)"
    and "outbox v = outbox (server s) @ notified (server s) (notification ''FILE+'' u k (device_id s))"
    and "db_docs C view (put_server v (s\<lparr>db := Some d\<rparr>)) = (db_docs C view s)
       (k \<mapsto> file_json (File_Metadata k), q \<mapsto> dir_json (dm\<lparr>files := files dm @ [k]\<rparr>))"
proof -
  have kq: "q \<noteq> k" by (rule parent_of_neq [OF par(1)])
  obtain D where name: "directoryName dm = q" and D: "docs M (server s) (user_key u q) = Some D" "same_lists dm D"
    by (rule in_stepE [OF s(3) par(2)])
  have load: "file_load C (File_Metadata k) s = Ret None s" by (rule file_load_None [OF s(2) new(1)])
  obtain e1 where e1: "db_store C k (file_json (File_Metadata k)) s = Ret True (s\<lparr>db := Some e1\<rparr>)"
    "db_docs C view (s\<lparr>db := Some e1\<rparr>) = (db_docs C view s)(k \<mapsto> file_json (File_Metadata k))"
    by (rule db_storeE [OF s(2)])
  have "db_docs C view (s\<lparr>db := Some e1\<rparr>) q = Some (dir_json dm)" using e1(2) par(2) kq by simp
  from listing_operations [OF db_ok_db [OF s(2)] par(1) this name] par(3) obtain e2 where
    e2: "addFileToDirectory C k (s\<lparr>db := Some e1\<rparr>) = Ret True (s\<lparr>db := Some e2\<rparr>)"
    "db_docs C view (s\<lparr>db := Some e2\<rparr>) = (db_docs C view (s\<lparr>db := Some e1\<rparr>))(q \<mapsto> dir_json (dm\<lparr>files := files dm @ [k]\<rparr>))"
    by auto
  let ?s2 = "s\<lparr>db := Some e2\<rparr>"
  have s2: "logged_in M addr u ?s2" "server ?s2 = server s" "device_id ?s2 = device_id s" using s(1) by (simp_all add: logged_in_def)
  let ?F = "file_metadata u (time_now M (net (server s))) q k"
  obtain j w where asked: "createFile C k ?s2 = Ret j (put_server w ?s2)" and w: "ready M w" "init w = init (server s)"
    "outbox w = outbox (server s) @ notified (server s) (notification ''FILE+'' u k (device_id s))"
    and N: "docs M w = (docs M (server s))(user_key u k \<mapsto> ?F, user_key u q \<mapsto> with_entry ''files'' k D)"
    using file_asked [OF C s2(1) _ par(1) _ D(2)] s(4) D(1) new(2) unfolding s2(2,3) by metis
  let ?t = "put_server w ?s2"
  have docs_t: "db_docs C view ?t = (db_docs C view s)
       (k \<mapsto> file_json (File_Metadata k), q \<mapsto> dir_json (dm\<lparr>files := files dm @ [k]\<rparr>))"
    using e1(2) e2(2) by simp
  show thesis
  proof (rule that [of w e2])
    show "create_file_local n C k s = ignore (uploadFile n C k) ?t"
      using load e1(1) e2(1) asked
      by (simp add: create_file_local_def createFile_def file_store_def del: uploadFile.simps)
    show "ready M w" by (rule w(1))
    show "docs M w (user_key u k) = Some ?F" using N kq by simp
    show "in_step C view M u ?t"
      unfolding in_step_def docs_t
    proof (intro allI impI)
      fix k' dm' assume k': "((db_docs C view s)(k \<mapsto> file_json (File_Metadata k),
          q \<mapsto> dir_json (dm\<lparr>files := files dm @ [k]\<rparr>))) k' = Some (dir_json dm')"
      then have nk: "k' \<noteq> k" using kq file_not_dir_json by (auto split: if_splits)
      show "directoryName dm' = k' \<and> (\<exists>D. docs M (server ?t) (user_key u k') = Some D \<and> same_lists dm' D)"
      proof (cases "k' = q")
        case True
        with k' have "dm' = dm\<lparr>files := files dm @ [k]\<rparr>" by simp
        with True N name same_lists_file [OF D(2)] show ?thesis by simp
      next
        case False
        with k' nk have "db_docs C view s k' = Some (dir_json dm')" by simp
        from in_stepE [OF s(3) this] obtain D' where
          "directoryName dm' = k'" "docs M (server s) (user_key u k') = Some D'" "same_lists dm' D'" by blast
        with False nk N show ?thesis by simp
      qed
    qed
  qed (use docs_t w in simp_all)
qed

text \<open>An upload of a file that the record and the metadata server know, under the version the servers hold.\<close>

lemma known_upload:
  assumes C: "meta_service C M addr" and B: "block_service C X pk"
    and s: "logged_in M addr u s" "ready M (server s)" "db_ok C view s"
      "verify_jwt X pk (time_now X (web s)) (token s) = Some u"
    and known: "docs M (server s) (user_key u k) = Some F" "db_docs C view s k = Some (file_json m)" "fileName m = k"
    and es: "es = endpoints_for M (web s) u k" "es \<noteq> []" "fits k es"
    and c: "cache_instance s = Some c" "lru.explained P c" "\<And>v. P k v \<longleftrightarrow> v = es"
    and store: "group_ok (web s) es" "quorum (web s)" "held_version X (binding (web s) es (user_key u k)) = Some i"
    and ver: "version m = to_string i" "int_min \<le> i" "i < int_max"
  obtains d w e where "uploadFile (Suc n) C k s = Ret True (s\<lparr>cache_instance := Some d, web := w, db := Some e\<rparr>)"
    and "lru.explained P d" and "meta_state w = server s"
    and "bound (web s) w es (user_key u k) (text_of C (file_doc (to_string (i + 1)) (local_text s k)))
      [obj [(''user_id'', JStr u), (''path'', JStr k), (''device_id'', JStr (device_id s))]]"
    and "db_docs C view (s\<lparr>cache_instance := Some d, web := w, db := Some e\<rparr>)
      = (db_docs C view s)(k \<mapsto> file_json (recorded C m (local_text s k) (to_string (i + 1))))"
    and "\<And>x. x \<noteq> k \<Longrightarrow>
      db_view view (s\<lparr>cache_instance := Some d, web := w, db := Some e\<rparr>) x = db_view view s x"
proof -
  have tok: "token s \<noteq> []" using s(1) by (simp add: logged_in_def)
  obtain d where d: "getFileEndpoints C k s = Ret es (s\<lparr>cache_instance := Some d\<rparr>)" "lru.explained P d"
    by (rule endpoints_known [OF C s(1,2) known(1) es c])
  have i: "stoi (version m) = Inr i" using ver by (simp add: stoi_to_string)
  have held: "held_version X (binding (web s) es (u @ '':'' @ k)) = Some i" using store(3) by (simp add: user_key_def)
  obtain r w where r: "setFile C es k (local_text s k) (to_string i) (token s) (device_id s) (web s) = Ret r w" "resp_success r"
    and b: "bound (web s) w es (u @ '':'' @ k) (text_of C (file_doc (to_string (i + 1)) (local_text s k)))
      [obj [(''user_id'', JStr u), (''path'', JStr k), (''device_id'', JStr (device_id s))]]"
    by (rule setFile_current [OF B store(1,2) s(4) held])
  have "setFile C es k (local_text s k) (version m) (token s) (device_id s) (web s) = Ret r w"
    using r(1) unfolding ver(1) .
  from upload_with_endpoints [OF s(3) known(2,3) d(1) es(2) tok i ver(3) this r(2), of n] obtain e where
    "uploadFile (Suc n) C k s = Ret True (s\<lparr>cache_instance := Some d, web := w, db := Some e\<rparr>)"
    "db_docs C view (s\<lparr>cache_instance := Some d, web := w, db := Some e\<rparr>) = (db_docs C view s)
      (k \<mapsto> file_json (recorded C m (local_text s k) (to_string (i + 1))))"
    "\<And>x. x \<noteq> k \<Longrightarrow> db_view view (s\<lparr>cache_instance := Some d, web := w, db := Some e\<rparr>) x = db_view view s x"
    by auto
  then show thesis
    by (intro that [of e w d]) (use d(2) b bound_server [OF b] in \<open>simp_all add: user_key_def\<close>)
qed

text \<open>The first upload: the servers hold nothing, which counts as version 0.\<close>

lemma File_Metadata_version: "version (File_Metadata k) = to_string 0"
  by (simp add: File_Metadata_def) code_simp

lemma fresh_upload:
  assumes C: "meta_service C M addr" and B: "block_service C X pk"
    and s: "logged_in M addr u s" "ready M (server s)" "db_ok C view s"
      "verify_jwt X pk (time_now X (web s)) (token s) = Some u"
    and known: "docs M (server s) (user_key u k) = Some F" "db_docs C view s k = Some (file_json (File_Metadata k))"
    and es: "es = endpoints_for M (web s) u k" "es \<noteq> []" "fits k es"
    and c: "cache_instance s = Some c" "lru.explained P c" "\<And>v. P k v \<longleftrightarrow> v = es"
    and store: "group_ok (web s) es" "quorum (web s)" "held_version X (binding (web s) es (user_key u k)) = Some 0"
  obtains d w e where "uploadFile (Suc n) C k s = Ret True (s\<lparr>cache_instance := Some d, web := w, db := Some e\<rparr>)"
    and "lru.explained P d" and "meta_state w = server s"
    and "bound (web s) w es (user_key u k) (text_of C (file_doc (to_string 1) (local_text s k)))
      [obj [(''user_id'', JStr u), (''path'', JStr k), (''device_id'', JStr (device_id s))]]"
    and "db_docs C view (s\<lparr>cache_instance := Some d, web := w, db := Some e\<rparr>)
      = (db_docs C view s)(k \<mapsto> file_json (recorded C (File_Metadata k) (local_text s k) (to_string 1)))"
    and "\<And>x. x \<noteq> k \<Longrightarrow>
      db_view view (s\<lparr>cache_instance := Some d, web := w, db := Some e\<rparr>) x = db_view view s x"
proof -
  have "int_min \<le> 0" "(0 :: int) < int_max" by (simp_all add: int_min_def int_max_def)
  note up = known_upload [OF C B s known File_Metadata_name es c store File_Metadata_version this, of n]
  show thesis by (rule up, rule that) (simp_all only: add_0)
qed

lemma in_step_file:
  assumes "in_step C view M u s" and "server t = server s"
    and "db_docs C view t = (db_docs C view s)(k \<mapsto> file_json m)"
  shows "in_step C view M u t"
  unfolding in_step_def assms(2,3)
proof (intro allI impI)
  fix k' dm assume "((db_docs C view s)(k \<mapsto> file_json m)) k' = Some (dir_json dm)"
  then have "db_docs C view s k' = Some (dir_json dm)" using file_not_dir_json by (auto split: if_splits)
  with assms(1) show "directoryName dm = k' \<and> (\<exists>D. docs M (server s) (user_key u k') = Some D \<and> same_lists dm D)"
    unfolding in_step_def by blast
qed

text \<open>C4: A text file that is created or moved into the monitored directory reaches both services: the
  metadata server gets its document, lists it in its directory and has the other devices told; the
  storage servers the metadata server names for it get the text as version 1 and confirm it; the record
  has the file with that text and version, and record and namespace stay in step.\<close>

theorem new_file_is_stored:
  assumes C: "meta_service C M addr" and B: "block_service C X pk"
    and user: "meta_lb s = addr" "token s \<noteq> []" "\<And>now. verify_jwt M (public_key (init (server s))) now (token s) = Some u"
      "\<And>now. verify_jwt X pk now (token s) = Some u"
    and s: "db_ok C view s" "in_step C view M u s" "ready M (server s)" "created_text e"
    and k: "k = buildKeyfromFullPath (g_basePath s) (path e)" "parent_of k = Some q" "db_docs C view s q = Some (dir_json dm)"
    and new: "k \<notin> set (files dm)" "db_view view s k = None" "meta_view M (server s) (user_key u k) = None"
    and es: "es = group_of M (blockserver_lists (init (server s))) (user_key u k)" "es \<noteq> []" "fits k es"
    and cache: "cache_instance s = Some c" "cache_inv c" "cached c k \<in> {None, Some es}"
    and store: "group_ok (web s) es" "quorum (web s)" "held_version X (binding (web s) es (user_key u k)) = Some 0"
  shows "\<exists>t. process_event_local (Suc n) C e s = Ret () t \<and> in_step C view M u t \<and> ready M (server t) \<and>
    docs M (server t) (user_key u k) = Some (file_metadata u (time_now M (net (server s))) q k) \<and>
    outbox (server t) = outbox (server s) @ notified (server s) (notification ''FILE+'' u k (device_id s)) \<and>
    binding (web t) es = (binding (web s) es)(user_key u k \<mapsto> JStr (text_of C (file_doc (to_string 1) (local_text s k)))) \<and>
    confirmations (web t) = confirmations (web s) @
      [obj [(''user_id'', JStr u), (''path'', JStr k), (''device_id'', JStr (device_id s))]] \<and>
    db_docs C view t = (db_docs C view s)(q \<mapsto> dir_json (dm\<lparr>files := files dm @ [k]\<rparr>),
      k \<mapsto> file_json (recorded C (File_Metadata k) (local_text s k) (to_string 1)))"
proof -
  have kq: "q \<noteq> k" by (rule parent_of_neq [OF k(2)])
  have "logged_in M addr u s" using user by (simp add: logged_in_def)
  from new_file_listed [OF C this s(1-3) k(2,3) new, of "Suc n"] obtain d v where
    listed: "create_file_local (Suc n) C k s = ignore (uploadFile (Suc n) C k) (put_server v (s\<lparr>db := Some d\<rparr>))"
    "in_step C view M u (put_server v (s\<lparr>db := Some d\<rparr>))" "ready M v" "init v = init (server s)"
    "docs M v (user_key u k) = Some (file_metadata u (time_now M (net (server s))) q k)"
    "outbox v = outbox (server s) @ notified (server s) (notification ''FILE+'' u k (device_id s))"
    "db_docs C view (put_server v (s\<lparr>db := Some d\<rparr>)) = (db_docs C view s)
       (k \<mapsto> file_json (File_Metadata k), q \<mapsto> dir_json (dm\<lparr>files := files dm @ [k]\<rparr>))" by blast
  let ?s1 = "put_server v (s\<lparr>db := Some d\<rparr>)"
  have s1: "logged_in M addr u ?s1" "db_ok C view ?s1" "db_docs C view ?s1 k = Some (file_json (File_Metadata k))"
    "token ?s1 \<noteq> []" "group_ok (web ?s1) es" "quorum (web ?s1)" "local_text ?s1 k = local_text s k"
    using user listed(4,7) s(1) store kq by (simp_all add: logged_in_def db_ok_def local_text_def)
  have es1: "es = group_of M (blockserver_lists (init (server ?s1))) (user_key u k)" using es(1) listed(4) by simp
  have c1: "cache_instance ?s1 = Some c" using cache(1) by simp
  have known: "lru.explained (\<lambda>k' v. k' = k \<longrightarrow> v = es) c" using cache(2,3) by (auto simp: lru.explained_def)
  obtain d1 w1 e1 where up: "uploadFile (Suc n) C k ?s1 = Ret True (?s1\<lparr>cache_instance := Some d1, web := w1, db := Some e1\<rparr>)"
    and v: "meta_state w1 = server ?s1"
    and b: "bound (web ?s1) w1 es (user_key u k) (text_of C (file_doc (to_string 1) (local_text ?s1 k)))
      [obj [(''user_id'', JStr u), (''path'', JStr k), (''device_id'', JStr (device_id ?s1))]]"
    and docs_t: "db_docs C view (?s1\<lparr>cache_instance := Some d1, web := w1, db := Some e1\<rparr>) = (db_docs C view ?s1)
      (k \<mapsto> file_json (recorded C (File_Metadata k) (local_text ?s1 k) (to_string 1)))"
    by (rule fresh_upload [OF C B s1(1) _ s1(2) _ _ s1(3) es1 es(2,3) c1 known _ s1(5,6)])
      (use user store listed(3,5) in simp_all)
  let ?t = "?s1\<lparr>cache_instance := Some d1, web := w1, db := Some e1\<rparr>"
  have server_t: "server ?t = v" using v by simp
  show ?thesis
  proof (intro exI [of _ ?t] conjI)
    have "create_file_local (Suc n) C k s = Ret () ?t"
      using listed(1) up by (simp del: uploadFile.simps)
    then show "process_event_local (Suc n) C e s = Ret () ?t"
      using s(4) k(1) by (auto simp: created_text_def process_event_local_def simp del: uploadFile.simps)
    show "in_step C view M u ?t"
      by (rule in_step_file [OF listed(2) _ docs_t]) (use server_t in simp)
    show "db_docs C view ?t = (db_docs C view s)(q \<mapsto> dir_json (dm\<lparr>files := files dm @ [k]\<rparr>),
        k \<mapsto> file_json (recorded C (File_Metadata k) (local_text s k) (to_string 1)))"
      unfolding docs_t listed(7) s1(7) using kq by (simp add: fun_upd_twist)
  qed (use server_t listed(3,5,6) b in \<open>simp_all add: bound_def user_key_def\<close>)
qed

section \<open>Witness\<close>

lemma brace_block_service: "block_service brace_client brace_blocks ''pk''"
proof -
  have "json_parse brace_client [] = None" "json_parse brace_client DELETE_VALUE = None"
    by (simp_all add: brace_parse_def toy_parse_def DELETE_VALUE_def)
  then show ?thesis
    using brace_codec_total(2)
    by (simp add: block_service_def brace_client_def brace_blocks_def toy_ext_def)
qed

theorem new_file_is_stored_witness:
  "\<exists>t. process_event_local 1 brace_client (mk_event Created ''/h/n.txt'' FileT) ann_client = Ret () t \<and>
    in_step brace_client fmlookup brace_meta ''ann'' t \<and>
    docs brace_meta (server t) ''ann:dropbox/n.txt'' \<noteq> None \<and>
    binding (web t) [''b1''] ''ann:dropbox/n.txt'' = Some (JStr (enc (file_doc (to_string 1) [])))"
proof -
  let ?e = "mk_event Created ''/h/n.txt'' FileT" and ?k = "''dropbox/n.txt''"
  have k: "?k = buildKeyfromFullPath (g_basePath ann_client) (path ?e)" "parent_of ?k = Some ''dropbox''"
    "created_text ?e" "?k \<notin> set (files ann_home)"
    unfolding ann_client_simps ann_home_def by code_simp+
  have user: "meta_lb ann_client = ([], 0)" "token ann_client \<noteq> []"
    "verify_jwt brace_meta pk now (token ann_client) = Some ''ann''"
    "verify_jwt brace_blocks ''pk'' now (token ann_client) = Some ''ann''" for pk now
    by (simp_all add: verify_jwt_def brace_blocks_def)
  have ok: "db_ok brace_client fmlookup ann_client"
    using toy_rocks_ok brace_codec_total(2)
    by (simp add: db_ok_def rocks_ok_def brace_client_def ann_client_def toy_client_def)
  have home: "db_docs brace_client fmlookup ann_client ''dropbox'' = Some (dir_json ann_home)"
    by (simp add: ann_record)
  have ready: "ready brace_meta (server ann_client)" by (simp add: ann_ready)
  have new: "db_view fmlookup ann_client ?k = None" "meta_view brace_meta (server ann_client) (user_key ''ann'' ?k) = None"
    by (simp_all add: db_view_def ann_client_def toy_client_def toy_db_of_def fmlookup_of_list ann_world_def ann_view user_key_def)
  have es: "[''b1''] = group_of brace_meta (blockserver_lists (init (server ann_client))) (user_key ''ann'' ?k)"
    by (simp add: group_of_def ann_server_def demo_state_def)
  have small: "Cache.fits ?k [''b1'']" by (simp add: fits_def list_size_def)
  have cache: "cache_instance ann_client = Some (new_cache 60000 1000)" "cache_inv (new_cache 60000 1000)"
    "cached (new_cache 60000 1000) ?k \<in> {None, Some [''b1'']}"
    using new_cache_inv [of 1000 60000] by (simp_all add: ann_client_def toy_client_def cached_def new_cache_def)
  have store: "group_ok (web ann_client) [''b1'']" "quorum (web ann_client)"
    "held_version brace_blocks (binding (web ann_client) [''b1''] (user_key ''ann'' ?k)) = Some 0"
    by (simp_all add: ann_world_def group_ok_def leader_of_def is_leader_def leads_to_def binding_def held_version_def)
  have txt_of: "local_text ann_client ?k = []"
    by (simp add: local_text_def read_file_def node_at_def ann_client_def toy_client_def split: option.split)
  from new_file_is_stored [OF brace_service brace_block_service user ok ann_in_step ready k(3,1,2) home k(4) new es _
      small cache store, of 0]
  obtain t where t: "process_event_local (Suc 0) brace_client ?e ann_client = Ret () t"
    "in_step brace_client fmlookup brace_meta ''ann'' t"
    "docs brace_meta (server t) (user_key ''ann'' ?k) = Some (file_metadata ''ann''
       (time_now brace_meta (net (server ann_client))) ''dropbox'' ?k)"
    "binding (web t) [''b1''] = (binding (web ann_client) [''b1''])(user_key ''ann'' ?k \<mapsto>
       JStr (text_of brace_client (file_doc (to_string 1) (local_text ann_client ?k))))" by blast
  from t(3,4) have "docs brace_meta (server t) ''ann:dropbox/n.txt'' \<noteq> None"
    "binding (web t) [''b1''] ''ann:dropbox/n.txt'' = Some (JStr (enc (file_doc (to_string 1) [])))"
    by (simp_all add: user_key_def txt_of)
  with t(1,2) show ?thesis unfolding One_nat_def by blast
qed

end
