(* ===== verification/Fetch_Tree.thy ===== *)
theory Fetch_Tree
  imports New_File
begin

text \<open>
  The namespace of a user as a tree, how the services and a device hold it, and what a step of a device
  that fetches touches: keys of its record and paths of its directory, at and below an entry.
\<close>

section \<open>Writing below the base directory\<close>

lemma fpath_of_seps: "xs \<noteq> [] \<Longrightarrow> fpath_of (xs @ replicate m (CHR ''/'')) = fpath_of xs"
proof (induction m)
  case (Suc m)
  have "xs @ replicate (Suc m) (CHR ''/'') = (xs @ replicate m (CHR ''/'')) @ ''/''"
    by (simp add: replicate_append_same)
  with Suc fpath_of_trailing [of "xs @ replicate m (CHR ''/'')"] show ?case by simp
qed simp

lemma fpath_of_only_seps: "fpath_of (replicate (Suc m) (CHR ''/'')) = (True, [])"
proof (induction m)
  case (Suc m)
  have "replicate (Suc (Suc m)) (CHR ''/'') = replicate (Suc m) (CHR ''/'') @ ''/''"
    by (metis replicate_Suc replicate_append_same)
  with Suc fpath_of_trailing [of "replicate (Suc m) (CHR ''/'')"] show ?case by simp
qed (simp add: fpath_of_def)

lemma strip_sepsE:
  obtains m where "d = strip_seps d @ replicate m (CHR ''/'')"
proof -
  let ?P = "\<lambda>c. c = CHR ''/''"
  have "rev d = takeWhile ?P (rev d) @ dropWhile ?P (rev d)" by simp
  moreover have "takeWhile ?P (rev d) = replicate (length (takeWhile ?P (rev d))) (CHR ''/'')"
    by (rule replicate_length_same [symmetric]) (auto dest: set_takeWhileD)
  ultimately have "rev d = replicate (length (takeWhile ?P (rev d))) (CHR ''/'') @ rev (strip_seps d)"
    by (simp add: strip_seps_def)
  then have "rev (rev d) = strip_seps d @ replicate (length (takeWhile ?P (rev d))) (CHR ''/'')"
    by (metis rev_append rev_replicate rev_rev_ident)
  with that show thesis by simp
qed

lemma parent_path_fpath:
  assumes "CHR ''/'' \<notin> set n"
  shows "parent_path (d @ CHR ''/'' # n) \<noteq> []"
    and "fpath_of (parent_path (d @ CHR ''/'' # n)) = fpath_of (d @ ''/'')"
proof -
  have p: "parent_path (d @ CHR ''/'' # n) = (if strip_seps d = [] then ''/'' else strip_seps d)"
    using find_last_of_append [OF assms] by (simp add: parent_path_def Let_def)
  then show "parent_path (d @ CHR ''/'' # n) \<noteq> []" by simp
  obtain m where m: "d = strip_seps d @ replicate m (CHR ''/'')" by (rule strip_sepsE)
  show "fpath_of (parent_path (d @ CHR ''/'' # n)) = fpath_of (d @ ''/'')"
  proof (cases "strip_seps d = []")
    case True
    with m have "d @ ''/'' = replicate (Suc m) (CHR ''/'')" by (metis append_Nil replicate_Suc replicate_append_same)
    with p True fpath_of_only_seps [of m] fpath_of_only_seps [of 0] show ?thesis by simp
  next
    case False
    then have "d \<noteq> []" using m by fastforce
    with p False m fpath_of_seps [OF False, of m] fpath_of_trailing [of d] show ?thesis by simp
  qed
qed

lemma parent_of_entry:
  assumes "base_ok base" and "list_all name_ok (ws @ [n])"
  shows "fs_exists f (parent_path (path_at base (ws @ [n]))) \<longleftrightarrow> node_at f (fpath_of (path_at base ws)) \<noteq> None"
proof -
  have n: "CHR ''/'' \<notin> set n" using assms(2) by (simp add: name_ok_def)
  obtain d where d: "path_at base (ws @ [n]) = d @ CHR ''/'' # n" "fpath_of (d @ ''/'') = fpath_of (path_at base ws)"
  proof (cases ws)
    case Nil
    obtain b where b: "base = b @ ''/''" using assms(1) unfolding base_ok_def by (metis append_butlast_last_id)
    show ?thesis by (rule that [of b]) (use Nil in \<open>simp_all add: path_at_def b\<close>)
  next
    case (Cons w vs)
    have "path_at base ws \<noteq> []" using assms(1) by (simp add: path_at_def base_ok_def)
    then show ?thesis
      by (intro that [of "path_at base ws"]) (simp_all add: fpath_of_trailing, simp add: path_at_def Cons)
  qed
  show ?thesis using parent_path_fpath [OF n, of d] d by (simp add: fs_exists_def)
qed

lemma full_path_at:
  assumes "base_ok base" and "list_all name_ok ws" and "ws \<noteq> []"
  shows "buildFullPath base (key_at ws) = path_at base ws"
proof -
  obtain w vs where ws: "ws = w # vs" "w \<noteq> []" "CHR ''/'' \<notin> set w"
    using assms(2,3) by (cases ws) (auto simp: name_ok_def)
  have "key_at ws = ''dropbox/'' @ w @ slashed vs" by (simp add: key_at_def ws(1))
  moreover have "hd w \<noteq> CHR ''/''" using ws(2,3) hd_in_set by metis
  then have "w @ slashed vs \<noteq> []" "hd (w @ slashed vs) \<noteq> CHR ''/''" using ws(2) by simp_all
  ultimately show ?thesis
    using buildFullPath_entry [OF assms(1), of "w @ slashed vs"] by (simp add: path_at_def ws(1))
qed

text \<open>Creating directories where only the last one is missing.\<close>

lemma make_dirs_append:
  "make_dirs f a ds (us @ vs) =
     (case make_dirs f a ds us of (True, g) \<Rightarrow> make_dirs g a (ds @ us) vs | (False, g) \<Rightarrow> (False, g))"
  by (induction f a ds us rule: make_dirs.induct)
    (auto simp: Let_def split: option.split fnode.split prod.split bool.split)

lemma fs_ok_prefix:
  assumes "fs_ok f" and "node_at f (a, ds @ us) = Some Dir"
  shows "node_at f (a, ds) = Some Dir"
  using assms(2)
proof (induction us rule: rev_induct)
  case (snoc u us)
  then have "(a, ds @ us @ [u]) \<in> fset (fmdom f)" by (auto simp: node_at_def intro: fmdomI)
  with assms(1) have "node_at f (a, ds @ us) = Some Dir"
    unfolding fs_ok_def by (metis append_assoc butlast_snoc fst_conv parent_fpath_def snd_conv)
  with snoc.IH show ?case .
qed simp

lemma make_dirs_present:
  assumes "fs_ok f" and "node_at f (a, ds @ us) = Some Dir"
  shows "make_dirs f a ds us = (True, f)"
  using assms(2)
proof (induction us arbitrary: ds)
  case (Cons u us)
  from Cons.prems fs_ok_prefix [OF assms(1), of a "ds @ [u]" us] have "node_at f (a, ds @ [u]) = Some Dir" by simp
  with Cons show ?case by simp
qed simp

definition fs_at :: "filesystem \<Rightarrow> string \<Rightarrow> string list \<Rightarrow> fnode option" where
  "fs_at f base ws = node_at f (fpath_of (path_at base ws))"

lemma dir_at_fs: "base_ok base \<Longrightarrow> dir_at f base ws \<longleftrightarrow> fs_at f base ws = Some Dir"
  by (simp add: dir_at_def fs_at_def fs_is_directory_def path_at_def base_ok_def)

text \<open>The file system with one more entry in a directory.\<close>

abbreviation put_at :: "filesystem \<Rightarrow> string \<Rightarrow> string list \<Rightarrow> fnode \<Rightarrow> filesystem" where
  "put_at f base ws x \<equiv> fmupd (fpath_of (path_at base ws)) x f"

lemma put_at_ok:
  assumes "fs_ok f" and "base_ok base" and "list_all name_ok (ws @ [n])"
    and "fs_at f base ws = Some Dir" and "fs_at f base (ws @ [n]) = None"
  shows "fs_ok (put_at f base (ws @ [n]) x)"
    and "node_at (put_at f base (ws @ [n]) x) q = (if q = fpath_of (path_at base (ws @ [n])) then Some x else node_at f q)"
proof -
  let ?p = "fpath_of (path_at base (ws @ [n]))"
  have p: "?p = (fst (fpath_of base), snd (fpath_of base) @ ws @ [n])" using fpath_at [OF assms(2,3)] by simp
  show node: "node_at (put_at f base (ws @ [n]) x) q = (if q = ?p then Some x else node_at f q)" for q
    by (simp add: node_at_def p)
  have par: "parent_fpath ?p = fpath_of (path_at base ws)"
    using fpath_at [OF assms(2), of ws] assms(3) by (simp add: p parent_fpath_def butlast_append)
  have free: "node_at f ?p = None" and dir: "node_at f (fpath_of (path_at base ws)) = Some Dir"
    using assms(4,5) by (simp_all add: fs_at_def)
  show "fs_ok (put_at f base (ws @ [n]) x)"
    unfolding fs_ok_def
  proof
    fix q assume "q \<in> fset (fmdom (put_at f base (ws @ [n]) x))"
    then have "node_at f (parent_fpath q) = Some Dir"
      using assms(1) par dir by (auto simp: fs_ok_def)
    with free node show "node_at (put_at f base (ws @ [n]) x) (parent_fpath q) = Some Dir" by auto
  qed
qed

lemma written_at:
  assumes "base_ok base" and "list_all name_ok (ws @ [n])" and "text_key (key_at (ws @ [n]))"
    and "fs_at f base ws = Some Dir" and "fs_at f base (ws @ [n]) = None"
  shows "Fs_Utils.written f base (key_at (ws @ [n])) c = put_at f base (ws @ [n]) (File c)"
proof -
  let ?p = "path_at base (ws @ [n])"
  have p: "buildFullPath base (key_at (ws @ [n])) = ?p" by (rule full_path_at [OF assms(1,2)]) simp
  have "parent_fpath (fpath_of ?p) = fpath_of (path_at base ws)"
    using fpath_at [OF assms(1), of ws] fpath_at [OF assms(1), of "ws @ [n]"] assms(2)
    by (simp add: parent_fpath_def butlast_append)
  then have "write_file f ?p c = Some (put_at f base (ws @ [n]) (File c))"
    using assms(4,5) by (simp add: write_file_def fs_at_def Let_def)
  moreover have "made_parent f ?p = (True, f)"
    using parent_of_entry [OF assms(1,2), of f] assms(4) by (simp add: made_parent_def fs_at_def)
  ultimately show ?thesis using assms(3) p by (simp add: Fs_Utils.written_def Let_def)
qed

lemma ensured_at:
  assumes "base_ok (g_basePath s)" and "fs_ok (fs s)" and "list_all name_ok (ws @ [n])"
    and "fs_at (fs s) (g_basePath s) ws = Some Dir" and "fs_at (fs s) (g_basePath s) (ws @ [n]) = None"
  shows "ensureDirectoryExists (key_at (ws @ [n])) s = Ret True (s\<lparr>fs := put_at (fs s) (g_basePath s) (ws @ [n]) Dir\<rparr>)"
proof -
  let ?b = "g_basePath s" and ?f = "fs s"
  let ?p = "path_at ?b (ws @ [n])"
  have p: "buildFullPath ?b (key_at (ws @ [n])) = ?p" by (rule full_path_at [OF assms(1,3)]) simp
  have fp: "fpath_of ?p = (fst (fpath_of ?b), snd (fpath_of ?b) @ ws @ [n])"
    "fpath_of (path_at ?b ws) = (fst (fpath_of ?b), snd (fpath_of ?b) @ ws)"
    using fpath_at [OF assms(1), of ws] fpath_at [OF assms(1), of "ws @ [n]"] assms(3) by simp_all
  have ne: "?p \<noteq> []" using assms(1) by (simp add: path_at_def base_ok_def)
  have free: "node_at ?f (fst (fpath_of ?b), snd (fpath_of ?b) @ ws @ [n]) = None"
    using assms(5) fp by (simp add: fs_at_def)
  have "make_dirs ?f (fst (fpath_of ?b)) [] (snd (fpath_of ?b) @ ws) = (True, ?f)"
    by (rule make_dirs_present [OF assms(2)]) (use assms(4) fp in \<open>simp add: fs_at_def\<close>)
  then have "make_dirs ?f (fst (fpath_of ?b)) [] ((snd (fpath_of ?b) @ ws) @ [n]) = (True, put_at ?f ?b (ws @ [n]) Dir)"
    unfolding make_dirs_append using free fp by simp
  then have "create_directories ?f ?p = (True, put_at ?f ?b (ws @ [n]) Dir)"
    using ne fp by (simp add: create_directories_def)
  moreover have "\<not> fs_exists ?f ?p" using free fp by (simp add: fs_exists_def)
  ultimately show ?thesis using p by (simp add: ensureDirectoryExists_def Let_def)
qed

section \<open>The namespace as a tree\<close>

text \<open>
  A directory of the service: its text files with name, version and text, and its directories.
\<close>

datatype folder = Folder (texts: "(string \<times> string \<times> string) list") (folders: "(string \<times> folder) list")

lemma folder_induct [case_names Folder]:
  "(\<And>ts ds. (\<And>n d. (n, d) \<in> set ds \<Longrightarrow> P d) \<Longrightarrow> P (Folder ts ds)) \<Longrightarrow> P F"
  by induction_schema (pat_completeness, lexicographic_order)

definition names_in :: "folder \<Rightarrow> string list" where
  "names_in F = map fst (texts F) @ map fst (folders F)"

definition text_name :: "string \<Rightarrow> bool" where
  "text_name n \<longleftrightarrow> suffix ''.txt'' n \<and> n \<noteq> ''.txt''"

text \<open>Names are names, and no two entries of a directory have the same.\<close>

fun folder_named :: "folder \<Rightarrow> bool" where
  "folder_named (Folder ts ds) \<longleftrightarrow>
     distinct (map fst ts @ map fst ds) \<and> list_all name_ok (map fst ts @ map fst ds) \<and>
     list_all text_name (map fst ts) \<and> (\<forall>d \<in> set ds. folder_named (snd d))"

fun height :: "folder \<Rightarrow> nat" where
  "height (Folder ts ds) = Suc (foldr max (map (\<lambda>d. height (snd d)) ds) 0)"

lemma height_sub: "(n, d) \<in> set ds \<Longrightarrow> height d < height (Folder ts ds)"
  by (induction ds) (auto simp: less_Suc_eq_le max_def)

definition listing_of :: "string list \<Rightarrow> folder \<Rightarrow> dir_meta" where
  "listing_of ws F = \<lparr>files = map (\<lambda>t. key_at (ws @ [fst t])) (texts F),
     directories = map (\<lambda>d. key_at (ws @ [fst d])) (folders F), directoryName = key_at ws\<rparr>"

lemma text_name_key:
  assumes "text_name n" and "name_ok n" shows "text_key (key_at (ws @ [n]))"
proof -
  from assms obtain m where m: "n = m @ ''.txt''" "m \<noteq> []" by (auto simp: text_name_def suffix_def)
  with assms(2) have "CHR ''/'' \<notin> set m" by (simp add: name_ok_def)
  with path_extension_txt [OF m(2), of "key_at ws @ ''/''"] m(1) show ?thesis
    by (simp add: text_key_def key_at_entry)
qed

section \<open>The tree on the services and on the device\<close>

text \<open>
  The metadata server knows every directory with its entries and every file, and the storage servers
  it names for a file hold its text.
\<close>

definition text_served :: "('y) codec_scheme \<Rightarrow> (cluster, 'x) meta_ext_scheme \<Rightarrow> services \<Rightarrow> string \<Rightarrow>
    string \<Rightarrow> string \<times> string \<Rightarrow> bool" where
  "text_served C M w u k = (\<lambda>(ver, txt). docs M (meta_state w) (user_key u k) \<noteq> None \<and>
     endpoints_for M w u k \<noteq> [] \<and> fits k (endpoints_for M w u k) \<and> group_ok w (endpoints_for M w u k) \<and>
     binding w (endpoints_for M w u k) (user_key u k) = Some (JStr (text_of C (file_doc ver txt))) \<and>
     txt \<noteq> DELETE_VALUE)"

fun served :: "('y) codec_scheme \<Rightarrow> (cluster, 'x) meta_ext_scheme \<Rightarrow> services \<Rightarrow> string \<Rightarrow> string list \<Rightarrow>
    folder \<Rightarrow> bool" where
  "served C M w u ws (Folder ts ds) \<longleftrightarrow>
     (\<exists>D. docs M (meta_state w) (user_key u (key_at ws)) = Some D \<and> same_lists (listing_of ws (Folder ts ds)) D) \<and>
     (\<forall>t \<in> set ts. text_served C M w u (key_at (ws @ [fst t])) (snd t)) \<and>
     (\<forall>d \<in> set ds. served C M w u (ws @ [fst d]) (snd d))"

text \<open>The device has the text of a file in the file and on record, and every directory with its listing.\<close>

definition text_copied :: "('w, 'd, 'x) client_ext_scheme \<Rightarrow> ('d \<Rightarrow> string \<rightharpoonup> string) \<Rightarrow> ('w, 'd) client \<Rightarrow>
    string \<Rightarrow> string \<times> string \<Rightarrow> bool" where
  "text_copied C view s k = (\<lambda>(ver, txt). local_text s k = txt \<and>
     db_docs C view s k = Some (file_json (recorded C (File_Metadata k) txt ver)))"

fun copied :: "('w, 'd, 'x) client_ext_scheme \<Rightarrow> ('d \<Rightarrow> string \<rightharpoonup> string) \<Rightarrow> ('w, 'd) client \<Rightarrow>
    string list \<Rightarrow> folder \<Rightarrow> bool" where
  "copied C view s ws (Folder ts ds) \<longleftrightarrow>
     dir_at (fs s) (g_basePath s) ws \<and> db_docs C view s (key_at ws) = Some (dir_json (listing_of ws (Folder ts ds))) \<and>
     (\<forall>t \<in> set ts. text_copied C view s (key_at (ws @ [fst t])) (snd t)) \<and>
     (\<forall>d \<in> set ds. copied C view s (ws @ [fst d]) (snd d))"

section \<open>What a step touches\<close>

text \<open>The key or path of an entry is at or below that of a directory.\<close>

definition path_below :: "string \<Rightarrow> string list \<Rightarrow> fpath \<Rightarrow> bool" where
  "path_below base ws q \<longleftrightarrow> below (fpath_of (path_at base ws)) q"

text \<open>Only the cache, the record and the files change, the last two at and below the entries \<open>Ws\<close>.\<close>

definition touches :: "('d \<Rightarrow> string \<rightharpoonup> string) \<Rightarrow> string list set \<Rightarrow> ('w, 'd) client \<Rightarrow> ('w, 'd) client \<Rightarrow> bool" where
  "touches view Ws s t \<longleftrightarrow> (\<exists>c d f. t = s\<lparr>cache_instance := c, db := d, fs := f\<rparr>) \<and>
     (\<forall>x. (\<forall>ws \<in> Ws. \<not> at_or_below (key_at ws) x) \<longrightarrow> db_view view t x = db_view view s x) \<and>
     (\<forall>q. (\<forall>ws \<in> Ws. \<not> path_below (g_basePath s) ws q) \<longrightarrow> node_at (fs t) q = node_at (fs s) q)"

definition agrees :: "('d \<Rightarrow> string \<rightharpoonup> string) \<Rightarrow> string list \<Rightarrow> ('w, 'd) client \<Rightarrow> ('w, 'd) client \<Rightarrow> bool" where
  "agrees view ws s t \<longleftrightarrow> g_basePath t = g_basePath s \<and>
     (\<forall>x. at_or_below (key_at ws) x \<longrightarrow> db_view view t x = db_view view s x) \<and>
     (\<forall>q. path_below (g_basePath s) ws q \<longrightarrow> node_at (fs t) q = node_at (fs s) q)"

definition unused :: "('d \<Rightarrow> string \<rightharpoonup> string) \<Rightarrow> string list \<Rightarrow> ('w, 'd) client \<Rightarrow> bool" where
  "unused view ws s \<longleftrightarrow> (\<forall>x. at_or_below (key_at ws) x \<longrightarrow> db_view view s x = None) \<and>
     (\<forall>q. path_below (g_basePath s) ws q \<longrightarrow> node_at (fs s) q = None)"

lemma touches_fields:
  assumes "touches view Ws s t"
  shows "web t = web s" "token t = token s" "meta_lb t = meta_lb s" "device_id t = device_id s"
    "g_basePath t = g_basePath s"
  using assms by (auto simp: touches_def)

lemma touches_refl: "touches view Ws s s"
  unfolding touches_def by (cases s) auto

lemma touches_trans:
  assumes "touches view Ws s t" and "touches view Vs t u"
  shows "touches view (Ws \<union> Vs) s u"
proof -
  from assms obtain c d f where "u = s\<lparr>cache_instance := c, db := d, fs := f\<rparr>" by (auto simp: touches_def)
  then show ?thesis
    using assms touches_fields(5) [OF assms(1)] unfolding touches_def by (auto 6 0)
qed

lemma path_below_self: "path_below base ws (fpath_of (path_at base ws))"
  by (simp add: path_below_def below_def)

lemma unused_here:
  assumes "unused view ws s"
  shows "fs_at (fs s) (g_basePath s) ws = None" and "db_view view s (key_at ws) = None"
  using assms path_below_self [of "g_basePath s" ws] unfolding unused_def fs_at_def at_or_below_def by blast+

lemma path_below_entry:
  assumes "base_ok base" and "list_all name_ok (ws @ [n])" and "path_below base (ws @ [n]) q"
  shows "path_below base ws q \<and> q \<noteq> fpath_of (path_at base ws)"
  using assms(3) fpath_at [OF assms(1), of ws] fpath_at [OF assms(1), of "ws @ [n]"] assms(2)
  by (auto simp: path_below_def below_def prefix_def)

lemma paths_apart:
  assumes "base_ok base" and "list_all name_ok (ws @ [n])" and "list_all name_ok (ws @ [m])"
    and "path_below base (ws @ [n]) q" and "path_below base (ws @ [m]) q"
  shows "n = m"
  using assms(4,5) fpath_at [OF assms(1,2)] fpath_at [OF assms(1,3)]
  by (auto simp: path_below_def below_def prefix_def)

lemma agreesI:
  assumes "touches view Ws s t"
    and "\<And>ws x. ws \<in> Ws \<Longrightarrow> at_or_below (key_at vs) x \<Longrightarrow> \<not> at_or_below (key_at ws) x"
    and "\<And>ws q. ws \<in> Ws \<Longrightarrow> path_below (g_basePath s) vs q \<Longrightarrow> \<not> path_below (g_basePath s) ws q"
  shows "agrees view vs s t"
  using assms touches_fields(5) [OF assms(1)] unfolding touches_def agrees_def by blast

text \<open>What is at another entry of the same directory is as before.\<close>

lemma entry_agrees:
  assumes "touches view ((\<lambda>n. ws @ [n]) ` N) s t" and "m \<notin> N" and "base_ok (g_basePath s)"
    and "list_all name_ok (ws @ [m])" and "\<forall>n \<in> N. name_ok n"
  shows "agrees view (ws @ [m]) s t"
proof (rule agreesI [OF assms(1)])
  have m: "name_ok m" and ws: "list_all name_ok ws" using assms(4) by simp_all
  fix vs assume "vs \<in> (\<lambda>n. ws @ [n]) ` N"
  then obtain n where n: "vs = ws @ [n]" "n \<in> N" "n \<noteq> m" "name_ok n" using assms(2,5) by auto
  show "\<not> at_or_below (key_at vs) x" if "at_or_below (key_at (ws @ [m])) x" for x
    using entries_apart [OF n(4) m _ that] n by blast
  show "\<not> path_below (g_basePath s) vs q" if "path_below (g_basePath s) (ws @ [m]) q" for q
    using paths_apart [OF assms(3) _ assms(4) _ that, of n] n ws by auto
qed

lemma agreesD:
  assumes "agrees view ws s t"
  shows "g_basePath t = g_basePath s" and "at_or_below (key_at ws) x \<Longrightarrow> db_view view t x = db_view view s x"
    and "path_below (g_basePath s) ws q \<Longrightarrow> node_at (fs t) q = node_at (fs s) q"
  using assms unfolding agrees_def by blast+

lemma agrees_docs:
  assumes "agrees view vs s t" and "at_or_below (key_at vs) k"
  shows "db_docs C view t k = db_docs C view s k"
  using assms by (simp add: db_docs_view agrees_def)

lemma agrees_at:
  assumes "agrees view vs s t" and "base_ok (g_basePath s)" and "list_all name_ok (vs @ us)"
  shows "fs_at (fs t) (g_basePath t) (vs @ us) = fs_at (fs s) (g_basePath s) (vs @ us)"
proof -
  have "path_below (g_basePath s) vs (fpath_of (path_at (g_basePath s) (vs @ us)))"
    using fpath_at [OF assms(2,3)] fpath_at [OF assms(2), of vs] assms(3) by (simp add: path_below_def below_def)
  with agreesD [OF assms(1)] show ?thesis by (simp add: fs_at_def)
qed

lemma agrees_sub:
  assumes "agrees view vs s t" and "base_ok (g_basePath s)" and "list_all name_ok (vs @ us)"
  shows "agrees view (vs @ us) s t"
proof -
  have "path_below (g_basePath s) vs q" if "path_below (g_basePath s) (vs @ us) q" for q
    using that fpath_at [OF assms(2,3)] fpath_at [OF assms(2), of vs] assms(3)
    by (auto simp: path_below_def below_def prefix_def)
  moreover have "at_or_below (key_at vs) x" if "at_or_below (key_at (vs @ us)) x" for x
    using at_or_below_trans [OF at_or_below_key that] .
  ultimately show ?thesis using assms(1) by (simp add: agrees_def)
qed

lemma agrees_unused: "agrees view ws s t \<Longrightarrow> unused view ws s \<Longrightarrow> unused view ws t"
  by (auto simp: agrees_def unused_def)

lemma local_text_at:
  assumes "base_ok (g_basePath s)" and "list_all name_ok ws" and "ws \<noteq> []" and "text_key (key_at ws)"
  shows "local_text s (key_at ws) = (case fs_at (fs s) (g_basePath s) ws of Some (File c) \<Rightarrow> c | _ \<Rightarrow> [])"
  using assms(4) full_path_at [OF assms(1-3)]
  by (simp add: local_text_def read_file_def fs_at_def split: option.split fnode.split)

lemma agrees_text:
  assumes "agrees view ws s t" and "base_ok (g_basePath s)" and "list_all name_ok ws" and "ws \<noteq> []"
    and "text_copied C view s (key_at ws) x"
  shows "text_copied C view t (key_at ws) x"
proof -
  have base: "g_basePath t = g_basePath s" using assms(1) by (simp add: agrees_def)
  have "local_text t (key_at ws) = local_text s (key_at ws)"
  proof (cases "text_key (key_at ws)")
    case True
    with local_text_at [of s ws] local_text_at [of t ws] agrees_at [OF assms(1,2), of "[]"] assms(2-4) base show ?thesis by simp
  qed (simp add: local_text_def)
  with agrees_docs [OF assms(1), of "key_at ws" C] assms(5) show ?thesis
    by (auto simp: text_copied_def at_or_below_def)
qed

lemma agrees_copied:
  "agrees view ws s t \<Longrightarrow> base_ok (g_basePath s) \<Longrightarrow> list_all name_ok ws \<Longrightarrow> folder_named F \<Longrightarrow>
     copied C view s ws F \<Longrightarrow> copied C view t ws F"
proof (induction F arbitrary: ws rule: folder_induct)
  case (Folder ts ds)
  note a = Folder.prems(1) and b = Folder.prems(2)
  have base: "g_basePath t = g_basePath s" using a by (simp add: agrees_def)
  have names: "list_all name_ok (ws @ [n])" if "n \<in> set (map fst ts @ map fst ds)" for n
    using Folder.prems(3,4) that by (auto simp: list_all_iff)
  have "dir_at (fs t) (g_basePath t) ws"
    using Folder.prems(5) agrees_at [OF a b, of "[]"] Folder.prems(3) base dir_at_fs b by simp
  moreover have "db_docs C view t (key_at ws) = db_docs C view s (key_at ws)"
    by (rule agrees_docs [OF a]) (simp add: at_or_below_def)
  moreover have "text_copied C view t (key_at (ws @ [fst x])) (snd x)" if "x \<in> set ts" for x
  proof -
    have "fst x \<in> set (map fst ts @ map fst ds)" using that by simp
    note n = names [OF this]
    show ?thesis by (rule agrees_text [OF agrees_sub [OF a b n] b n]) (use Folder.prems(5) that in auto)
  qed
  moreover have "copied C view t (ws @ [fst d]) (snd d)" if "d \<in> set ds" for d
  proof -
    have "fst d \<in> set (map fst ts @ map fst ds)" and m: "(fst d, snd d) \<in> set ds" using that by simp_all
    note n = names [OF this(1)]
    show ?thesis by (rule Folder.IH [OF m agrees_sub [OF a b n] b n]) (use Folder.prems(4,5) that in auto)
  qed
  ultimately show ?case using Folder.prems(5) by simp
qed

section \<open>The entries of a directory, one after the other\<close>

text \<open>
  The loops over the entries of a directory, whatever they do with one: \<open>moves N\<close> is that a step touches
  the entries \<open>N\<close> only.
\<close>

locale entry_steps =
  fixes moves :: "string set \<Rightarrow> 's \<Rightarrow> 's \<Rightarrow> bool"
  assumes moves_none: "moves {} s s"
    and moves_both: "moves N s t \<Longrightarrow> moves L t v \<Longrightarrow> moves (N \<union> L) s v"
begin

text \<open>
  \<open>I\<close> holds throughout, \<open>T\<close> is what is there to do for an entry and \<open>P\<close> what has been done; both stay when
  other entries are dealt with.  \<open>G\<close> follows what grows with each entry.
\<close>

lemma entries_done:
  assumes body: "\<And>x s a. x \<in> set xs \<Longrightarrow> I s \<Longrightarrow> G a s \<Longrightarrow> T x s \<Longrightarrow>
      \<exists>t. g (key x) s = Ret () t \<and> I t \<and> moves {fst x} s t \<and> G (grow (key x) a) t \<and> P x t"
    and stays: "\<And>x N s t. x \<in> set xs \<Longrightarrow> I s \<Longrightarrow> moves N s t \<Longrightarrow> N \<subseteq> fst ` set xs \<Longrightarrow> fst x \<notin> N \<Longrightarrow>
      (T x s \<longrightarrow> T x t) \<and> (P x s \<longrightarrow> P x t)"
    and xs: "distinct (map fst xs)"
    and s: "I s" "G a s" "\<forall>x \<in> set xs. T x s"
  shows "\<exists>t. for_each (map key xs) g s = Ret () t \<and> I t \<and> moves (fst ` set xs) s t \<and>
    G (fold grow (map key xs) a) t \<and> (\<forall>x \<in> set xs. P x t)"
  using assms
proof (induction xs arbitrary: s a)
  case Nil
  then show ?case by (intro exI [of _ s]) (simp add: moves_none)
next
  case (Cons x xs)
  have new: "fst x \<notin> fst ` set xs" using Cons.prems(3) by simp
  obtain t where t: "g (key x) s = Ret () t" "I t" "moves {fst x} s t" "G (grow (key x) a) t" "P x t"
    using Cons.prems(1) [of x s a] Cons.prems(4-6) by auto
  have "T y t" if "y \<in> set xs" for y
  proof -
    have "fst y \<notin> {fst x}" using new that by (auto intro: rev_image_eqI)
    then show ?thesis using Cons.prems(2) [of y s "{fst x}" t] Cons.prems(4,6) t(3) that by simp
  qed
  moreover have stays: "y \<in> set xs \<Longrightarrow> I s \<Longrightarrow> moves N s t \<Longrightarrow> N \<subseteq> fst ` set xs \<Longrightarrow> fst y \<notin> N \<Longrightarrow>
      (T y s \<longrightarrow> T y t) \<and> (P y s \<longrightarrow> P y t)" for y N s t
    by (rule Cons.prems(2)) auto
  ultimately have "\<exists>v. for_each (map key xs) g t = Ret () v \<and> I v \<and> moves (fst ` set xs) t v \<and>
      G (fold grow (map key xs) (grow (key x) a)) v \<and> (\<forall>y \<in> set xs. P y v)"
    by (intro Cons.IH [OF Cons.prems(1)]) (use Cons.prems(3) t(2,4) in simp_all)
  then obtain v where v: "for_each (map key xs) g t = Ret () v" "I v" "moves (fst ` set xs) t v"
    "G (fold grow (map key xs) (grow (key x) a)) v" "\<forall>y \<in> set xs. P y v" by blast
  have "P x v" using Cons.prems(2) [of x t "fst ` set xs" v] t(2,5) v(3) new by auto
  then show ?case using t(1) v moves_both [OF t(3) v(3)] by (intro exI [of _ v]) simp
qed

end

interpretation fetching: entry_steps "\<lambda>N. touches view ((\<lambda>n. ws @ [n]) ` N)" for view ws
proof unfold_locales
  show "touches view ((\<lambda>n. ws @ [n]) ` {}) s s" for s by (rule touches_refl)
  show "touches view ((\<lambda>n. ws @ [n]) ` (N \<union> L)) s v"
    if "touches view ((\<lambda>n. ws @ [n]) ` N) s t" "touches view ((\<lambda>n. ws @ [n]) ` L) t v" for N L s t v
    using touches_trans [OF that] by (simp add: image_Un)
qed

end
