(* ===== verification/Fetch_Props.thy ===== *)
theory Fetch_Props
  imports Fetch_Tree
begin

text \<open>
  The three synchronisations at start-up on a new device: everything in the user's namespace is fetched,
  to whatever depth, and the services are only read.
\<close>

section \<open>Requests that only read\<close>

text \<open>
  The device is logged in, its database works, and what its cache holds is what the metadata server would
  answer.
\<close>

definition can_fetch :: "(services, 'd, 'y) client_ext_scheme \<Rightarrow> (services, 'x) meta_ext_scheme \<Rightarrow> string \<Rightarrow>
    (cluster, 'z) meta_ext_scheme \<Rightarrow> string \<times> nat \<Rightarrow> string \<Rightarrow> ('d \<Rightarrow> string \<rightharpoonup> string) \<Rightarrow> (services, 'd) client \<Rightarrow> bool" where
  "can_fetch C X pk M addr u view s \<longleftrightarrow> logged_in M addr u s \<and>
     verify_jwt X pk (time_now X (web s)) (token s) = Some u \<and> ready M (server s) \<and>
     db_ok C view s \<and> base_ok (g_basePath s) \<and> fs_ok (fs s) \<and>
     (\<exists>c. cache_instance s = Some c \<and> lru.explained (\<lambda>k es. es = endpoints_for M (web s) u k) c)"

text \<open>Asking for a listing changes nothing.\<close>

lemma listing_asked:
  assumes C: "meta_service C M addr" and s: "logged_in M addr u s" "ready M (server s)"
    and D: "docs M (server s) (user_key u k) = Some D" "lists_field f D"
  shows "ask_meta C ''/list-directory'' k s = Ret D s" and "D \<noteq> JNull"
proof -
  obtain m where m: "D = JObj m" using D(2) by (auto simp: lists_field_def split: json.splits)
  then show "D \<noteq> JNull" by simp
  obtain j where j: "json_parse M (req_body (request_of C s k)) = Some j" "string_at j ''path'' = Inr k"
    using request_forE [OF request_for_of [OF C]] by metis
  obtain v where v: "meta_view M (server s) (user_key u k) = Some v" "doc_of M v = Some D"
    using D(1) by (rule docs_Some)
  then obtain d where d: "json_parse M v = Some d" by (cases "json_parse M v") (simp_all add: doc_of_def)
  from list_directory_runs [OF s(2) asks_as_of [OF s(1)] j] v(1) d have
    "serve M ''/list-directory'' (request_of C s k) (server s) = Ret (reply 200 (text_of M d)) (server s)"
    by (simp add: serve_def route_def)
  moreover have "parse_body C (text_of M d) = Inr (JObj m)"
    using v(2) d m meta_serviceD(8) [OF C] C
    by (cases d) (simp_all add: parse_body_def parse_def doc_of_def meta_service_def)
  ultimately show "ask_meta C ''/list-directory'' k s = Ret D s"
    using ask_meta_read [OF C s(1)] m by simp
qed

lemma for_each_listed:
  assumes "lists_field f D" and "entries f D = map JStr ks"
  shows "for_each_key D f body s = for_each ks body s" and "listed D f = Inr ks"
proof -
  from assms obtain m where m: "D = JObj m" "fmlookup m f = Some (JArr (map JStr ks))"
    by (auto elim!: lists_fieldE simp: entries_def)
  have "for_each (map JStr xs) (\<lambda>j. bind (lift_exn (get_string j)) body) s = for_each xs body s" for xs s
    by (induction xs arbitrary: s) (auto simp: get_string_def split: outcome.split)
  then show "for_each_key D f body s = for_each ks body s"
    using m by (simp add: for_each_key_def contains_def subscript_def elements_def)
  show "listed D f = Inr ks" using m by (simp add: listed_def contains_def subscript_def elements_def)
qed

section \<open>One file\<close>

lemma text_fetched:
  assumes C: "meta_service C M addr" and B: "block_service C X pk" and s: "can_fetch C X pk M addr u view s"
    and x: "text_served C M (web s) u (key_at (ws @ [n])) (ver, txt)"
    and n: "list_all name_ok (ws @ [n])" "text_name n"
    and place: "dir_at (fs s) (g_basePath s) ws" "unused view (ws @ [n]) s"
  obtains t where "fetchNewFile C (key_at (ws @ [n])) s = Ret True t" and "can_fetch C X pk M addr u view t"
    and "touches view {ws @ [n]} s t" and "text_copied C view t (key_at (ws @ [n])) (ver, txt)"
proof -
  let ?k = "key_at (ws @ [n])" and ?b = "g_basePath s"
  let ?es = "endpoints_for M (web s) u ?k" and ?P = "\<lambda>k es. es = endpoints_for M (web s) u k"
  from s have live: "logged_in M addr u s" "ready M (server s)" "db_ok C view s" "base_ok ?b" "fs_ok (fs s)"
    "verify_jwt X pk (time_now X (web s)) (token s) = Some u" by (simp_all add: can_fetch_def)
  obtain c where c: "cache_instance s = Some c" "lru.explained ?P c" using s by (auto simp: can_fetch_def)
  from x have es: "?es \<noteq> []" "fits ?k ?es" "group_ok (web s) ?es" "txt \<noteq> DELETE_VALUE"
    "binding (web s) ?es (u @ '':'' @ ?k) = Some (JStr (text_of C (file_doc ver txt)))"
    by (simp_all add: text_served_def user_key_def)
  obtain D where D: "docs M (server s) (user_key u ?k) = Some D" using x by (auto simp: text_served_def)
  obtain d where d: "getFileEndpoints C ?k s = Ret ?es (s\<lparr>cache_instance := Some d\<rparr>)" "lru.explained ?P d"
    by (rule endpoints_known [OF C live(1,2) D refl es(1,2) c]) simp_all
  obtain r where r: "getFile C ?es ?k (token s) (web s) = Ret r (web s)" "resp_success r"
    "remote_file C (resp_value r) = Inr (Some (txt, ver))"
    by (rule getFile_held [OF B es(3) live(6) es(5,4)])
  have tok: "token s \<noteq> []" using live(1) by (simp add: logged_in_def)
  let ?m = "recorded C (File_Metadata ?k) txt ver"
  let ?f = "put_at (fs s) ?b (ws @ [n]) (File txt)"
  let ?s1 = "s\<lparr>cache_instance := Some d, fs := ?f\<rparr>"
  have key: "text_key ?k" by (rule text_name_key) (use n in simp_all)
  have dir: "fs_at (fs s) ?b ws = Some Dir" using place(1) dir_at_fs live(4) by simp
  have free: "fs_at (fs s) ?b (ws @ [n]) = None" using unused_here(1) [OF place(2)] .
  note put = put_at_ok [OF live(5,4) n(1) dir free, of "File txt"]
  have down: "download C ?k s = Ret (Some (txt, ver)) (s\<lparr>cache_instance := Some d\<rparr>)"
    using d(1) es(1) tok r by (simp add: download_def on_web_def)
  have ok1: "db_ok C view ?s1" using live(3) by simp
  obtain t where t: "db_run view (db_store C ?k (file_json ?m)) True ?s1 t ((db_view view ?s1)(?k \<mapsto> text_of C (file_json ?m)))"
    by (rule db_store_run [OF ok1])
  obtain e where e: "t = ?s1\<lparr>db := Some e\<rparr>" using t by (auto simp: db_run_def)
  note V = db_runD(2) [OF t]
  have fetched: "fetchNewFile C ?k s = Ret True t"
    using down db_runD(1) [OF t] written_at [OF live(4) n(1) key dir free, of "txt"]
    by (simp add: fetchNewFile_def file_store_def)
  have ok_t: "db_ok C view t" by (rule db_runD(5) [OF t ok1])
  have "can_fetch C X pk M addr u view t"
    using live d(2) ok_t put(1) unfolding e by (simp add: can_fetch_def logged_in_def)
  moreover have "touches view {ws @ [n]} s t"
    unfolding touches_def
  proof (intro conjI allI impI)
    show "\<exists>c d f. t = s\<lparr>cache_instance := c, db := d, fs := f\<rparr>"
      unfolding e by (intro exI [of _ "Some d"] exI [of _ "Some e"] exI [of _ ?f]) simp
    show "db_view view t x = db_view view s x" if "\<forall>ws' \<in> {ws @ [n]}. \<not> at_or_below (key_at ws') x" for x
      using that V by (auto simp: at_or_below_def db_view_def)
    show "node_at (fs t) q = node_at (fs s) q" if "\<forall>ws' \<in> {ws @ [n]}. \<not> path_below ?b ws' q" for q
      using that put(2) [of q] path_below_self by (auto simp: e)
  qed
  moreover have "text_copied C view t ?k (ver, txt)"
  proof -
    have "local_text t ?k = txt"
      using local_text_at [of t "ws @ [n]"] key n(1) live(4) put(2) by (simp add: e fs_at_def)
    moreover have "db_docs C view t ?k = Some (file_json ?m)"
      using V codec_total_parse [OF meta_serviceD(1) [OF C]] by (simp add: db_docs_view)
    ultimately show ?thesis by (simp add: text_copied_def)
  qed
  ultimately show thesis using fetched that by blast
qed

section \<open>The entries of a directory\<close>

lemma touches_up:
  assumes t: "touches view ((\<lambda>n. ws @ [n]) ` N) s t" and b: "base_ok (g_basePath s)"
    and ws: "list_all name_ok ws" "\<forall>n \<in> N. name_ok n"
  shows "touches view {ws} s t" and "fs_at (fs t) (g_basePath t) ws = fs_at (fs s) (g_basePath s) ws"
    and "db_view view t (key_at ws) = db_view view s (key_at ws)"
proof -
  have below: "path_below (g_basePath s) ws q \<and> q \<noteq> fpath_of (path_at (g_basePath s) ws)"
    if "n \<in> N" "path_below (g_basePath s) (ws @ [n]) q" for n q
    by (rule path_below_entry [OF b _ that(2)]) (use ws that(1) in simp)
  show "touches view {ws} s t"
    using t below at_or_below_entry unfolding touches_def by blast
  show "fs_at (fs t) (g_basePath t) ws = fs_at (fs s) (g_basePath s) ws"
    using t below touches_fields(5) [OF t] unfolding touches_def fs_at_def by (metis (no_types, lifting) imageE)
  show "db_view view t (key_at ws) = db_view view s (key_at ws)"
    using t at_or_below_entry unfolding touches_def by blast
qed

lemma can_fetch_base: "can_fetch C X pk M addr u view s \<Longrightarrow> base_ok (g_basePath s)"
  by (simp add: can_fetch_def)

lemma entries_loop:
  assumes body: "\<And>x s. x \<in> set xs \<Longrightarrow> can_fetch C X pk M addr u view s \<Longrightarrow> web s = w \<Longrightarrow>
      dir_at (fs s) (g_basePath s) ws \<Longrightarrow> unused view (ws @ [fst x]) s \<Longrightarrow>
      \<exists>t. g (key_at (ws @ [fst x])) s = Ret () t \<and> can_fetch C X pk M addr u view t \<and>
        touches view {ws @ [fst x]} s t \<and> P x t"
    and stays: "\<And>x s t. x \<in> set xs \<Longrightarrow> base_ok (g_basePath s) \<Longrightarrow> agrees view (ws @ [fst x]) s t \<Longrightarrow> P x s \<Longrightarrow> P x t"
    and names: "distinct (map fst xs)" "list_all name_ok ws" "\<forall>x \<in> set xs. name_ok (fst x)"
    and s: "can_fetch C X pk M addr u view s" "web s = w" "dir_at (fs s) (g_basePath s) ws"
      "\<forall>x \<in> set xs. unused view (ws @ [fst x]) s"
  shows "\<exists>t. for_each (map (\<lambda>x. key_at (ws @ [fst x])) xs) g s = Ret () t \<and> can_fetch C X pk M addr u view t \<and>
    touches view ((\<lambda>n. ws @ [n]) ` fst ` set xs) s t \<and> (\<forall>x \<in> set xs. P x t)"
proof -
  let ?I = "\<lambda>s. can_fetch C X pk M addr u view s \<and> web s = w \<and> dir_at (fs s) (g_basePath s) ws"
  have I: "?I s" using s(1-3) by simp
  have T: "\<forall>x \<in> set xs. unused view (ws @ [fst x]) s" by (rule s(4))
  show ?thesis
  proof (rule fetching.entries_done [where I = ?I and T = "\<lambda>x s. unused view (ws @ [fst x]) s" and G = "\<lambda>_ _. True"
        and key = "\<lambda>x. key_at (ws @ [fst x])" and P = P and xs = xs and s = s and ws = ws and view = view, THEN exE])
    fix x s a assume x: "x \<in> set xs" "?I s" "unused view (ws @ [fst x]) s"
    then obtain t where t: "g (key_at (ws @ [fst x])) s = Ret () t" "can_fetch C X pk M addr u view t"
      "touches view {ws @ [fst x]} s t" "P x t" using body by blast
    have one: "touches view ((\<lambda>n. ws @ [n]) ` {fst x}) s t" using t(3) by simp
    have "base_ok (g_basePath s)" "base_ok (g_basePath t)" using x(2) t(2) can_fetch_base by blast+
    then have "dir_at (fs t) (g_basePath t) ws"
      using touches_up(2) [OF one _ names(2)] names(3) x(1,2) dir_at_fs by simp
    then show "\<exists>t. g (key_at (ws @ [fst x])) s = Ret () t \<and> ?I t \<and> touches view ((\<lambda>n. ws @ [n]) ` {fst x}) s t \<and>
        True \<and> P x t"
      using t x(2) touches_fields(1) [OF t(3)] by auto
  next
    fix x N s t assume a: "x \<in> set xs" "?I s" "touches view ((\<lambda>n. ws @ [n]) ` N) s t" "N \<subseteq> fst ` set xs" "fst x \<notin> N"
    have b: "base_ok (g_basePath s)" using a(2) can_fetch_base by blast
    have "agrees view (ws @ [fst x]) s t"
      by (rule entry_agrees [OF a(3,5) b]) (use names(2,3) a(1,4) in auto)
    then show "(unused view (ws @ [fst x]) s \<longrightarrow> unused view (ws @ [fst x]) t) \<and> (P x s \<longrightarrow> P x t)"
      using agrees_unused stays [OF a(1) b] by blast
  qed (use names(1) I T in auto)
qed

section \<open>A directory with everything below\<close>

lemma same_lists_loops:
  assumes "same_lists dm D"
  shows "for_each_key D ''files'' body s = for_each (files dm) body s" "listed D ''files'' = Inr (files dm)"
    "for_each_key D ''subdirectories'' body s = for_each (directories dm) body s"
    "listed D ''subdirectories'' = Inr (directories dm)"
proof -
  from assms have f: "lists_field ''files'' D" "entries ''files'' D = map JStr (files dm)"
    and d: "lists_field ''subdirectories'' D" "entries ''subdirectories'' D = map JStr (directories dm)"
    by (simp_all add: same_lists_def)
  show "for_each_key D ''files'' body s = for_each (files dm) body s" "listed D ''files'' = Inr (files dm)"
    by (rule for_each_listed [OF f])+
  show "for_each_key D ''subdirectories'' body s = for_each (directories dm) body s"
    "listed D ''subdirectories'' = Inr (directories dm)"
    by (rule for_each_listed [OF d])+
qed

lemma directory_made:
  assumes s: "can_fetch C X pk M addr u view s" and ws: "list_all name_ok (vs @ [n])"
    and place: "dir_at (fs s) (g_basePath s) vs" "unused view (vs @ [n]) s"
  obtains t where "ensureDirectoryExists (key_at (vs @ [n])) s = Ret True t" and "can_fetch C X pk M addr u view t"
    and "touches view {vs @ [n]} s t" and "dir_at (fs t) (g_basePath t) (vs @ [n])"
    and "\<And>m. name_ok m \<Longrightarrow> unused view (vs @ [n, m]) t"
proof -
  let ?b = "g_basePath s" and ?ws = "vs @ [n]"
  let ?t = "s\<lparr>fs := put_at (fs s) ?b ?ws Dir\<rparr>"
  from s have live: "base_ok ?b" "fs_ok (fs s)" by (simp_all add: can_fetch_def)
  have dir: "fs_at (fs s) ?b vs = Some Dir" using place(1) dir_at_fs live(1) by simp
  note put = put_at_ok [OF live(2,1) ws dir unused_here(1) [OF place(2)], of Dir]
  have same: "db_view view ?t = db_view view s" by (simp add: db_view_def)
  show thesis
  proof (rule that [of ?t])
    show "ensureDirectoryExists (key_at ?ws) s = Ret True ?t"
      by (rule ensured_at [OF live ws dir unused_here(1) [OF place(2)]])
    show "can_fetch C X pk M addr u view ?t" using s put(1) by (simp add: can_fetch_def logged_in_def)
    show "touches view {?ws} s ?t"
      unfolding touches_def same
    proof (intro conjI allI impI)
      show "\<exists>c d f. ?t = s\<lparr>cache_instance := c, db := d, fs := f\<rparr>"
        by (intro exI [of _ "cache_instance s"] exI [of _ "db s"] exI [of _ "put_at (fs s) ?b ?ws Dir"]) simp
      show "node_at (fs ?t) q = node_at (fs s) q" if "\<forall>ws' \<in> {?ws}. \<not> path_below ?b ws' q" for q
        using that put(2) [of q] path_below_self by auto
    qed simp
    show "dir_at (fs ?t) (g_basePath ?t) ?ws" using dir_at_fs live(1) put(2) by (simp add: fs_at_def)
    show "unused view (vs @ [n, m]) ?t" if m: "name_ok m" for m
      unfolding unused_def same
    proof (intro conjI allI impI)
      have wm: "list_all name_ok (?ws @ [m])" using ws m by simp
      show "db_view view s x = None" if "at_or_below (key_at (vs @ [n, m])) x" for x
        using place(2) at_or_below_entry [of ?ws m x] that unfolding unused_def by simp
      show "node_at (fs ?t) q = None" if "path_below (g_basePath ?t) (vs @ [n, m]) q" for q
        using path_below_entry [OF live(1) wm, of q] that put(2) [of q] place(2) unfolding unused_def by simp
    qed
  qed
qed

lemma listing_stored:
  assumes s: "can_fetch C X pk M addr u view s"
  obtains t where "dir_store C dm s = Ret True t" and "can_fetch C X pk M addr u view t"
    and "fs t = fs s" and "web t = web s"
    and "db_docs C view t (directoryName dm) = Some (dir_json dm)"
    and "\<And>k. k \<noteq> directoryName dm \<Longrightarrow> db_view view t k = db_view view s k"
    and "\<exists>e. t = s\<lparr>db := Some e\<rparr>"
proof -
  have ok: "db_ok C view s" using s by (simp add: can_fetch_def)
  then have cd: "codec_total C" by (simp add: db_ok_def)
  obtain t where t: "db_run view (db_store C (directoryName dm) (dir_json dm)) True s t
      ((db_view view s)(directoryName dm \<mapsto> text_of C (dir_json dm)))"
    by (rule db_store_run [OF ok])
  obtain e where e: "t = s\<lparr>db := Some e\<rparr>" using t by (auto simp: db_run_def)
  show thesis
  proof (rule that [of t])
    show "dir_store C dm s = Ret True t" using db_runD(1) [OF t] by (simp add: dir_store_def)
    show "can_fetch C X pk M addr u view t"
      using s db_runD(5) [OF t ok] unfolding e by (simp add: can_fetch_def logged_in_def)
    show "db_docs C view t (directoryName dm) = Some (dir_json dm)"
      using db_runD(2) [OF t] codec_total_parse [OF cd] by (simp add: db_docs_view)
  qed (use e db_runD(2) [OF t] in auto)
qed

text \<open>The entries of a directory that is there: its files, then its directories.\<close>

lemma contents_fetched:
  assumes C: "meta_service C M addr" and B: "block_service C X pk"
    and F: "folder_named (Folder ts ds)" "list_all name_ok ws"
    and x: "\<forall>t \<in> set ts. text_served C M w u (key_at (ws @ [fst t])) (snd t)"
    and sub: "\<And>d s. d \<in> set ds \<Longrightarrow> can_fetch C X pk M addr u view s \<Longrightarrow> web s = w \<Longrightarrow>
      dir_at (fs s) (g_basePath s) ws \<Longrightarrow> unused view (ws @ [fst d]) s \<Longrightarrow>
      \<exists>t. g (key_at (ws @ [fst d])) s = Ret () t \<and> can_fetch C X pk M addr u view t \<and>
        touches view {ws @ [fst d]} s t \<and> copied C view t (ws @ [fst d]) (snd d)"
    and s: "can_fetch C X pk M addr u view s" "web s = w" "dir_at (fs s) (g_basePath s) ws"
      "\<And>n. name_ok n \<Longrightarrow> unused view (ws @ [n]) s"
  obtains s1 t where
    "for_each (files (listing_of ws (Folder ts ds))) (\<lambda>f. ignore (fetchNewFile C f)) s = Ret () s1"
    and "for_each (directories (listing_of ws (Folder ts ds))) g s1 = Ret () t"
    and "can_fetch C X pk M addr u view t" and "web t = w"
    and "touches view ((\<lambda>n. ws @ [n]) ` set (names_in (Folder ts ds))) s t"
    and "\<forall>x \<in> set ts. text_copied C view t (key_at (ws @ [fst x])) (snd x)"
    and "\<forall>d \<in> set ds. copied C view t (ws @ [fst d]) (snd d)"
proof -
  have b: "base_ok (g_basePath s)" by (rule can_fetch_base [OF s(1)])
  from F have tn: "distinct (map fst ts)" "\<forall>x \<in> set ts. name_ok (fst x)" "\<forall>x \<in> set ts. text_name (fst x)"
    and dn: "distinct (map fst ds)" "\<forall>x \<in> set ds. name_ok (fst x)" "\<forall>d \<in> set ds. folder_named (snd d)"
    and apart: "fst ` set ts \<inter> fst ` set ds = {}" by (auto simp: list_all_iff)
  have one: "\<exists>t. ignore (fetchNewFile C (key_at (ws @ [fst x]))) s = Ret () t \<and> can_fetch C X pk M addr u view t \<and>
        touches view {ws @ [fst x]} s t \<and> text_copied C view t (key_at (ws @ [fst x])) (snd x)"
    if "x \<in> set ts" "can_fetch C X pk M addr u view s" "web s = w" "dir_at (fs s) (g_basePath s) ws"
      "unused view (ws @ [fst x]) s" for x s
  proof -
    obtain n ver body where xn: "x = (n, ver, body)" by (cases x)
    show ?thesis
      by (rule text_fetched [OF C B that(2), of ws n ver body])
        (use that assms(3-5) tn(2,3) in \<open>auto simp: xn\<close>)
  qed
  obtain s1 where s1: "for_each (map (\<lambda>x. key_at (ws @ [fst x])) ts) (\<lambda>f. ignore (fetchNewFile C f)) s = Ret () s1"
    "can_fetch C X pk M addr u view s1" "touches view ((\<lambda>n. ws @ [n]) ` fst ` set ts) s s1"
    "\<forall>x \<in> set ts. text_copied C view s1 (key_at (ws @ [fst x])) (snd x)"
  proof -
    have "\<exists>t. for_each (map (\<lambda>x. key_at (ws @ [fst x])) ts) (\<lambda>f. ignore (fetchNewFile C f)) s = Ret () t \<and>
        can_fetch C X pk M addr u view t \<and> touches view ((\<lambda>n. ws @ [n]) ` fst ` set ts) s t \<and>
        (\<forall>x \<in> set ts. text_copied C view t (key_at (ws @ [fst x])) (snd x))"
    proof (rule entries_loop [OF one _ tn(1) F(2) tn(2) s(1-3)])
      show "text_copied C view t (key_at (ws @ [fst x])) (snd x)"
        if "x \<in> set ts" "base_ok (g_basePath s)" "agrees view (ws @ [fst x]) s t"
          "text_copied C view s (key_at (ws @ [fst x])) (snd x)" for x s t
        by (rule agrees_text [OF that(3,2) _ _ that(4)]) (use F(2) tn(2) that(1) in simp_all)
    qed (use s(4) tn(2) in auto)
    then show thesis using that by blast
  qed
  have b1: "base_ok (g_basePath s1)" by (rule can_fetch_base [OF s1(2)])
  have names1: "\<forall>n \<in> fst ` set ts. name_ok n" using tn(2) by auto
  have dir1: "dir_at (fs s1) (g_basePath s1) ws"
    using touches_up(2) [OF s1(3) b F(2) names1] s(3) dir_at_fs b b1 by simp
  have free1: "unused view (ws @ [fst d]) s1" if "d \<in> set ds" for d
  proof (rule agrees_unused [OF entry_agrees [OF s1(3) _ b _ names1]])
    show "fst d \<notin> fst ` set ts" using apart that by blast
    show "unused view (ws @ [fst d]) s" using s(4) dn(2) that by blast
  qed (use F(2) dn(2) that in simp)
  obtain t where t: "for_each (map (\<lambda>x. key_at (ws @ [fst x])) ds) g s1 = Ret () t"
    "can_fetch C X pk M addr u view t" "touches view ((\<lambda>n. ws @ [n]) ` fst ` set ds) s1 t"
    "\<forall>d \<in> set ds. copied C view t (ws @ [fst d]) (snd d)"
  proof -
    have "\<exists>t. for_each (map (\<lambda>x. key_at (ws @ [fst x])) ds) g s1 = Ret () t \<and>
        can_fetch C X pk M addr u view t \<and> touches view ((\<lambda>n. ws @ [n]) ` fst ` set ds) s1 t \<and>
        (\<forall>d \<in> set ds. copied C view t (ws @ [fst d]) (snd d))"
    proof (rule entries_loop [OF sub _ dn(1) F(2) dn(2) s1(2) _ dir1])
      show "copied C view t (ws @ [fst d]) (snd d)"
        if "d \<in> set ds" "base_ok (g_basePath s)" "agrees view (ws @ [fst d]) s t"
          "copied C view s (ws @ [fst d]) (snd d)" for d s t
        by (rule agrees_copied [OF that(3,2) _ _ that(4)]) (use F(2) dn(2,3) that(1) in simp_all)
    qed (use s(2) touches_fields(1) [OF s1(3)] free1 in auto)
    then show thesis using that by blast
  qed
  have kept: "text_copied C view t (key_at (ws @ [fst x])) (snd x)" if "x \<in> set ts" for x
  proof (rule agrees_text [OF entry_agrees [OF t(3) _ b1] b1])
    show "fst x \<notin> fst ` set ds" using apart that by blast
  qed (use F(2) tn(2) dn(2) s1(4) that in auto)
  show thesis
  proof (rule that [of s1 t])
    show "touches view ((\<lambda>n. ws @ [n]) ` set (names_in (Folder ts ds))) s t"
      using touches_trans [OF s1(3) t(3)] by (simp add: names_in_def image_Un)
    show "web t = w" using touches_fields(1) [OF s1(3)] touches_fields(1) [OF t(3)] s(2) by simp
  qed (use s1 t kept in \<open>simp_all add: listing_of_def\<close>)
qed

text \<open>A directory that the device knows nothing of.\<close>

lemma directory_fetched:
  assumes C: "meta_service C M addr" and B: "block_service C X pk"
  shows "folder_named F \<Longrightarrow> list_all name_ok (vs @ [n]) \<Longrightarrow> height F \<le> k \<Longrightarrow> served C M w u (vs @ [n]) F \<Longrightarrow>
    can_fetch C X pk M addr u view s \<Longrightarrow> web s = w \<Longrightarrow> dir_at (fs s) (g_basePath s) vs \<Longrightarrow>
    unused view (vs @ [n]) s \<Longrightarrow>
    \<exists>t. fetchDirRecursively k C (key_at (vs @ [n])) s = Ret () t \<and> can_fetch C X pk M addr u view t \<and>
      touches view {vs @ [n]} s t \<and> copied C view t (vs @ [n]) F"
proof (induction F arbitrary: vs n k s rule: folder_induct)
  case (Folder ts ds)
  let ?ws = "vs @ [n]" and ?F = "Folder ts ds"
  let ?key = "key_at ?ws"
  note s = Folder.prems(5,6)
  obtain k' where k: "k = Suc k'" "height ?F \<le> Suc k'" using Folder.prems(3) by (cases k) auto
  have b: "base_ok (g_basePath s)" by (rule can_fetch_base [OF s(1)])
  from s(1) have live: "logged_in M addr u s" "ready M (server s)" "db_ok C view s" by (simp_all add: can_fetch_def)
  obtain D where D: "docs M (server s) (user_key u ?key) = Some D" "same_lists (listing_of ?ws ?F) D"
    using Folder.prems(4) s(2) by auto
  have lf: "lists_field ''files'' D" using D(2) by (simp add: same_lists_def)
  note ask = listing_asked [OF C live(1,2) D(1) lf]
  have load: "dir_load C (Directory_Metadata ?key) s = Ret None s"
    by (rule dir_load_None [OF live(3)]) (use unused_here(2) [OF Folder.prems(8)] in simp)
  obtain s1 where s1: "ensureDirectoryExists ?key s = Ret True s1" "can_fetch C X pk M addr u view s1"
    "touches view {?ws} s s1" "dir_at (fs s1) (g_basePath s1) ?ws" "\<And>m. name_ok m \<Longrightarrow> unused view (?ws @ [m]) s1"
    using directory_made [OF s(1) Folder.prems(2,7,8)] by (metis append.assoc append_Cons append_Nil)
  have w1: "web s1 = w" using touches_fields(1) [OF s1(3)] s(2) by simp
  have sub: "\<exists>t. fetchDirRecursively k' C (key_at (?ws @ [fst d])) s = Ret () t \<and> can_fetch C X pk M addr u view t \<and>
        touches view {?ws @ [fst d]} s t \<and> copied C view t (?ws @ [fst d]) (snd d)"
    if "d \<in> set ds" "can_fetch C X pk M addr u view s" "web s = w" "dir_at (fs s) (g_basePath s) ?ws"
      "unused view (?ws @ [fst d]) s" for d s
  proof -
    have m: "(fst d, snd d) \<in> set ds" using that(1) by simp
    show ?thesis
      by (rule Folder.IH [OF m _ _ _ _ that(2-5)])
        (use Folder.prems(1,2,4) that(1) height_sub [OF m, of ts] k(2) in \<open>auto simp: list_all_iff\<close>)
  qed
  have xs: "\<forall>t \<in> set ts. text_served C M w u (key_at (?ws @ [fst t])) (snd t)" using Folder.prems(4) by simp
  obtain s2 s3 where s3: "for_each (files (listing_of ?ws ?F)) (\<lambda>f. ignore (fetchNewFile C f)) s1 = Ret () s2"
    "for_each (directories (listing_of ?ws ?F)) (fetchDirRecursively k' C) s2 = Ret () s3"
    "can_fetch C X pk M addr u view s3" "web s3 = w" "touches view ((\<lambda>m. ?ws @ [m]) ` set (names_in ?F)) s1 s3"
    "\<forall>x \<in> set ts. text_copied C view s3 (key_at (?ws @ [fst x])) (snd x)"
    "\<forall>d \<in> set ds. copied C view s3 (?ws @ [fst d]) (snd d)"
    by (rule contents_fetched [OF C B Folder.prems(1,2) xs sub s1(2) w1 s1(4,5)])
  have names: "\<forall>m \<in> set (names_in ?F). name_ok m" using Folder.prems(1) by (auto simp: names_in_def list_all_iff)
  note b1 = can_fetch_base [OF s1(2)] and b3 = can_fetch_base [OF s3(3)]
  note up = touches_up [OF s3(5) b1 Folder.prems(2) names]
  obtain t where t: "dir_store C (listing_of ?ws ?F) s3 = Ret True t" "can_fetch C X pk M addr u view t"
    "fs t = fs s3" "web t = web s3" "db_docs C view t ?key = Some (dir_json (listing_of ?ws ?F))"
    "\<And>k. k \<noteq> ?key \<Longrightarrow> db_view view t k = db_view view s3 k" "\<exists>e. t = s3\<lparr>db := Some e\<rparr>"
    by (rule listing_stored [OF s3(3), of "listing_of ?ws ?F"]) (simp add: listing_of_def)
  have bt: "g_basePath t = g_basePath s3" using t(7) by auto
  have "(Directory_Metadata ?key)\<lparr>files := files (Directory_Metadata ?key) @ files (listing_of ?ws ?F),
      directories := directories (Directory_Metadata ?key) @ directories (listing_of ?ws ?F)\<rparr> = listing_of ?ws ?F"
    by (simp add: Directory_Metadata_def listing_of_def)
  then have run: "fetchDirRecursively k C ?key s = Ret () t"
    using load ask s1(1) s3(1,2) t(1) by (simp add: k(1) Let_def same_lists_loops [OF D(2)])
  have "touches view {?ws} s3 t"
    unfolding touches_def
  proof (intro conjI allI impI)
    obtain e where "t = s3\<lparr>db := Some e\<rparr>" using t(7) by blast
    then have "t = s3\<lparr>cache_instance := cache_instance s3, db := Some e, fs := fs s3\<rparr>" by simp
    then show "\<exists>c d f. t = s3\<lparr>cache_instance := c, db := d, fs := f\<rparr>" by blast
  qed (use t(3,6) in \<open>auto simp: at_or_below_def\<close>)
  from touches_trans [OF touches_trans [OF s1(3) up(1)] this] have "touches view {?ws} s t" by simp
  moreover have "copied C view t ?ws ?F"
  proof -
    have "agrees view (?ws @ [m]) s3 t" for m
      using bt t(3,6) at_or_below_entry [of ?ws m] unfolding agrees_def by auto
    note same = this
    have "text_copied C view t (key_at (?ws @ [fst x])) (snd x)" if "x \<in> set ts" for x
      by (rule agrees_text [OF same b3]) (use Folder.prems(1,2) s3(6) that in \<open>auto simp: list_all_iff\<close>)
    moreover have "copied C view t (?ws @ [fst d]) (snd d)" if "d \<in> set ds" for d
      by (rule agrees_copied [OF same b3]) (use Folder.prems(1,2) s3(7) that in \<open>auto simp: list_all_iff\<close>)
    moreover have "dir_at (fs t) (g_basePath t) ?ws"
      using up(2) s1(4) dir_at_fs b1 b3 bt t(3) by simp
    ultimately show ?thesis using t(5) by simp
  qed
  ultimately show ?case using run t(2) by blast
qed

section \<open>A new device\<close>

text \<open>The monitored directory is there and empty, and nothing is on record.\<close>

definition new_device :: "(services, 'd, 'y) client_ext_scheme \<Rightarrow> ('d \<Rightarrow> string \<rightharpoonup> string) \<Rightarrow> (services, 'd) client \<Rightarrow> bool" where
  "new_device C view s \<longleftrightarrow> dir_at (fs s) (g_basePath s) [] \<and> db_view view s = Map.empty \<and> readdir C [] = [] \<and>
     (\<forall>q. path_below (g_basePath s) [] q \<and> q \<noteq> fpath_of (g_basePath s) \<longrightarrow> node_at (fs s) q = None)"

lemma new_deviceD:
  assumes "new_device C view s"
  shows "dir_at (fs s) (g_basePath s) []" and "db_view view s = Map.empty" and "readdir C [] = []"
    and "path_below (g_basePath s) [] q \<Longrightarrow> q \<noteq> fpath_of (g_basePath s) \<Longrightarrow> node_at (fs s) q = None"
  using assms unfolding new_device_def by blast+

lemma path_at_Nil [simp]: "path_at base [] = base"
  by (simp add: path_at_def)

lemma key_at_Nil [simp]: "key_at [] = ''dropbox''"
  by (simp add: key_at_def)

lemma new_device_entries:
  assumes "new_device C view s" shows "dir_entries C (fs s) (g_basePath s) = []"
proof -
  let ?q = "fpath_of (g_basePath s)"
  have none: "\<not> (snd r \<noteq> [] \<and> fst r = fst ?q \<and> butlast (snd r) = snd ?q)" if r: "r |\<in>| fmdom (fs s)" for r
  proof
    assume a: "snd r \<noteq> [] \<and> fst r = fst ?q \<and> butlast (snd r) = snd ?q"
    then have "snd r = snd ?q @ [last (snd r)]" by (metis append_butlast_last_id)
    then have "path_below (g_basePath s) [] r" "r \<noteq> ?q"
      using a unfolding path_below_def below_def by (auto simp: prefix_def)
    with new_deviceD(4) [OF assms] have "node_at (fs s) r = None" by blast
    with r a show False by (auto simp: node_at_def fmlookup_dom_iff)
  qed
  have "ffilter (\<lambda>r. snd r \<noteq> [] \<and> fst r = fst ?q \<and> butlast (snd r) = snd ?q) (fmdom (fs s)) = {||}"
    using none by (intro fset_eqI) auto
  moreover have "sorted_list_of_fset {||} = ([] :: string list)" by (simp add: sorted_list_of_fset.rep_eq)
  ultimately show ?thesis using new_deviceD(3) [OF assms] by (simp add: dir_entries_def child_names_def Let_def)
qed

text \<open>The first synchronisation only gives the directory its document.\<close>

lemma new_device_synced:
  assumes s: "can_fetch C X pk M addr u view s" "new_device C view s"
  obtains t where "localSync (Suc k) n C s = Ret () t" and "can_fetch C X pk M addr u view t" and "web t = web s"
    and "dir_at (fs t) (g_basePath t) []" and "\<And>m. name_ok m \<Longrightarrow> unused view [m] t"
    and "db_docs C view t ''dropbox'' = Some (dir_json (Directory_Metadata ''dropbox''))"
proof -
  let ?dm = "Directory_Metadata ''dropbox''"
  from s(1) have live: "db_ok C view s" "base_ok (g_basePath s)" by (simp_all add: can_fetch_def)
  have load: "dir_load C ?dm s = Ret None s"
    by (rule dir_load_None [OF live(1)]) (simp add: new_deviceD(2) [OF s(2)])
  obtain t where t: "dir_store C ?dm s = Ret True t" "can_fetch C X pk M addr u view t" "fs t = fs s" "web t = web s"
    "db_docs C view t (directoryName ?dm) = Some (dir_json ?dm)"
    "\<And>x. x \<noteq> directoryName ?dm \<Longrightarrow> db_view view t x = db_view view s x" "\<exists>e. t = s\<lparr>db := Some e\<rparr>"
    by (rule listing_stored [OF s(1), of ?dm]) (rule that)
  have name: "directoryName ?dm = ''dropbox''" by (simp add: Directory_Metadata_def)
  have others: "db_view view t x = None" if "x \<noteq> ''dropbox''" for x
    using t(6) that new_deviceD(2) [OF s(2)] unfolding name by simp
  have bt: "g_basePath t = g_basePath s" using t(7) by auto
  have dm: "?dm\<lparr>files := [], directories := []\<rparr> = ?dm" by (simp add: Directory_Metadata_def)
  have ok_t: "db_ok C view t" using t(2) by (simp add: can_fetch_def)
  then obtain d where d: "db t = Some d" "rocks_ok C view" by (auto simp: db_ok_def)
  have vd: "view d = db_view view t" using d(1) by (simp add: db_view_def)
  have "dom (view d) \<subseteq> {''dropbox''}" using others unfolding vd by (metis domIff insertI1 subsetI)
  then have "finite (dom (view d))" by (rule finite_subset) simp
  note scan = prefix_scan_children [OF d(2,1) this, of "''dropbox/''"]
  obtain ks where
    ks: "prefix_scan C ''dropbox/'' t = Ret ks t"
    "set ks = {k. view d k \<noteq> None \<and> (\<exists>name. k = ''dropbox/'' @ name \<and> name \<noteq> [] \<and> CHR ''/'' \<notin> set name)}"
    using scan by (elim exE conjE) (rule that)
  have "ks = []"
  proof -
    have "view d (''dropbox/'' @ name) = None" for name unfolding vd by (rule others) simp
    then have "set ks = {}" unfolding ks(2) by auto
    then show ?thesis by simp
  qed
  then have stale: "remove_stale n C ''dropbox'' [] t = Ret () t"
    using ks(1) by (simp add: remove_stale_def scan_prefix_def)
  have dir: "fs_is_directory (fs s) (g_basePath s)" using new_deviceD(1) [OF s(2)] by (simp add: dir_at_def)
  show thesis
  proof (rule that [of t])
    show "localSync (Suc k) n C s = Ret () t"
      using load t(1) stale dir new_device_entries [OF s(2)]
      by (simp add: localSync_def buildKey_base Let_def dm)
    show "dir_at (fs t) (g_basePath t) []" using new_deviceD(1) [OF s(2)] t(3) bt by simp
    show "unused view [m] t" if m: "name_ok m" for m
      unfolding unused_def bt t(3)
    proof (intro conjI allI impI)
      show "db_view view t x = None" if "at_or_below (key_at [m]) x" for x
        using at_or_below_entry [of "[]" m x] that others [of x] by simp
      show "node_at (fs s) q = None" if "path_below (g_basePath s) [m] q" for q
        using path_below_entry [OF live(2), of "[]" m q] that m new_deviceD(4) [OF s(2), of q] by simp
    qed
  qed (use t(2,4,5) name in simp_all)
qed

lemma new_device_fetched:
  assumes C: "meta_service C M addr" and B: "block_service C X pk"
    and s: "can_fetch C X pk M addr u view s" "new_device C view s"
    and F: "folder_named F" "served C M (web s) u [] F" "height F \<le> k"
  obtains t where "seq (localSync k n C) (seq (RemoteToLocal k n C) (localToRemote k n C)) s = Ret () t"
    and "can_fetch C X pk M addr u view t" and "web t = web s"
    and "\<forall>x \<in> set (texts F). text_copied C view t (key_at [fst x]) (snd x)"
    and "\<forall>d \<in> set (folders F). copied C view t [fst d] (snd d)"
    and "db_docs C view t ''dropbox'' = Some (dir_json (Directory_Metadata ''dropbox''))"
proof -
  obtain ts ds where Fd: "F = Folder ts ds" by (cases F)
  obtain k' where k: "k = Suc k'" using F(3) by (cases k) (auto simp: Fd)
  obtain s1 where s1: "localSync k n C s = Ret () s1" "can_fetch C X pk M addr u view s1" "web s1 = web s"
    "dir_at (fs s1) (g_basePath s1) []" "\<And>m. name_ok m \<Longrightarrow> unused view ([] @ [m]) s1"
    "db_docs C view s1 ''dropbox'' = Some (dir_json (Directory_Metadata ''dropbox''))"
    unfolding k by (rule new_device_synced [OF s]) auto
  from F(2) obtain D where D: "docs M (server s) (user_key u ''dropbox'') = Some D" "same_lists (listing_of [] F) D"
    by (auto simp: Fd)
  have lf: "lists_field ''files'' D" using D(2) by (simp add: same_lists_def)
  have asked: "ask_meta C ''/list-directory'' ''dropbox'' t = Ret D t" "D \<noteq> JNull"
    if "can_fetch C X pk M addr u view t" "web t = web s" for t
    using listing_asked [OF C _ _ _ lf, of u t "''dropbox''"] that D(1) by (simp_all add: can_fetch_def)
  have loaded: "dir_load C (Directory_Metadata ''dropbox'') t = Ret (Some (Directory_Metadata ''dropbox'')) t"
    if "can_fetch C X pk M addr u view t" "db_docs C view t ''dropbox'' = Some (dir_json (Directory_Metadata ''dropbox''))" for t
    by (rule dir_load_Some) (use that in \<open>simp_all add: can_fetch_def Directory_Metadata_def\<close>)
  have sub: "\<exists>t. fetchDirRecursively k' C (key_at ([] @ [fst d])) s' = Ret () t \<and> can_fetch C X pk M addr u view t \<and>
        touches view {[] @ [fst d]} s' t \<and> copied C view t ([] @ [fst d]) (snd d)"
    if "d \<in> set ds" "can_fetch C X pk M addr u view s'" "web s' = web s" "dir_at (fs s') (g_basePath s') []"
      "unused view ([] @ [fst d]) s'" for d s'
  proof -
    have "(fst d, snd d) \<in> set ds" using that(1) by simp
    note m = height_sub [OF this, of ts]
    show ?thesis
      by (rule directory_fetched [OF C B _ _ _ _ that(2-5)])
        (use F that(1) m in \<open>auto simp: Fd k list_all_iff\<close>)
  qed
  have xs: "\<forall>t \<in> set ts. text_served C M (web s) u (key_at ([] @ [fst t])) (snd t)" using F(2) by (simp add: Fd)
  have Fn: "folder_named (Folder ts ds)" "list_all name_ok []" using F(1) by (simp_all add: Fd)
  obtain s2 t where t: "for_each (files (listing_of [] F)) (\<lambda>f. ignore (fetchNewFile C f)) s1 = Ret () s2"
    "for_each (directories (listing_of [] F)) (fetchDirRecursively k' C) s2 = Ret () t"
    "can_fetch C X pk M addr u view t" "web t = web s" "touches view ((\<lambda>m. [] @ [m]) ` set (names_in F)) s1 t"
    "\<forall>x \<in> set ts. text_copied C view t (key_at ([] @ [fst x])) (snd x)"
    "\<forall>d \<in> set ds. copied C view t ([] @ [fst d]) (snd d)"
    unfolding Fd by (rule contents_fetched [OF C B Fn xs sub s1(2-5)])
  have names: "\<forall>m \<in> set (names_in F). name_ok m" using F(1) by (auto simp: Fd names_in_def list_all_iff)
  have "db_view view t (key_at []) = db_view view s1 (key_at [])"
    by (rule touches_up(3) [OF t(5) can_fetch_base [OF s1(2)] _ names]) simp
  then have root: "db_docs C view t ''dropbox'' = Some (dir_json (Directory_Metadata ''dropbox''))"
    using s1(6) by (simp add: db_docs_view)
  have key: "base_key b = ''dropbox''" for b by (simp add: base_key_def buildKey_base)
  have empty: "files (Directory_Metadata ''dropbox'') = []" "directories (Directory_Metadata ''dropbox'') = []"
    by (simp_all add: Directory_Metadata_def)
  have "RemoteToLocal k n C s1 = Ret () t"
    using asked [OF s1(2,3)] loaded [OF s1(2,6)] t(1,2)
    by (simp add: k RemoteToLocal_def key empty same_lists_loops [OF D(2)])
  moreover have "localToRemote k n C t = Ret () t"
    using asked [OF t(3,4)] loaded [OF t(3) root]
    by (simp add: k localToRemote_def key empty same_lists_loops [OF D(2)])
  ultimately show thesis
    using s1(1) t(3,4,6,7) root by (intro that [of t]) (simp_all add: Fd)
qed

text \<open>C6: When a user starts the client on a new device, with an empty directory and nothing on record, the
  three synchronisations at start-up end and fetch the user's whole namespace without changing it: every
  text file is in the directory with its text and on record with text, hash and version, and every
  directory below the base directory is there with its listing on record.  The listing of the base
  directory itself stays empty, whatever is in it.  No text is the marker of a deletion, and the token
  verifies throughout.\<close>

theorem new_device_fetches_everything:
  assumes C: "meta_service C M addr" and B: "block_service C X pk"
    and s: "can_fetch C X pk M addr u view s" "new_device C view s"
    and F: "folder_named F" "served C M (web s) u [] F" "height F \<le> k"
  shows "\<exists>t. seq (localSync k n C) (seq (RemoteToLocal k n C) (localToRemote k n C)) s = Ret () t \<and> web t = web s \<and>
    (\<forall>x \<in> set (texts F). text_copied C view t (key_at [fst x]) (snd x)) \<and>
    (\<forall>d \<in> set (folders F). copied C view t [fst d] (snd d)) \<and>
    db_docs C view t ''dropbox'' = Some (dir_json (Directory_Metadata ''dropbox''))"
  by (rule new_device_fetched [OF C B s F, where n = n]) blast

section \<open>Witness\<close>

text \<open>Ann's namespace: a text file, and a directory with another one.\<close>

definition ann_folder :: folder where
  "ann_folder = Folder [(''a.txt'', ''1'', ''hi'')] [(''d'', Folder [(''b.txt'', ''2'', ''ho'')] [])]"

definition full_server :: "cluster mstate" where
  "full_server = demo_state
     [''ann:dropbox'' \<mapsto> JStr (enc (JStr (enc (demo_dir [''dropbox/d''] [''dropbox/a.txt''])))),
      ''ann:dropbox/d'' \<mapsto> JStr (enc (demo_dir [] [''dropbox/d/b.txt''])),
      ''ann:dropbox/a.txt'' \<mapsto> JStr (enc (obj [])), ''ann:dropbox/d/b.txt'' \<mapsto> JStr (enc (obj []))]"

definition full_world :: services where
  "full_world = ann_world\<lparr>nodes := [''b1'' \<mapsto> \<lparr>status = LEADER, leader = Some ''b1'',
       DB = string_db [''ann:dropbox/a.txt'' \<mapsto> JStr (enc (file_doc ''1'' ''hi'')),
         ''ann:dropbox/d/b.txt'' \<mapsto> JStr (enc (file_doc ''2'' ''ho''))],
       log = [], commitIdx = 0, staged = None\<rparr>], meta_state := full_server\<rparr>"

definition new_client :: "(services, (string, string) fmap) client" where
  "new_client = (toy_client_at full_world fmempty)\<lparr>token := ''a.b.c'', fs := fmap_of_list [((True, [''h'']), Dir)]\<rparr>"

lemma new_client_simps [simp]:
  "web new_client = full_world" "meta_state full_world = full_server" "token new_client = ''a.b.c''"
  "meta_lb new_client = ([], 0)" "g_basePath new_client = ''/h/''" "db new_client = Some fmempty"
  "fs new_client = fmap_of_list [((True, [''h'']), Dir)]" "cache_instance new_client = Some (new_cache 60000 1000)"
  by (simp_all add: new_client_def full_world_def toy_client_def)

lemma full_view: "meta_view brace_meta full_server = [''ann:dropbox'' \<mapsto> enc (JStr (enc (demo_dir [''dropbox/d''] [''dropbox/a.txt'']))),
    ''ann:dropbox/d'' \<mapsto> enc (demo_dir [] [''dropbox/d/b.txt'']), ''ann:dropbox/a.txt'' \<mapsto> enc (obj []),
    ''ann:dropbox/d/b.txt'' \<mapsto> enc (obj [])]"
  by (rule ext) (simp add: full_server_def meta_view_def demo_state_def group_of_def stored_def leader_of_def
      is_leader_def demo_node_def del: enc.simps)

lemma full_ready: "ready brace_meta full_server"
  using brace_backed
  by (simp add: ready_def store_ok_def full_server_def demo_state_def group_ok_def leader_of_def is_leader_def
      demo_node_def leads_to_def)

lemma full_texts:
  "text_served brace_client brace_meta full_world ''ann'' ''dropbox/a.txt'' (''1'', ''hi'')"
  "text_served brace_client brace_meta full_world ''ann'' ''dropbox/d/b.txt'' (''2'', ''ho'')"
proof -
  have e: "group_of brace_meta (blockserver_lists (init full_server)) k = [''b1'']" for k
    by (simp add: group_of_def full_server_def demo_state_def)
  have g: "group_ok full_world [''b1'']" and l: "leader_of full_world [''b1''] = Some ''b1''"
    by (simp_all add: full_world_def ann_world_def group_ok_def leader_of_def is_leader_def leads_to_def)
  have b: "binding full_world [''b1''] ''ann:dropbox/a.txt'' = Some (JStr (enc (file_doc ''1'' ''hi'')))"
    "binding full_world [''b1''] ''ann:dropbox/d/b.txt'' = Some (JStr (enc (file_doc ''2'' ''ho'')))"
    by (simp_all add: binding_def l) (simp_all add: full_world_def)
  have "doc_of brace_meta (enc (obj [])) = Some (obj [])" using doc_of_text [OF brace_backed, of "obj []"] by simp
  then have d: "docs brace_meta full_server ''ann:dropbox/a.txt'' \<noteq> None" "docs brace_meta full_server ''ann:dropbox/d/b.txt'' \<noteq> None"
    by (simp_all add: docs_def full_view)
  have f: "Cache.fits k [''b1'']" if "length k < 100" for k using that by (simp add: fits_def list_size_def)
  show "text_served brace_client brace_meta full_world ''ann'' ''dropbox/a.txt'' (''1'', ''hi'')"
    "text_served brace_client brace_meta full_world ''ann'' ''dropbox/d/b.txt'' (''2'', ''ho'')"
    using g b d f by (simp_all add: text_served_def e user_key_def DELETE_VALUE_def)
qed

lemma full_docs: "docs brace_meta full_server = [''ann:dropbox'' \<mapsto> demo_dir [''dropbox/d''] [''dropbox/a.txt''],
    ''ann:dropbox/d'' \<mapsto> demo_dir [] [''dropbox/d/b.txt''], ''ann:dropbox/a.txt'' \<mapsto> obj [],
    ''ann:dropbox/d/b.txt'' \<mapsto> obj []]"
  using doc_of_text [OF brace_backed] doc_of_text_text [OF brace_backed] by (intro ext) (simp add: docs_def full_view del: enc.simps)

lemma full_served: "served brace_client brace_meta full_world ''ann'' [] ann_folder"
  using full_texts by (simp add: ann_folder_def full_docs user_key_def key_at_def listing_of_def same_lists_def)

lemma new_cache_explained: "lru.explained P (new_cache 60000 1000)"
  using new_cache_inv [of 1000 60000] by (simp add: lru.explained_def cached_def new_cache_def)

lemma new_client_can_fetch: "can_fetch brace_client brace_blocks ''pk'' brace_meta ([], 0) ''ann'' fmlookup new_client"
proof -
  have "db_ok brace_client fmlookup new_client"
    using toy_rocks_ok brace_codec_total(2)
    by (simp add: db_ok_def rocks_ok_def brace_client_def new_client_def toy_client_def)
  moreover have "fs_ok (fs new_client)" by (simp add: fs_ok_def parent_fpath_def node_at_def)
  ultimately show ?thesis
    using full_ready new_cache_explained by (simp add: can_fetch_def logged_in_def verify_jwt_def brace_blocks_def base_ok_def)
qed

lemma new_client_new: "new_device brace_client fmlookup new_client"
proof -
  have "fpath_of ''/h/'' = (True, [''h''])" by (simp add: fpath_of_def)
  then show ?thesis
    by (auto simp: new_device_def dir_at_def fs_is_directory_def node_at_def db_view_def brace_client_def toy_ext_def
        path_below_def below_def fmlookup_of_list)
qed

theorem new_device_fetches_everything_witness:
  "\<exists>t. seq (localSync 2 1 brace_client) (seq (RemoteToLocal 2 1 brace_client) (localToRemote 2 1 brace_client)) new_client
      = Ret () t \<and>
    local_text t ''dropbox/a.txt'' = ''hi'' \<and> local_text t ''dropbox/d/b.txt'' = ''ho'' \<and>
    db_docs brace_client fmlookup t ''dropbox'' = Some (dir_json (Directory_Metadata ''dropbox''))"
proof -
  have F: "folder_named ann_folder" "height ann_folder \<le> 2"
    by (simp_all add: ann_folder_def name_ok_def text_name_def suffix_def)
  have served: "served brace_client brace_meta (web new_client) ''ann'' [] ann_folder" using full_served by simp
  from new_device_fetches_everything [OF brace_service brace_block_service new_client_can_fetch new_client_new F(1) served F(2), of 1]
  obtain t where "seq (localSync 2 1 brace_client) (seq (RemoteToLocal 2 1 brace_client) (localToRemote 2 1 brace_client)) new_client
      = Ret () t"
    and "\<forall>x \<in> set (texts ann_folder). text_copied brace_client fmlookup t (key_at [fst x]) (snd x)"
    and "\<forall>d \<in> set (folders ann_folder). copied brace_client fmlookup t [fst d] (snd d)"
    and "db_docs brace_client fmlookup t ''dropbox'' = Some (dir_json (Directory_Metadata ''dropbox''))" by blast
  then show ?thesis by (intro exI [of _ t]) (simp add: ann_folder_def text_copied_def key_at_def)
qed

end
