(* ===== verification/Known_Files.thy ===== *)
theory Known_Files
  imports Fetch_Props
begin

text \<open>
  A file that both services know, seen from a device: its endpoints, its download, an upload that comes
  too late, and the notification that finds an unchanged copy of the file on the device.
\<close>

section \<open>A device and its services\<close>

text \<open>
  The device is logged in as the user, its cache holds what the metadata server would answer, the metadata
  server's store works and the writes to the storage servers find a majority.
\<close>

definition connected :: "('r blocks_scheme, 'x) meta_ext_scheme \<Rightarrow> string \<Rightarrow> (cluster, 'z) meta_ext_scheme \<Rightarrow>
    string \<times> nat \<Rightarrow> string \<Rightarrow> (services, 'd) client \<Rightarrow> bool" where
  "connected X pk M addr u s \<longleftrightarrow> meta_lb s = addr \<and> token s \<noteq> [] \<and>
     (\<forall>now. verify_jwt M (public_key (init (server s))) now (token s) = Some u \<and> verify_jwt X pk now (token s) = Some u) \<and>
     ready M (server s) \<and> quorum (web s) \<and>
     (\<exists>c. cache_instance s = Some c \<and> cache_inv c \<and>
        (\<forall>k es. cached c k = Some es \<longrightarrow> es = endpoints_for M (web s) u k))"

text \<open>The metadata server knows the file, and the storage servers it names for it have a leader.\<close>

definition kept_at :: "(cluster, 'z) meta_ext_scheme \<Rightarrow> string \<Rightarrow> string \<Rightarrow> string list \<Rightarrow> services \<Rightarrow> bool" where
  "kept_at M u k es w \<longleftrightarrow> docs M (meta_state w) (user_key u k) \<noteq> None \<and> es = endpoints_for M w u k \<and>
     es \<noteq> [] \<and> fits k es \<and> group_ok w es"

lemma kept_atD:
  assumes "kept_at M u k es w"
  shows "es \<noteq> []" "fits k es" "group_ok w es" "es = endpoints_for M w u k"
  using assms unfolding kept_at_def by blast+

lemma connectedD:
  assumes "connected X pk M addr u s"
  shows "logged_in M addr u s" "ready M (server s)" "token s \<noteq> []" "quorum (web s)" "verify_jwt X pk now (token s) = Some u"
  using assms by (simp_all add: connected_def logged_in_def)

lemma connected_cache:
  assumes "connected X pk M addr u s"
  obtains c where "cache_instance s = Some c" and "lru.explained (\<lambda>k es. es = endpoints_for M (web s) u k) c"
  using assms by (auto simp: connected_def lru.explained_def)

lemma connected_frame:
  assumes "connected X pk M addr u s" and "token t = token s" "meta_lb t = meta_lb s"
    and "init (server t) = init (server s)" "ready M (server t)" "quorum (web t)"
    and "cache_instance t = Some d" "lru.explained (\<lambda>k es. es = endpoints_for M (web s) u k) d"
  shows "connected X pk M addr u t"
  using assms unfolding connected_def lru.explained_def by auto

lemma connected_db [simp]:
  "connected X pk M addr u (s\<lparr>db := e\<rparr>) = connected X pk M addr u s"
  "connected X pk M addr u (s\<lparr>fs := f\<rparr>) = connected X pk M addr u s"
  by (simp_all add: connected_def)

lemma known_endpoints:
  assumes C: "meta_service C M addr" and s: "connected X pk M addr u s" and k: "kept_at M u k es (web s)"
  obtains d where "getFileEndpoints C k s = Ret es (s\<lparr>cache_instance := Some d\<rparr>)"
    and "lru.explained (\<lambda>k es. es = endpoints_for M (web s) u k) d"
proof -
  from k obtain D where D: "docs M (server s) (user_key u k) = Some D" by (auto simp: kept_at_def)
  note es = kept_atD(4,1,2) [OF k]
  obtain c where c: "cache_instance s = Some c" "lru.explained (\<lambda>k es. es = endpoints_for M (web s) u k) c"
    by (rule connected_cache [OF s])
  show thesis
    by (rule endpoints_known [OF C connectedD(1,2) [OF s] D es c, folded es(1)]) (use es(1) that in simp_all)
qed

section \<open>Downloads\<close>

lemma known_download:
  assumes C: "meta_service C M addr" and B: "block_service C X pk"
    and s: "connected X pk M addr u s" and k: "kept_at M u k es (web s)"
    and b: "binding (web s) es (user_key u k) = Some (JStr (text_of C (file_doc ver txt)))" "txt \<noteq> DELETE_VALUE"
  obtains d r where "download C k s = Ret (Some (txt, ver)) (s\<lparr>cache_instance := Some d\<rparr>)"
    and "connected X pk M addr u (s\<lparr>cache_instance := Some d\<rparr>)"
    and "getFileEndpoints C k s = Ret es (s\<lparr>cache_instance := Some d\<rparr>)"
    and "getFile C es k (token s) (web s) = Ret r (web s)" "resp_success r"
      "remote_file C (resp_value r) = Inr (Some (txt, ver))"
proof -
  obtain d where d: "getFileEndpoints C k s = Ret es (s\<lparr>cache_instance := Some d\<rparr>)"
    "lru.explained (\<lambda>k es. es = endpoints_for M (web s) u k) d"
    by (rule known_endpoints [OF C s k])
  note g = kept_atD(3,1) [OF k]
  have "binding (web s) es (u @ '':'' @ k) = Some (JStr (text_of C (file_doc ver txt)))" using b(1) by (simp add: user_key_def)
  from getFile_held [OF B g(1) connectedD(5) [OF s] this b(2)] obtain r where
    r: "getFile C es k (token s) (web s) = Ret r (web s)" "resp_success r"
      "remote_file C (resp_value r) = Inr (Some (txt, ver))" by metis
  have "download C k s = Ret (Some (txt, ver)) (s\<lparr>cache_instance := Some d\<rparr>)"
    using d(1) g(2) r connectedD(3) [OF s] by (simp add: download_def on_web_def)
  moreover have "connected X pk M addr u (s\<lparr>cache_instance := Some d\<rparr>)"
    by (rule connected_frame [OF s _ _ _ _ _ _ d(2)]) (use connectedD [OF s] in simp_all)
  ultimately show thesis using d(1) r by (rule that)
qed

section \<open>An upload that comes too late\<close>

lemma known_stale_upload:
  assumes C: "meta_service C M addr" and B: "block_service C X pk"
    and s: "connected X pk M addr u s" "db_ok C view s" and k: "kept_at M u k es (web s)"
    and m: "db_docs C view s k = Some (file_json m)" "fileName m = k"
    and ver: "version m = to_string i" "int_min \<le> i" "i < int_max"
    and held: "held_version X (binding (web s) es (user_key u k)) = Some v" "i \<noteq> v"
  obtains d e where "uploadFile (Suc n) C k s = Ret True (s\<lparr>cache_instance := Some d, db := Some e\<rparr>)"
    and "db_docs C view (s\<lparr>cache_instance := Some d, db := Some e\<rparr>)
      = (db_docs C view s)(k \<mapsto> file_json (recorded C m (local_text s k) (to_string (i + 1))))"
proof -
  obtain d where d: "getFileEndpoints C k s = Ret es (s\<lparr>cache_instance := Some d\<rparr>)"
    by (rule known_endpoints [OF C s(1) k])
  note g = kept_atD(3,1) [OF k]
  have i: "stoi (version m) = Inr i" using ver by (simp add: stoi_to_string)
  have "held_version X (binding (web s) es (u @ '':'' @ k)) = Some v" using held(1) by (simp add: user_key_def)
  note r = setFile_stale [OF B g(1) connectedD(5) [OF s(1)] this held(2)]
  from upload_with_endpoints [OF s(2) m d g(2) connectedD(3) [OF s(1)] i ver(3), of _ "web s", unfolded ver(1), OF r]
  show thesis using that by fastforce
qed

section \<open>A notification about a file\<close>

text \<open>The device has no record of the file.\<close>

lemma unknown_file_fetched:
  assumes C: "meta_service C M addr" and B: "block_service C X pk"
    and s: "connected X pk M addr u s" "db_ok C view s" "db_view view s k = None" and k: "kept_at M u k es (web s)"
    and b: "binding (web s) es (user_key u k) = Some (JStr (text_of C (file_doc ver txt)))" "txt \<noteq> DELETE_VALUE"
    and place: "can_write (fs s) (g_basePath s) k"
  obtains t where "remote_file_changed n C k s = Ret () t" and "web t = web s" and "local_text t k = txt"
    and "db_docs C view t = (db_docs C view s)(k \<mapsto> file_json (recorded C (File_Metadata k) txt ver))"
proof -
  obtain d r where d: "getFileEndpoints C k s = Ret es (s\<lparr>cache_instance := Some d\<rparr>)"
    and r: "getFile C es k (token s) (web s) = Ret r (web s)" "resp_success r"
      "remote_file C (resp_value r) = Inr (Some (txt, ver))"
    by (rule known_download [OF C B s(1) k b])
  note es = kept_atD(1) [OF k]
  let ?s2 = "s\<lparr>cache_instance := Some d, fs := Fs_Utils.written (fs s) (g_basePath s) k txt\<rparr>"
  have ok2: "db_ok C view ?s2" using s(2) by simp
  obtain e where e: "db_store C k (file_json (recorded C (File_Metadata k) txt ver)) ?s2 = Ret True (?s2\<lparr>db := Some e\<rparr>)"
    "db_docs C view (?s2\<lparr>db := Some e\<rparr>) = (db_docs C view ?s2)(k \<mapsto> file_json (recorded C (File_Metadata k) txt ver))"
    by (rule db_storeE [OF ok2])
  have "remote_file_changed n C k s = Ret () (?s2\<lparr>db := Some e\<rparr>)"
    using file_load_None [OF s(2,3)] d r e(1) es by (simp add: remote_file_changed_def on_web_def file_store_def)
  moreover have "local_text (?s2\<lparr>db := Some e\<rparr>) k = txt"
    using local_text_written [of "s\<lparr>cache_instance := Some d\<rparr>" k "txt"] place by simp
  ultimately show thesis using e(2) by (intro that [of "?s2\<lparr>db := Some e\<rparr>"]) simp_all
qed

text \<open>
  The device has a copy of the file that has not been changed there since it was fetched or sent: text and
  record agree, and the record has some version.
\<close>

definition unchanged_copy ::
  "('w, 'd, 'y) client_ext_scheme \<Rightarrow> ('d \<Rightarrow> string \<rightharpoonup> string) \<Rightarrow> string \<Rightarrow> int \<Rightarrow> ('w, 'd) client \<Rightarrow> bool" where
  "unchanged_copy C view k i s \<longleftrightarrow> (\<exists>m. db_docs C view s k = Some (file_json m) \<and> fileName m = k \<and>
     version m = to_string i \<and> file_content m = local_text s k)"

text \<open>What libgit2 documents of a merge in which one side has not changed: the other side is the result.\<close>

definition takes_changed_side :: "('w, 'd, 'y) client_ext_scheme \<Rightarrow> bool" where
  "takes_changed_side C \<longleftrightarrow> (\<forall>base txt. git_merge C base base txt = (0, Some (txt, True)))"

text \<open>
  The text arrives; when it is another one, it is also sent, under the version of the record, which the
  servers refuse and the client does not see.
\<close>

lemma unchanged_copy_updated:
  assumes C: "meta_service C M addr" and B: "block_service C X pk"
    and s: "connected X pk M addr u s" "db_ok C view s" and k: "kept_at M u k es (web s)"
    and copy: "unchanged_copy C view k i s" "int_min \<le> i" "i < v" "v \<le> int_max" and git: "takes_changed_side C"
    and b: "binding (web s) es (user_key u k) = Some (JStr (text_of C (file_doc (to_string v) txt)))" "txt \<noteq> DELETE_VALUE"
    and place: "can_write (fs s) (g_basePath s) k"
  obtains t m j where "remote_file_changed (Suc (Suc n)) C k s = Ret () t" and "web t = web s" and "local_text t k = txt"
    and "j \<in> {i + 1, v}"
    and "db_docs C view t = (db_docs C view s)(k \<mapsto> file_json (recorded C m txt (to_string j)))" and "fileName m = k"
proof -
  from copy(1) obtain m where m: "db_docs C view s k = Some (file_json m)" "fileName m = k" "version m = to_string i"
    "file_content m = local_text s k" by (auto simp: unchanged_copy_def)
  obtain d where d: "download C k s = Ret (Some (txt, to_string v)) (s\<lparr>cache_instance := Some d\<rparr>)"
    "connected X pk M addr u (s\<lparr>cache_instance := Some d\<rparr>)"
    by (rule known_download [OF C B s(1) k b])
  let ?s1 = "s\<lparr>cache_instance := Some d\<rparr>"
  have ok1: "db_ok C view ?s1" using s(2) by simp
  have load: "file_load C (File_Metadata k) s = Ret (Some m) s" "file_load C (File_Metadata k) ?s1 = Ret (Some m) ?s1"
    by (rule file_load_Some; use s(2) m in simp)+
  have changed: "remote_file_changed (Suc (Suc n)) C k s = Conflict (Suc (Suc n)) C k s"
    using load(1) by (simp add: remote_file_changed_def del: Conflict.simps)
  show thesis
  proof (cases "local_text s k = txt")
    case True
    obtain e where e: "db_store C k (file_json (recorded C (File_Metadata k) txt (to_string v))) ?s1 = Ret True (?s1\<lparr>db := Some e\<rparr>)"
      "db_docs C view (?s1\<lparr>db := Some e\<rparr>) = (db_docs C view ?s1)(k \<mapsto> file_json (recorded C (File_Metadata k) txt (to_string v)))"
      by (rule db_storeE [OF ok1])
    have "Conflict (Suc (Suc n)) C k s = Ret () (?s1\<lparr>db := Some e\<rparr>)"
      using True d(1) e(1) by (simp add: file_store_def)
    with changed show thesis
      by (intro that [of "?s1\<lparr>db := Some e\<rparr>" v "File_Metadata k"]) (use True e(2) in simp_all)
  next
    case False
    let ?s2 = "?s1\<lparr>fs := Fs_Utils.written (fs s) (g_basePath s) k txt\<rparr>"
    have body: "local_text ?s2 k = txt" using local_text_written [of ?s1 k "txt"] place by simp
    have s2: "connected X pk M addr u ?s2" "db_ok C view ?s2" "kept_at M u k es (web ?s2)"
      "db_docs C view ?s2 k = Some (file_json m)" using d(2) ok1 k m(1) by simp_all
    have held: "held_version X (binding (web ?s2) es (user_key u k)) = Some v"
      using b(1) block_serviceD [OF B] by (simp add: held_version_def py_int_def)
    have range: "i < int_max" "i \<noteq> v" using copy(3,4) by simp_all
    obtain d2 e where up: "uploadFile (Suc n) C k ?s2 = Ret True (?s2\<lparr>cache_instance := Some d2, db := Some e\<rparr>)"
      "db_docs C view (?s2\<lparr>cache_instance := Some d2, db := Some e\<rparr>)
        = (db_docs C view ?s2)(k \<mapsto> file_json (recorded C m (local_text ?s2 k) (to_string (i + 1))))"
      by (rule known_stale_upload [OF C B s2 m(2,3) copy(2) range(1) held range(2)])
    have "mergeCheck C (file_content m) (local_text s k) txt = (True, txt)"
      using git m(4) by (simp add: mergeCheck_def takes_changed_side_def)
    with False d(1) load(2) up(1) have "Conflict (Suc (Suc n)) C k s = Ret () (?s2\<lparr>cache_instance := Some d2, db := Some e\<rparr>)"
      by (simp del: uploadFile.simps)
    moreover have "local_text (?s2\<lparr>cache_instance := Some d2, db := Some e\<rparr>) k = txt"
      using read_written [OF place] place by (simp add: local_text_def can_write_def)
    ultimately show thesis
      using changed up(2) body m(2) by (intro that [of "?s2\<lparr>cache_instance := Some d2, db := Some e\<rparr>" "i + 1" m]) simp_all
  qed
qed

section \<open>A device of Ann for the witnesses\<close>

text \<open>The services have the file as version 1; the device has a text of its own and a record.\<close>

definition ann_device :: "string \<Rightarrow> string \<Rightarrow> (string \<times> json) list \<Rightarrow> (services, (string, string) fmap) client" where
  "ann_device d body kvs = (toy_client_at full_world (toy_db_of kvs))\<lparr>token := ''a.b.c'', device_id := d,
     fs := fmap_of_list [((True, [''h'']), Dir), ((True, [''h'', ''a.txt'']), File body)]\<rparr>"

definition version_1 :: "string \<Rightarrow> file_meta" where
  "version_1 body = recorded brace_client (File_Metadata ''dropbox/a.txt'') body (to_string 1)"

lemma version_1_simps [simp]:
  "fileName (version_1 body) = ''dropbox/a.txt''" "version (version_1 body) = to_string 1"
  "file_content (version_1 body) = body"
  by (simp_all add: version_1_def recorded_def)

lemma ann_device_simps [simp]:
  "web (ann_device d body kvs) = full_world" "device_id (ann_device d body kvs) = d"
  "g_basePath (ann_device d body kvs) = ''/h/''" "token (ann_device d body kvs) = ''a.b.c''"
  by (simp_all add: ann_device_def toy_client_def)

lemma ann_device_ok: "db_ok brace_client fmlookup (ann_device d body kvs)"
  using toy_rocks_ok brace_codec_total(2)
  by (simp add: db_ok_def rocks_ok_def brace_client_def ann_device_def toy_client_def)

lemma ann_device_record:
  "db_docs brace_client fmlookup (ann_device d body kvs) = map_of kvs"
  "db_view fmlookup (ann_device d body kvs) k = map_option enc (map_of kvs k)"
proof -
  have view: "db_view fmlookup (ann_device d body kvs) k = map_option enc (map_of kvs k)" for k
    by (simp add: db_view_def ann_device_def toy_client_def toy_db_of_def fmlookup_of_list map_of_map)
  then show "db_view fmlookup (ann_device d body kvs) k = map_option enc (map_of kvs k)" .
  show "db_docs brace_client fmlookup (ann_device d body kvs) = map_of kvs"
    by (rule ext) (simp add: db_docs_view view option.map_comp bind_map_option comp_def del: enc.simps)
qed

lemma ann_device_connected: "connected brace_blocks ''pk'' brace_meta ([], 0) ''ann'' (ann_device d body kvs)"
proof -
  have "cache_inv (new_cache 60000 1000)" using new_cache_inv [of 1000 60000] by simp
  moreover have "ready brace_meta full_server" by (rule full_ready)
  ultimately show ?thesis
    by (simp add: connected_def ann_device_def toy_client_def verify_jwt_def brace_blocks_def cached_def new_cache_def
        full_world_def ann_world_def)
qed

lemma ann_device_text:
  "local_text (ann_device d body kvs) ''dropbox/a.txt'' = body"
  "can_write (fs (ann_device d body kvs)) ''/h/'' ''dropbox/a.txt''"
proof -
  have f: "fs (ann_device d body kvs) = fmap_of_list [((True, [''h'']), Dir), ((True, [''h'', ''a.txt'']), File body)]"
    by (simp add: ann_device_def)
  have p: "buildFullPath ''/h/'' ''dropbox/a.txt'' = ''/h/a.txt''" "text_key ''dropbox/a.txt''"
    "fpath_of ''/h/a.txt'' = (True, [''h'', ''a.txt''])" "parent_path ''/h/a.txt'' = ''/h''" "fpath_of ''/h'' = (True, [''h''])"
    unfolding text_key_def by code_simp+
  show "local_text (ann_device d body kvs) ''dropbox/a.txt'' = body"
    by (simp add: local_text_def f p read_file_def node_at_def fmlookup_of_list)
  show "can_write (fs (ann_device d body kvs)) ''/h/'' ''dropbox/a.txt''"
    by (simp add: can_write_def f p made_parent_def fs_exists_def write_file_def parent_fpath_def node_at_def fmlookup_of_list Let_def)
qed

lemma ann_file_kept:
  "kept_at brace_meta ''ann'' ''dropbox/a.txt'' [''b1''] full_world"
  "binding full_world [''b1''] (user_key ''ann'' ''dropbox/a.txt'') = Some (JStr (enc (file_doc (to_string 1) ''hi'')))"
  "held_version brace_blocks (binding full_world [''b1''] (user_key ''ann'' ''dropbox/a.txt'')) = Some 1"
proof -
  have v: "to_string 1 = ''1''" by code_simp
  have e: "group_of brace_meta (blockserver_lists (init full_server)) k = [''b1'']" for k
    by (simp add: group_of_def full_server_def demo_state_def)
  have l: "leader_of full_world [''b1''] = Some ''b1''" and g: "group_ok full_world [''b1'']"
    by (simp_all add: full_world_def ann_world_def group_ok_def leader_of_def is_leader_def leads_to_def)
  show b: "binding full_world [''b1''] (user_key ''ann'' ''dropbox/a.txt'') = Some (JStr (enc (file_doc (to_string 1) ''hi'')))"
    by (simp add: binding_def l v user_key_def) (simp add: full_world_def)
  show "kept_at brace_meta ''ann'' ''dropbox/a.txt'' [''b1''] full_world"
    using g e by (simp add: kept_at_def full_docs user_key_def fits_def list_size_def)
  show "held_version brace_blocks (binding full_world [''b1''] (user_key ''ann'' ''dropbox/a.txt'')) = Some 1"
    using block_serviceD(7,11) [OF brace_block_service, of "file_doc (to_string 1) ''hi''"]
    unfolding b by (simp add: held_version_def py_int_def del: enc.simps)
qed

lemma brace_git: "takes_changed_side brace_client"
  by (simp add: takes_changed_side_def brace_client_def toy_ext_def toy_merge_def)

end
