(* ===== verification/End_To_End.thy ===== *)
theory End_To_End
  imports Known_Files Notification_Props
begin

text \<open>
  A change on its way from one device to another: the client uploads, the storage server confirms to
  the metadata server, which has the notification servers told, whose message makes the other client
  bring its copy of the file up to date.
\<close>

section \<open>The confirmation and the notification\<close>




section \<open>The other device\<close>



section \<open>From one device to the other\<close>


section \<open>Witness\<close>


end
