(* ===== verification/Conflict_Props.thy ===== *)
theory Conflict_Props
  imports Known_Files
begin

text \<open>
  A conflict that cannot be merged, to its end: the remote text takes the file's place, and the local text
  becomes a new file, on the device and on both services.
\<close>

section \<open>Publishing the copy\<close>

lemma recorded_twice [simp]: "recorded C (recorded C m a v) b w = recorded C m b w"
  by (simp add: recorded_def)

lemma recorded_version [simp]: "version (recorded C m txt v) = v"
  by (simp add: recorded_def)






section \<open>The whole conflict\<close>


section \<open>Witness\<close>

text \<open>A device that has version 1 with another base text on record, and a text of its own.\<close>

definition ann_listing :: dir_meta where
  "ann_listing = \<lparr>files = [''dropbox/a.txt''], directories = [''dropbox/d''], directoryName = ''dropbox''\<rparr>"

definition clashing :: "(services, (string, string) fmap) client" where
  "clashing = ann_device ''d1'' ''mine''
     [(''dropbox/a.txt'', file_json (version_1 ''base'')), (''dropbox'', dir_json ann_listing)]"

lemma clashing_simps [simp]:
  "web clashing = full_world" "device_id clashing = ''d1''" "g_basePath clashing = ''/h/''"
  "local_text clashing ''dropbox/a.txt'' = ''mine''"
  "db_docs brace_client fmlookup clashing = [''dropbox/a.txt'' \<mapsto> file_json (version_1 ''base''), ''dropbox'' \<mapsto> dir_json ann_listing]"
  by (auto simp: clashing_def ann_device_text ann_device_record fun_eq_iff)




end
