(* ===== verification/Send_Tree.thy ===== *)
theory Send_Tree
  imports Fetch_Props
begin

text \<open>
  The tree of a device that sends, what the services know of it before and after, and what a step
  touches: on the device the cache and the record, on the services what they have of the user at and
  below an entry, and the listing of its directory.
\<close>

section \<open>What is sent, and where it arrives\<close>

text \<open>
  The device is logged in, its database works, what its cache holds is what the metadata server would
  answer, and the groups of storage servers have a leader and a majority.
\<close>

definition can_send :: "(services, 'd, 'y) client_ext_scheme \<Rightarrow> (services, 'x) meta_ext_scheme \<Rightarrow> string \<Rightarrow>
    (cluster, 'z) meta_ext_scheme \<Rightarrow> string \<times> nat \<Rightarrow> string \<Rightarrow> ('d \<Rightarrow> string \<rightharpoonup> string) \<Rightarrow> (services, 'd) client \<Rightarrow> bool" where
  "can_send C X pk M addr u view s \<longleftrightarrow> meta_lb s = addr \<and> token s \<noteq> [] \<and>
     (\<forall>now. verify_jwt M (public_key (init (server s))) now (token s) = Some u \<and> verify_jwt X pk now (token s) = Some u) \<and>
     ready M (server s) \<and> db_ok C view s \<and> base_ok (g_basePath s) \<and> quorum (web s) \<and>
     (\<forall>k. endpoints_for M (web s) u k \<noteq> [] \<and> group_ok (web s) (endpoints_for M (web s) u k)) \<and>
     (\<exists>c. cache_instance s = Some c \<and> lru.explained (\<lambda>k es. es = endpoints_for M (web s) u k) c)"

lemma can_sendD:
  assumes "can_send C X pk M addr u view s"
  shows "logged_in M addr u s" "ready M (server s)" "db_ok C view s" "base_ok (g_basePath s)" "quorum (web s)"
    "verify_jwt X pk now (token s) = Some u" "endpoints_for M (web s) u k \<noteq> []"
    "group_ok (web s) (endpoints_for M (web s) u k)"
  using assms by (simp_all add: can_send_def logged_in_def)

text \<open>A tree whose texts are on the device and on record, but have not been sent: their version is 0.\<close>

definition text_todo :: "(services, 'd, 'y) client_ext_scheme \<Rightarrow> (cluster, 'z) meta_ext_scheme \<Rightarrow>
    ('d \<Rightarrow> string \<rightharpoonup> string) \<Rightarrow> string \<Rightarrow> (services, 'd) client \<Rightarrow> string \<Rightarrow> string \<times> string \<Rightarrow> bool" where
  "text_todo C M view u s k = (\<lambda>(ver, txt). ver = to_string 1 \<and> txt \<noteq> DELETE_VALUE \<and>
     fits k (endpoints_for M (web s) u k) \<and> local_text s k = txt \<and>
     db_docs C view s k = Some (file_json (File_Metadata k)))"

fun todo :: "(services, 'd, 'y) client_ext_scheme \<Rightarrow> (cluster, 'z) meta_ext_scheme \<Rightarrow>
    ('d \<Rightarrow> string \<rightharpoonup> string) \<Rightarrow> string \<Rightarrow> (services, 'd) client \<Rightarrow> string list \<Rightarrow> folder \<Rightarrow> bool" where
  "todo C M view u s ws (Folder ts ds) \<longleftrightarrow>
     dir_at (fs s) (g_basePath s) ws \<and> db_docs C view s (key_at ws) = Some (dir_json (listing_of ws (Folder ts ds))) \<and>
     (\<forall>t \<in> set ts. text_todo C M view u s (key_at (ws @ [fst t])) (snd t)) \<and>
     (\<forall>d \<in> set ds. todo C M view u s (ws @ [fst d]) (snd d))"

text \<open>The services know nothing at or below an entry.\<close>

definition unsent :: "(cluster, 'z) meta_ext_scheme \<Rightarrow> string \<Rightarrow> string list \<Rightarrow> services \<Rightarrow> bool" where
  "unsent M u ws w \<longleftrightarrow> (\<forall>x. at_or_below (key_at ws) x \<longrightarrow>
     meta_view M (meta_state w) (user_key u x) = None \<and> (\<forall>es. binding w es (user_key u x) = None))"

text \<open>The metadata server lists a directory as a record does.\<close>

definition listed_as :: "(cluster, 'z) meta_ext_scheme \<Rightarrow> string \<Rightarrow> string list \<Rightarrow> services \<Rightarrow> dir_meta \<Rightarrow> bool" where
  "listed_as M u ws w dm \<longleftrightarrow> (\<exists>D. docs M (meta_state w) (user_key u (key_at ws)) = Some D \<and> same_lists dm D)"

section \<open>What a step touches\<close>

text \<open>
  On the device only the cache and the record change, the record at and below the entries \<open>N\<close> of the
  directory \<open>ws\<close>; on the services what they have of the user at and below these entries, and the
  listing of the directory.
\<close>

definition sends :: "('d \<Rightarrow> string \<rightharpoonup> string) \<Rightarrow> (cluster, 'z) meta_ext_scheme \<Rightarrow> string \<Rightarrow> string list \<Rightarrow> string set \<Rightarrow>
    (services, 'd) client \<Rightarrow> (services, 'd) client \<Rightarrow> bool" where
  "sends view M u ws N s t \<longleftrightarrow> (\<exists>c d w. t = s\<lparr>cache_instance := c, db := d, web := w\<rparr>) \<and>
     (\<forall>x. (\<forall>n \<in> N. \<not> at_or_below (key_at (ws @ [n])) x) \<longrightarrow> db_view view t x = db_view view s x) \<and>
     init (server t) = init (server s) \<and> (\<forall>es. group_ok (web t) es = group_ok (web s) es) \<and>
     (\<forall>x. (\<forall>n \<in> N. \<not> at_or_below (key_at (ws @ [n])) x) \<longrightarrow>
        (x \<noteq> key_at ws \<longrightarrow> docs M (server t) (user_key u x) = docs M (server s) (user_key u x)) \<and>
        (meta_view M (server t) (user_key u x) = None \<longleftrightarrow> meta_view M (server s) (user_key u x) = None) \<and>
        (\<forall>es. binding (web t) es (user_key u x) = binding (web s) es (user_key u x)))"

definition same_cloud :: "(cluster, 'z) meta_ext_scheme \<Rightarrow> string \<Rightarrow> string list \<Rightarrow> services \<Rightarrow> services \<Rightarrow> bool" where
  "same_cloud M u ws w v \<longleftrightarrow> init (meta_state v) = init (meta_state w) \<and> (\<forall>es. group_ok v es = group_ok w es) \<and>
     (\<forall>x. at_or_below (key_at ws) x \<longrightarrow> docs M (meta_state v) (user_key u x) = docs M (meta_state w) (user_key u x) \<and>
        (meta_view M (meta_state v) (user_key u x) = None \<longleftrightarrow> meta_view M (meta_state w) (user_key u x) = None) \<and>
        (\<forall>es. binding v es (user_key u x) = binding w es (user_key u x)))"

lemma sends_fields:
  assumes "sends view M u ws N s t"
  shows "fs t = fs s" "token t = token s" "meta_lb t = meta_lb s" "device_id t = device_id s"
    "g_basePath t = g_basePath s" "init (server t) = init (server s)" "group_ok (web t) es = group_ok (web s) es"
  using assms by (auto simp: sends_def)

lemma sends_refl: "sends view M u ws N s s"
  unfolding sends_def by (cases s) auto

lemma sends_trans:
  assumes "sends view M u ws N s t" and "sends view M u ws L t v"
  shows "sends view M u ws (N \<union> L) s v"
proof -
  from assms obtain c d w where "v = s\<lparr>cache_instance := c, db := d, web := w\<rparr>" by (auto simp: sends_def)
  then show ?thesis using assms unfolding sends_def by simp blast
qed

interpretation sending: entry_steps "sends view M u ws" for view M u ws
  by unfold_locales (rule sends_refl, rule sends_trans)

text \<open>Other entries of the directory are as before, on the device and on the services.\<close>

lemma sends_elsewhere:
  assumes s: "sends view M u ws N s t" and m: "m \<notin> N" "list_all name_ok (ws @ [m])" "\<forall>n \<in> N. name_ok n"
  shows "agrees view (ws @ [m]) s t" and "same_cloud M u (ws @ [m]) (web s) (web t)"
proof -
  have apart: "\<not> at_or_below (key_at (ws @ [n])) x \<and> x \<noteq> key_at ws"
    if "n \<in> N" "at_or_below (key_at (ws @ [m])) x" for n x
    using entries_apart [of n m ws x] at_or_below_entry [OF that(2)] m that by auto
  then show "agrees view (ws @ [m]) s t"
    using s sends_fields(1,5) [OF s] unfolding agrees_def sends_def by simp
  have below: "(\<forall>n \<in> N. \<not> at_or_below (key_at (ws @ [n])) x) \<and> x \<noteq> key_at ws"
    if "at_or_below (key_at (ws @ [m])) x" for x
    using apart that at_or_below_entry [OF that] by simp
  show "same_cloud M u (ws @ [m]) (web s) (web t)"
    using s unfolding same_cloud_def sends_def by (simp add: below)
qed

text \<open>A step below an entry of a directory is a step at this entry.\<close>

lemma sends_up:
  assumes "sends view M u (vs @ [n]) N s t"
  shows "sends view M u vs {n} s t"
proof -
  have "\<not> at_or_below (key_at (vs @ [n])) x \<Longrightarrow> \<not> at_or_below (key_at ((vs @ [n]) @ [m])) x \<and> x \<noteq> key_at (vs @ [n])"
    for m x using at_or_below_entry [of "vs @ [n]" m x] by (auto simp: at_or_below_def)
  with assms show ?thesis unfolding sends_def by simp
qed

lemma same_cloud_sub: "same_cloud M u vs w v \<Longrightarrow> same_cloud M u (vs @ us) w v"
  using at_or_below_trans [OF at_or_below_key] unfolding same_cloud_def by blast

lemma same_cloud_text:
  "same_cloud M u ws w v \<Longrightarrow> text_served C M w u (key_at ws) x \<Longrightarrow> text_served C M v u (key_at ws) x"
  by (auto simp: same_cloud_def text_served_def at_or_below_def)

lemma same_cloud_served:
  "same_cloud M u ws w v \<Longrightarrow> served C M w u ws F \<Longrightarrow> served C M v u ws F"
proof (induction F arbitrary: ws rule: folder_induct)
  case (Folder ts ds)
  note c = Folder.prems(1)
  have "text_served C M v u (key_at (ws @ [fst x])) (snd x)" if "x \<in> set ts" for x
    by (rule same_cloud_text [OF same_cloud_sub [OF c]]) (use Folder.prems(2) that in simp)
  moreover have "served C M v u (ws @ [fst d]) (snd d)" if "d \<in> set ds" for d
  proof (rule Folder.IH [OF _ same_cloud_sub [OF c]])
    show "(fst d, snd d) \<in> set ds" using that by simp
  qed (use Folder.prems(2) that in simp)
  moreover have "docs M (meta_state v) (user_key u (key_at ws)) = docs M (meta_state w) (user_key u (key_at ws))"
    using c by (simp add: same_cloud_def at_or_below_def)
  ultimately show ?case using Folder.prems(2) by simp
qed

lemma same_cloud_unsent: "same_cloud M u ws w v \<Longrightarrow> unsent M u ws w \<Longrightarrow> unsent M u ws v"
  by (simp add: same_cloud_def unsent_def)

lemma agrees_local_text:
  assumes "agrees view ws s t" and "base_ok (g_basePath s)" and "list_all name_ok ws" and "ws \<noteq> []"
  shows "local_text t (key_at ws) = local_text s (key_at ws)"
proof (cases "text_key (key_at ws)")
  case True
  with local_text_at [of s ws] local_text_at [of t ws] agrees_at [OF assms(1,2), of "[]"] agreesD(1) [OF assms(1)] assms(2-4)
  show ?thesis by simp
qed (simp add: local_text_def)

lemma agrees_text_todo:
  assumes "agrees view ws s t" and "base_ok (g_basePath s)" and "list_all name_ok ws" and "ws \<noteq> []"
    and "init (server t) = init (server s)" and "text_todo C M view u s (key_at ws) x"
  shows "text_todo C M view u t (key_at ws) x"
  using agrees_docs [OF assms(1), of "key_at ws" C] agrees_local_text [OF assms(1-4)] assms(5,6)
  by (auto simp: text_todo_def at_or_below_def)

lemma agrees_todo:
  "agrees view ws s t \<Longrightarrow> base_ok (g_basePath s) \<Longrightarrow> list_all name_ok ws \<Longrightarrow> folder_named F \<Longrightarrow>
     init (server t) = init (server s) \<Longrightarrow> todo C M view u s ws F \<Longrightarrow> todo C M view u t ws F"
proof (induction F arbitrary: ws rule: folder_induct)
  case (Folder ts ds)
  note a = Folder.prems(1) and b = Folder.prems(2)
  have base: "g_basePath t = g_basePath s" using a by (simp add: agrees_def)
  have names: "list_all name_ok (ws @ [n])" if "n \<in> set (map fst ts @ map fst ds)" for n
    using Folder.prems(3,4) that by (auto simp: list_all_iff)
  have "dir_at (fs t) (g_basePath t) ws"
    using Folder.prems(6) agrees_at [OF a b, of "[]"] Folder.prems(3) base dir_at_fs b by simp
  moreover have "db_docs C view t (key_at ws) = db_docs C view s (key_at ws)"
    by (rule agrees_docs [OF a]) (simp add: at_or_below_def)
  moreover have "text_todo C M view u t (key_at (ws @ [fst x])) (snd x)" if "x \<in> set ts" for x
  proof -
    have "fst x \<in> set (map fst ts @ map fst ds)" using that by simp
    note n = names [OF this]
    show ?thesis by (rule agrees_text_todo [OF agrees_sub [OF a b n] b n _ Folder.prems(5)]) (use Folder.prems(6) that in auto)
  qed
  moreover have "todo C M view u t (ws @ [fst d]) (snd d)" if "d \<in> set ds" for d
  proof -
    have "fst d \<in> set (map fst ts @ map fst ds)" and m: "(fst d, snd d) \<in> set ds" using that by simp_all
    note n = names [OF this(1)]
    show ?thesis by (rule Folder.IH [OF m agrees_sub [OF a b n] b n _ Folder.prems(5)]) (use Folder.prems(4,6) that in auto)
  qed
  ultimately show ?case using Folder.prems(6) by simp
qed

end
