(* ===== verification/Send_Props.thy ===== *)
theory Send_Props
  imports Send_Tree
begin

text \<open>
  The three synchronisations at start-up on the first device of a user: everything in its directory is
  sent to the services, and from there to every new device.
\<close>

section \<open>One step\<close>

lemma parent_of_key_at: "name_ok n \<Longrightarrow> parent_of (key_at (ws @ [n])) = Some (key_at ws)"
  by (auto simp: parent_of_Some key_at_entry name_ok_def)

lemma can_send_step:
  assumes "can_send C X pk M addr u view s" and "t = s\<lparr>cache_instance := Some c, db := Some d, web := w\<rparr>"
    and "init (server t) = init (server s)" and "\<And>es. group_ok (web t) es = group_ok (web s) es"
    and "quorum (web t)" and "ready M (server t)" and "db_ok C view t"
    and "lru.explained (\<lambda>k es. es = endpoints_for M (web s) u k) c"
  shows "can_send C X pk M addr u view t"
  using assms unfolding can_send_def by simp

lemma same_lists_dir:
  "same_lists dm D \<Longrightarrow> same_lists (dm\<lparr>directories := directories dm @ [k]\<rparr>) (with_entry ''subdirectories'' k D)"
  by (simp add: same_lists_def)

text \<open>A file: the metadata server is told of it, and the storage servers get its text.\<close>

lemma file_sent:
  assumes C: "meta_service C M addr" and B: "block_service C X pk" and s: "can_send C X pk M addr u view s"
    and n: "list_all name_ok (ws @ [n])" and x: "text_todo C M view u s (key_at (ws @ [n])) x"
    and place: "unsent M u (ws @ [n]) (web s)" "listed_as M u ws (web s) dm"
  obtains t where "send_file (Suc m) C (key_at (ws @ [n])) s = Ret () t" and "can_send C X pk M addr u view t"
    and "sends view M u ws {n} s t"
    and "listed_as M u ws (web t) (dm\<lparr>files := files dm @ [key_at (ws @ [n])]\<rparr>)"
    and "text_served C M (web t) u (key_at (ws @ [n])) x" and "text_copied C view t (key_at (ws @ [n])) x"
proof -
  let ?k = "key_at (ws @ [n])" and ?q = "key_at ws"
  obtain body where xv: "x = (to_string 1, body)" and todo: "body \<noteq> DELETE_VALUE" "fits ?k (endpoints_for M (web s) u ?k)"
    "local_text s ?k = body" "db_docs C view s ?k = Some (file_json (File_Metadata ?k))"
    using x by (cases x) (auto simp: text_todo_def)
  have par: "parent_of ?k = Some ?q" by (rule parent_of_key_at) (use n in simp)
  have kq: "?k \<noteq> ?q" using parent_of_neq [OF par] by simp
  have self: "at_or_below ?k ?k" by (simp add: at_or_below_def)
  obtain D where D: "docs M (server s) (user_key u ?q) = Some D" "same_lists dm D"
    using place(2) by (auto simp: listed_as_def)
  have new: "meta_view M (server s) (user_key u ?k) = None" and bare: "binding (web s) es (user_key u ?k) = None" for es
    using place(1) self by (auto simp: unsent_def)
  obtain j v where made: "createFile C ?k s = Ret j (put_server v s)" "ready M v" "init v = init (server s)"
    "docs M v = (docs M (server s))(user_key u ?k \<mapsto> file_metadata u (time_now M (net (server s))) ?q ?k,
        user_key u ?q \<mapsto> with_entry ''files'' ?k D)"
    "dom (meta_view M v) = insert (user_key u ?k) (dom (meta_view M (server s)))"
    by (rule file_asked [OF C can_sendD(1,2) [OF s] par D new])
  let ?s1 = "put_server v s"
  obtain c where c: "cache_instance s = Some c" "lru.explained (\<lambda>k es. es = endpoints_for M (web s) u k) c"
    using s by (auto simp: can_send_def)
  have c1: "cache_instance ?s1 = Some c" using c(1) by simp
  have s1: "can_send C X pk M addr u view ?s1" using s made(2,3) by (simp add: can_send_def)
  have es: "endpoints_for M (web ?s1) u k = endpoints_for M (web s) u k" for k using made(3) by simp
  have known: "docs M (server ?s1) (user_key u ?k) = Some (file_metadata u (time_now M (net (server s))) ?q ?k)"
    using made(4) kq by (simp add: user_key_def)
  have txt1: "local_text ?s1 ?k = body" using todo(3) by simp
  obtain d w e where up: "uploadFile (Suc m) C ?k ?s1 = Ret True (?s1\<lparr>cache_instance := Some d, web := w, db := Some e\<rparr>)"
    and d: "lru.explained (\<lambda>k es. es = endpoints_for M (web s) u k) d" and w: "meta_state w = server ?s1"
    and b: "bound (web ?s1) w (endpoints_for M (web s) u ?k) (user_key u ?k)
      (text_of C (file_doc (to_string 1) (local_text ?s1 ?k)))
      [obj [(''user_id'', JStr u), (''path'', JStr ?k), (''device_id'', JStr (device_id ?s1))]]"
    and docs_t: "db_docs C view (?s1\<lparr>cache_instance := Some d, web := w, db := Some e\<rparr>)
      = (db_docs C view ?s1)(?k \<mapsto> file_json (recorded C (File_Metadata ?k) (local_text ?s1 ?k) (to_string 1)))"
    and frame: "\<And>x. x \<noteq> ?k \<Longrightarrow> db_view view (?s1\<lparr>cache_instance := Some d, web := w, db := Some e\<rparr>) x = db_view view ?s1 x"
    by (rule fresh_upload [OF C B can_sendD(1,2,3,6) [OF s1] known _ _ _ _ c1 c(2), of "endpoints_for M (web s) u ?k" m])
      (use todo es can_sendD(5,7,8) [OF s1] bare in \<open>simp_all add: held_version_def\<close>)
  let ?t = "?s1\<lparr>cache_instance := Some d, web := w, db := Some e\<rparr>"
  have t: "?t = s\<lparr>cache_instance := Some d, db := Some e, web := w\<rparr>" by simp
  have sv: "server ?t = v" using w by simp
  have same_text: "local_text ?t ?k = local_text ?s1 ?k" by simp
  show thesis
  proof (rule that [of ?t])
    show "send_file (Suc m) C ?k s = Ret () ?t" using made(1) up by (simp add: send_file_def del: uploadFile.simps)
    show "can_send C X pk M addr u view ?t"
    proof (rule can_send_step [OF s t])
      show "db_ok C view ?t" using can_sendD(3) [OF s] by (simp add: db_ok_def)
    qed (use b d sv made(2,3) can_sendD(5) [OF s] in \<open>simp_all add: bound_def\<close>)
    show "sends view M u ws {n} s ?t"
      unfolding sends_def
    proof (intro conjI allI impI)
      show "\<exists>c d w. ?t = s\<lparr>cache_instance := c, db := d, web := w\<rparr>" using t by blast
      fix x assume "\<forall>m \<in> {n}. \<not> at_or_below (key_at (ws @ [m])) x"
      then have x: "x \<noteq> ?k" by (auto simp: at_or_below_def)
      show "db_view view ?t x = db_view view s x" using frame [OF x] by (simp add: db_view_def)
      show "docs M (server ?t) (user_key u x) = docs M (server s) (user_key u x)" if "x \<noteq> ?q"
        unfolding sv made(4) using x that by (simp add: user_key_def)
      have "user_key u x \<in> dom (meta_view M v) \<longleftrightarrow> user_key u x \<in> dom (meta_view M (server s))"
        unfolding made(5) using x by (simp add: user_key_def)
      then show "meta_view M (server ?t) (user_key u x) = None \<longleftrightarrow> meta_view M (server s) (user_key u x) = None"
        unfolding sv domIff by blast
      show "binding (web ?t) es (user_key u x) = binding (web s) es (user_key u x)" for es
        using b x by (simp add: bound_def user_key_def)
    qed (use b sv made(3) in \<open>simp_all add: bound_def\<close>)
    show "listed_as M u ws (web ?t) (dm\<lparr>files := files dm @ [?k]\<rparr>)"
      using same_lists_file [OF D(2), of ?k] made(4) sv by (simp add: listed_as_def)
    show "text_served C M (web ?t) u ?k x"
      using b todo(1,2) txt1 sv made(3) known es can_sendD(7,8) [OF s1] by (simp add: text_served_def xv bound_def)
    show "text_copied C view ?t ?k x"
      using docs_t txt1 same_text by (simp add: text_copied_def xv)
  qed
qed

text \<open>
  The entries of a directory, one after the other: \<open>T\<close> is what is there to send, \<open>P\<close> what has
  been sent, and the listing on the server grows by \<open>grow\<close>.
\<close>

lemma send_loop:
  assumes body: "\<And>x s dm. x \<in> set xs \<Longrightarrow> can_send C X pk M addr u view s \<Longrightarrow> T x s \<Longrightarrow> unsent M u (ws @ [fst x]) (web s) \<Longrightarrow>
      listed_as M u ws (web s) dm \<Longrightarrow>
      \<exists>t. g (key_at (ws @ [fst x])) s = Ret () t \<and> can_send C X pk M addr u view t \<and> sends view M u ws {fst x} s t \<and>
        listed_as M u ws (web t) (grow (key_at (ws @ [fst x])) dm) \<and> P x t"
    and todo: "\<And>x s t. x \<in> set xs \<Longrightarrow> base_ok (g_basePath s) \<Longrightarrow> agrees view (ws @ [fst x]) s t \<Longrightarrow>
      init (server t) = init (server s) \<Longrightarrow> T x s \<Longrightarrow> T x t"
    and sent: "\<And>x s t. x \<in> set xs \<Longrightarrow> base_ok (g_basePath s) \<Longrightarrow> agrees view (ws @ [fst x]) s t \<Longrightarrow>
      same_cloud M u (ws @ [fst x]) (web s) (web t) \<Longrightarrow> P x s \<Longrightarrow> P x t"
    and names: "distinct (map fst xs)" "list_all name_ok ws" "\<forall>x \<in> set xs. name_ok (fst x)"
    and s: "can_send C X pk M addr u view s" "\<forall>x \<in> set xs. T x s \<and> unsent M u (ws @ [fst x]) (web s)"
      "listed_as M u ws (web s) dm"
  shows "\<exists>t. for_each (map (\<lambda>x. key_at (ws @ [fst x])) xs) g s = Ret () t \<and> can_send C X pk M addr u view t \<and>
    sends view M u ws (fst ` set xs) s t \<and>
    listed_as M u ws (web t) (fold grow (map (\<lambda>x. key_at (ws @ [fst x])) xs) dm) \<and> (\<forall>x \<in> set xs. P x t)"
proof (rule sending.entries_done [where T = "\<lambda>x s. T x s \<and> unsent M u (ws @ [fst x]) (web s)"
      and G = "\<lambda>dm s. listed_as M u ws (web s) dm"])
  fix x N s t
  assume a: "x \<in> set xs" "can_send C X pk M addr u view s" "sends view M u ws N s t" "N \<subseteq> fst ` set xs" "fst x \<notin> N"
  note b = can_sendD(4) [OF a(2)]
  have "list_all name_ok (ws @ [fst x])" "\<forall>n \<in> N. name_ok n" using names(2,3) a(1,4) by auto
  note same = sends_elsewhere [OF a(3,5) this]
  show "(T x s \<and> unsent M u (ws @ [fst x]) (web s) \<longrightarrow> T x t \<and> unsent M u (ws @ [fst x]) (web t)) \<and> (P x s \<longrightarrow> P x t)"
    using todo [OF a(1) b same(1) sends_fields(6) [OF a(3)]] sent [OF a(1) b same] same_cloud_unsent [OF same(2)] by blast
qed (use body names(1) s in blast)+

lemma fold_files:
  "fold (\<lambda>k dm. dm\<lparr>files := files dm @ [k]\<rparr>) ks dm = dm\<lparr>files := files dm @ ks\<rparr>"
  by (induction ks arbitrary: dm) simp_all

lemma fold_directories:
  "fold (\<lambda>k dm. dm\<lparr>directories := directories dm @ [k]\<rparr>) ks dm = dm\<lparr>directories := directories dm @ ks\<rparr>"
  by (induction ks arbitrary: dm) simp_all

section \<open>A directory with everything below\<close>

text \<open>What is there of a file or a directory, once it has been sent.\<close>

definition text_sent :: "(services, 'd, 'y) client_ext_scheme \<Rightarrow> (cluster, 'z) meta_ext_scheme \<Rightarrow>
    ('d \<Rightarrow> string \<rightharpoonup> string) \<Rightarrow> string \<Rightarrow> (services, 'd) client \<Rightarrow> string \<Rightarrow> string \<times> string \<Rightarrow> bool" where
  "text_sent C M view u s k x \<longleftrightarrow> text_served C M (web s) u k x \<and> text_copied C view s k x"

definition folder_sent :: "(services, 'd, 'y) client_ext_scheme \<Rightarrow> (cluster, 'z) meta_ext_scheme \<Rightarrow>
    ('d \<Rightarrow> string \<rightharpoonup> string) \<Rightarrow> string \<Rightarrow> (services, 'd) client \<Rightarrow> string list \<Rightarrow> folder \<Rightarrow> bool" where
  "folder_sent C M view u s ws F \<longleftrightarrow> served C M (web s) u ws F \<and> copied C view s ws F"

lemma text_sent_elsewhere:
  assumes "base_ok (g_basePath s)" and "agrees view (ws @ [n]) s t" and "same_cloud M u (ws @ [n]) (web s) (web t)"
    and "list_all name_ok (ws @ [n])" and "text_sent C M view u s (key_at (ws @ [n])) x"
  shows "text_sent C M view u t (key_at (ws @ [n])) x"
  using assms(5) by (auto simp: text_sent_def intro: same_cloud_text [OF assms(3)] agrees_text [OF assms(2,1,4)])

lemma folder_sent_elsewhere:
  assumes "base_ok (g_basePath s)" and "agrees view ws s t" and "same_cloud M u ws (web s) (web t)"
    and "list_all name_ok ws" and "folder_named F" and "folder_sent C M view u s ws F"
  shows "folder_sent C M view u t ws F"
  using assms(6) by (auto simp: folder_sent_def intro: same_cloud_served [OF assms(3)] agrees_copied [OF assms(2,1,4,5)])

lemma contents_sent:
  assumes C: "meta_service C M addr" and B: "block_service C X pk"
    and F: "folder_named (Folder ts ds)" "list_all name_ok ws"
    and s: "can_send C X pk M addr u view s" "todo C M view u s ws (Folder ts ds)"
      "\<And>n. n \<in> set (names_in (Folder ts ds)) \<Longrightarrow> unsent M u (ws @ [n]) (web s)"
      "listed_as M u ws (web s) (Directory_Metadata (key_at ws))"
    and sub: "\<And>d s dm. d \<in> set ds \<Longrightarrow> can_send C X pk M addr u view s \<Longrightarrow> todo C M view u s (ws @ [fst d]) (snd d) \<Longrightarrow>
      unsent M u (ws @ [fst d]) (web s) \<Longrightarrow> listed_as M u ws (web s) dm \<Longrightarrow>
      \<exists>t. g (key_at (ws @ [fst d])) s = Ret () t \<and> can_send C X pk M addr u view t \<and> sends view M u ws {fst d} s t \<and>
        listed_as M u ws (web t) (dm\<lparr>directories := directories dm @ [key_at (ws @ [fst d])]\<rparr>) \<and>
        folder_sent C M view u t (ws @ [fst d]) (snd d)"
  obtains s1 t where
    "for_each (files (listing_of ws (Folder ts ds))) (send_file (Suc m) C) s = Ret () s1"
    and "for_each (directories (listing_of ws (Folder ts ds))) g s1 = Ret () t"
    and "can_send C X pk M addr u view t" and "sends view M u ws (set (names_in (Folder ts ds))) s t"
    and "listed_as M u ws (web t) (listing_of ws (Folder ts ds))"
    and "\<forall>x \<in> set ts. text_sent C M view u t (key_at (ws @ [fst x])) (snd x)"
    and "\<forall>d \<in> set ds. folder_sent C M view u t (ws @ [fst d]) (snd d)"
proof -
  let ?L = "listing_of ws (Folder ts ds)" and ?dm = "Directory_Metadata (key_at ws)"
  from F have tn: "distinct (map fst ts)" "\<forall>x \<in> set ts. name_ok (fst x)"
    and dn: "distinct (map fst ds)" "\<forall>x \<in> set ds. name_ok (fst x)" "\<forall>d \<in> set ds. folder_named (snd d)"
    and apart: "fst ` set ts \<inter> fst ` set ds = {}" by (auto simp: list_all_iff)
  have nn: "list_all name_ok (ws @ [fst x])" if "x \<in> set ts" for x using F(2) tn(2) that by simp
  have nd: "list_all name_ok (ws @ [fst d])" if "d \<in> set ds" for d using F(2) dn(2) that by simp
  have none: "files ?dm = []" "directories ?dm = []" by (simp_all add: Directory_Metadata_def)
  have one: "\<exists>t. send_file (Suc m) C (key_at (ws @ [fst x])) s = Ret () t \<and> can_send C X pk M addr u view t \<and>
        sends view M u ws {fst x} s t \<and> listed_as M u ws (web t) (dm\<lparr>files := files dm @ [key_at (ws @ [fst x])]\<rparr>) \<and>
        text_sent C M view u t (key_at (ws @ [fst x])) (snd x)"
    if "x \<in> set ts" "can_send C X pk M addr u view s" "text_todo C M view u s (key_at (ws @ [fst x])) (snd x)"
      "unsent M u (ws @ [fst x]) (web s)" "listed_as M u ws (web s) dm" for x s dm
    by (rule file_sent [OF C B that(2) nn [OF that(1)] that(3-5), where m = m]) (auto simp: text_sent_def)
  obtain s1 where s1: "for_each (files ?L) (send_file (Suc m) C) s = Ret () s1" "can_send C X pk M addr u view s1"
    "sends view M u ws (fst ` set ts) s s1" "listed_as M u ws (web s1) (?dm\<lparr>files := files ?L\<rparr>)"
    "\<forall>x \<in> set ts. text_sent C M view u s1 (key_at (ws @ [fst x])) (snd x)"
  proof -
    have "\<exists>t. for_each (map (\<lambda>x. key_at (ws @ [fst x])) ts) (send_file (Suc m) C) s = Ret () t \<and>
        can_send C X pk M addr u view t \<and> sends view M u ws (fst ` set ts) s t \<and>
        listed_as M u ws (web t) (fold (\<lambda>k dm. dm\<lparr>files := files dm @ [k]\<rparr>) (map (\<lambda>x. key_at (ws @ [fst x])) ts) ?dm) \<and>
        (\<forall>x \<in> set ts. text_sent C M view u t (key_at (ws @ [fst x])) (snd x))"
    proof (rule send_loop [OF one _ _ tn(1) F(2) tn(2) s(1) _ s(4)])
      show "text_todo C M view u t (key_at (ws @ [fst x])) (snd x)"
        if "x \<in> set ts" "base_ok (g_basePath s)" "agrees view (ws @ [fst x]) s t" "init (server t) = init (server s)"
          "text_todo C M view u s (key_at (ws @ [fst x])) (snd x)" for x s t
        by (rule agrees_text_todo [OF that(3,2) nn [OF that(1)] _ that(4,5)]) simp
      show "text_sent C M view u t (key_at (ws @ [fst x])) (snd x)"
        if "x \<in> set ts" "base_ok (g_basePath s)" "agrees view (ws @ [fst x]) s t"
          "same_cloud M u (ws @ [fst x]) (web s) (web t)" "text_sent C M view u s (key_at (ws @ [fst x])) (snd x)" for x s t
        by (rule text_sent_elsewhere [OF that(2-4) nn [OF that(1)] that(5)])
    qed (use s(2,3) in \<open>auto simp: names_in_def\<close>)
    then show thesis using that none by (auto simp: fold_files listing_of_def)
  qed
  note b = can_sendD(4) [OF s(1)] and b1 = can_sendD(4) [OF s1(2)]
  have rest: "todo C M view u s1 (ws @ [fst d]) (snd d) \<and> unsent M u (ws @ [fst d]) (web s1)" if "d \<in> set ds" for d
  proof -
    have "fst d \<notin> fst ` set ts" "\<forall>n \<in> fst ` set ts. name_ok n" using apart tn(2) that by auto
    note same = sends_elsewhere [OF s1(3) this(1) nd [OF that] this(2)]
    have "todo C M view u s1 (ws @ [fst d]) (snd d)"
      by (rule agrees_todo [OF same(1) b nd [OF that] _ sends_fields(6) [OF s1(3)]]) (use dn(3) s(2) that in auto)
    moreover have "unsent M u (ws @ [fst d]) (web s)" by (rule s(3)) (use that in \<open>auto simp: names_in_def\<close>)
    ultimately show ?thesis using same_cloud_unsent [OF same(2)] by simp
  qed
  obtain t where t: "for_each (directories ?L) g s1 = Ret () t" "can_send C X pk M addr u view t"
    "sends view M u ws (fst ` set ds) s1 t" "listed_as M u ws (web t) ?L"
    "\<forall>d \<in> set ds. folder_sent C M view u t (ws @ [fst d]) (snd d)"
  proof -
    have "\<exists>t. for_each (map (\<lambda>x. key_at (ws @ [fst x])) ds) g s1 = Ret () t \<and>
        can_send C X pk M addr u view t \<and> sends view M u ws (fst ` set ds) s1 t \<and>
        listed_as M u ws (web t) (fold (\<lambda>k dm. dm\<lparr>directories := directories dm @ [k]\<rparr>)
          (map (\<lambda>x. key_at (ws @ [fst x])) ds) (?dm\<lparr>files := files ?L\<rparr>)) \<and>
        (\<forall>d \<in> set ds. folder_sent C M view u t (ws @ [fst d]) (snd d))"
    proof (rule send_loop [OF sub _ _ dn(1) F(2) dn(2) s1(2) _ s1(4)])
      show "todo C M view u t (ws @ [fst d]) (snd d)"
        if "d \<in> set ds" "base_ok (g_basePath s)" "agrees view (ws @ [fst d]) s t" "init (server t) = init (server s)"
          "todo C M view u s (ws @ [fst d]) (snd d)" for d s t
        by (rule agrees_todo [OF that(3,2) nd [OF that(1)] _ that(4,5)]) (use dn(3) that(1) in blast)
      show "folder_sent C M view u t (ws @ [fst d]) (snd d)"
        if "d \<in> set ds" "base_ok (g_basePath s)" "agrees view (ws @ [fst d]) s t"
          "same_cloud M u (ws @ [fst d]) (web s) (web t)" "folder_sent C M view u s (ws @ [fst d]) (snd d)" for d s t
        by (rule folder_sent_elsewhere [OF that(2-4) nd [OF that(1)] _ that(5)]) (use dn(3) that(1) in blast)
    qed (simp_all add: rest)
    moreover have "?dm\<lparr>files := files ?L, directories := directories ?L\<rparr> = ?L"
      by (simp add: Directory_Metadata_def listing_of_def)
    ultimately show thesis using that none by (auto simp: fold_directories listing_of_def)
  qed
  have kept: "text_sent C M view u t (key_at (ws @ [fst x])) (snd x)" if "x \<in> set ts" for x
  proof -
    have "fst x \<notin> fst ` set ds" "\<forall>n \<in> fst ` set ds. name_ok n" using apart dn(2) that by auto
    note same = sends_elsewhere [OF t(3) this(1) nn [OF that] this(2)]
    show ?thesis by (rule text_sent_elsewhere [OF b1 same nn [OF that]]) (use s1(5) that in blast)
  qed
  have "set (names_in (Folder ts ds)) = fst ` set ts \<union> fst ` set ds" by (simp add: names_in_def)
  with sends_trans [OF s1(3) t(3)] have "sends view M u ws (set (names_in (Folder ts ds))) s t" by simp
  then show thesis using that s1(1) t(1,2,4,5) kept by blast
qed

text \<open>The metadata server is told of the directory itself.\<close>

lemma directory_told:
  assumes C: "meta_service C M addr" and s: "can_send C X pk M addr u view s"
    and n: "list_all name_ok (vs @ [n])"
    and place: "unsent M u (vs @ [n]) (web s)" "listed_as M u vs (web s) dm"
  obtains j v where "createDir C (key_at (vs @ [n])) s = Ret j (put_server v s)"
    and "can_send C X pk M addr u view (put_server v s)" and "sends view M u vs {n} s (put_server v s)"
    and "listed_as M u vs (web (put_server v s)) (dm\<lparr>directories := directories dm @ [key_at (vs @ [n])]\<rparr>)"
    and "listed_as M u (vs @ [n]) (web (put_server v s)) (Directory_Metadata (key_at (vs @ [n])))"
    and "\<And>m. unsent M u ((vs @ [n]) @ [m]) (web (put_server v s))"
proof -
  let ?k = "key_at (vs @ [n])" and ?q = "key_at vs"
  have par: "parent_of ?k = Some ?q" by (rule parent_of_key_at) (use n in simp)
  have kq: "?k \<noteq> ?q" using parent_of_neq [OF par] by simp
  obtain D where D: "docs M (server s) (user_key u ?q) = Some D" "same_lists dm D"
    using place(2) by (auto simp: listed_as_def)
  have new: "meta_view M (server s) (user_key u ?k) = None"
    using place(1) by (auto simp: unsent_def at_or_below_def)
  obtain j v where made: "createDir C ?k s = Ret j (put_server v s)" "ready M v" "init v = init (server s)"
    "docs M v = (docs M (server s))(user_key u ?k \<mapsto> dir_metadata u (time_now M (net (server s))),
        user_key u ?q \<mapsto> with_entry ''subdirectories'' ?k D)"
    "dom (meta_view M v) = insert (user_key u ?k) (dom (meta_view M (server s)))"
    by (rule directory_asked [OF C can_sendD(1,2) [OF s] par D new])
  let ?t = "put_server v s"
  have others: "docs M v (user_key u x) = docs M (server s) (user_key u x)" if "x \<noteq> ?k" "x \<noteq> ?q" for x
    unfolding made(4) using that by (simp add: user_key_def)
  have known: "meta_view M v (user_key u x) = None \<longleftrightarrow> meta_view M (server s) (user_key u x) = None" if "x \<noteq> ?k" for x
  proof -
    have "user_key u x \<in> dom (meta_view M v) \<longleftrightarrow> user_key u x \<in> dom (meta_view M (server s))"
      unfolding made(5) using that by (simp add: user_key_def)
    then show ?thesis unfolding domIff by blast
  qed
  show thesis
  proof (rule that [OF made(1)])
    show "can_send C X pk M addr u view ?t" using s made(2,3) by (simp add: can_send_def)
    show "sends view M u vs {n} s ?t"
      unfolding sends_def
    proof (intro conjI allI impI)
      show "\<exists>c d w. ?t = s\<lparr>cache_instance := c, db := d, web := w\<rparr>"
        by (intro exI [of _ "cache_instance s"] exI [of _ "db s"] exI [of _ "web ?t"]) simp
      fix x assume "\<forall>m \<in> {n}. \<not> at_or_below (key_at (vs @ [m])) x"
      then have x: "x \<noteq> ?k" by (auto simp: at_or_below_def)
      show "docs M (server ?t) (user_key u x) = docs M (server s) (user_key u x)" if "x \<noteq> ?q"
        using others [OF x that] by simp
      show "meta_view M (server ?t) (user_key u x) = None \<longleftrightarrow> meta_view M (server s) (user_key u x) = None"
        using known [OF x] by simp
    qed (use made(3) in \<open>simp_all add: db_view_def\<close>)
    show "listed_as M u vs (web ?t) (dm\<lparr>directories := directories dm @ [?k]\<rparr>)"
      using same_lists_dir [OF D(2), of ?k] made(4) by (simp add: listed_as_def)
    show "listed_as M u (vs @ [n]) (web ?t) (Directory_Metadata ?k)"
      using same_lists_new [of ?k] made(4) kq by (simp add: listed_as_def user_key_def)
    show "unsent M u ((vs @ [n]) @ [m]) (web ?t)" for m
      unfolding unsent_def
    proof (intro allI impI)
      fix x assume "at_or_below (key_at ((vs @ [n]) @ [m])) x"
      from at_or_below_entry [OF this] have x: "x \<noteq> ?k" "at_or_below ?k x" by blast+
      with place(1) have "meta_view M (server s) (user_key u x) = None" "\<forall>es. binding (web s) es (user_key u x) = None"
        by (auto simp: unsent_def)
      then show "meta_view M (meta_state (web ?t)) (user_key u x) = None \<and> (\<forall>es. binding (web ?t) es (user_key u x) = None)"
        using known [OF x(1)] by simp
    qed
  qed
qed

text \<open>Sending what is below a directory leaves its document on record, and the listing of its parent.\<close>

lemma sends_listing:
  assumes "sends view M u ws N s t"
  shows "db_docs C view t (key_at ws) = db_docs C view s (key_at ws)"
proof -
  have "db_view view t (key_at ws) = db_view view s (key_at ws)"
    using assms at_or_below_entry [of ws _ "key_at ws"] unfolding sends_def by blast
  then show ?thesis by (simp add: db_docs_view)
qed

lemma sends_listed:
  assumes "sends view M u (vs @ [n]) N s t" and "listed_as M u vs (web s) dm"
  shows "listed_as M u vs (web t) dm"
proof -
  have "key_at vs \<noteq> key_at (vs @ [n])" by (simp add: key_at_entry)
  moreover have "\<not> at_or_below (key_at ((vs @ [n]) @ [m])) (key_at vs)" for m
    using at_or_below_entry [of "vs @ [n]" m "key_at vs"] at_or_below_entry [of vs n "key_at vs"] by blast
  ultimately show ?thesis using assms unfolding listed_as_def sends_def by simp
qed

lemma directory_sent:
  assumes C: "meta_service C M addr" and B: "block_service C X pk"
  shows "folder_named F \<Longrightarrow> list_all name_ok (vs @ [n]) \<Longrightarrow> height F \<le> k \<Longrightarrow> can_send C X pk M addr u view s \<Longrightarrow>
    todo C M view u s (vs @ [n]) F \<Longrightarrow> unsent M u (vs @ [n]) (web s) \<Longrightarrow> listed_as M u vs (web s) dm \<Longrightarrow>
    \<exists>t. sendDirRecursively k (Suc m) C (key_at (vs @ [n])) s = Ret () t \<and> can_send C X pk M addr u view t \<and>
      sends view M u vs {n} s t \<and>
      listed_as M u vs (web t) (dm\<lparr>directories := directories dm @ [key_at (vs @ [n])]\<rparr>) \<and>
      folder_sent C M view u t (vs @ [n]) F"
proof (induction F arbitrary: vs n k s dm rule: folder_induct)
  case (Folder ts ds)
  let ?ws = "vs @ [n]" and ?F = "Folder ts ds"
  let ?key = "key_at ?ws" and ?L = "listing_of ?ws ?F"
  note s = Folder.prems(4) and ws = Folder.prems(2)
  obtain k' where k: "k = Suc k'" "height ?F \<le> Suc k'" using Folder.prems(3) by (cases k) auto
  obtain j v where made: "createDir C ?key s = Ret j (put_server v s)"
    "can_send C X pk M addr u view (put_server v s)" "sends view M u vs {n} s (put_server v s)"
    "listed_as M u vs (web (put_server v s)) (dm\<lparr>directories := directories dm @ [?key]\<rparr>)"
    "listed_as M u ?ws (web (put_server v s)) (Directory_Metadata ?key)"
    "\<And>m. unsent M u (?ws @ [m]) (web (put_server v s))"
    by (rule directory_told [OF C s ws Folder.prems(6,7)]) (rule that)
  let ?s1 = "put_server v s"
  have "agrees view ?ws s ?s1" by (simp add: agrees_def db_view_def)
  then have todo1: "todo C M view u ?s1 ?ws ?F"
    by (rule agrees_todo [OF _ can_sendD(4) [OF s] ws Folder.prems(1) sends_fields(6) [OF made(3)] Folder.prems(5)])
  then have load: "dir_load C (Directory_Metadata ?key) ?s1 = Ret (Some ?L) ?s1"
    by (intro dir_load_Some [OF can_sendD(3) [OF made(2)]]) (simp add: Directory_Metadata_def listing_of_def)
  have sub: "\<exists>t. sendDirRecursively k' (Suc m) C (key_at (?ws @ [fst d])) s = Ret () t \<and> can_send C X pk M addr u view t \<and>
        sends view M u ?ws {fst d} s t \<and>
        listed_as M u ?ws (web t) (dm\<lparr>directories := directories dm @ [key_at (?ws @ [fst d])]\<rparr>) \<and>
        folder_sent C M view u t (?ws @ [fst d]) (snd d)"
    if "d \<in> set ds" "can_send C X pk M addr u view s" "todo C M view u s (?ws @ [fst d]) (snd d)"
      "unsent M u (?ws @ [fst d]) (web s)" "listed_as M u ?ws (web s) dm" for d s dm
  proof -
    have m: "(fst d, snd d) \<in> set ds" using that(1) by simp
    show ?thesis
      by (rule Folder.IH [OF m _ _ _ that(2-5)])
        (use Folder.prems(1) ws that(1) height_sub [OF m, of ts] k(2) in \<open>auto simp: list_all_iff\<close>)
  qed
  obtain s2 t where t: "for_each (files ?L) (send_file (Suc m) C) ?s1 = Ret () s2"
    "for_each (directories ?L) (sendDirRecursively k' (Suc m) C) s2 = Ret () t"
    "can_send C X pk M addr u view t" "sends view M u ?ws (set (names_in ?F)) ?s1 t"
    "listed_as M u ?ws (web t) ?L"
    "\<forall>x \<in> set ts. text_sent C M view u t (key_at (?ws @ [fst x])) (snd x)"
    "\<forall>d \<in> set ds. folder_sent C M view u t (?ws @ [fst d]) (snd d)"
    by (rule contents_sent [OF C B Folder.prems(1) ws made(2) todo1 made(6,5) sub, where m = m])
  have run: "sendDirRecursively k (Suc m) C ?key s = Ret () t"
    using made(1) load t(1,2) by (simp add: k(1))
  have names: "\<forall>m \<in> set (names_in ?F). name_ok m" using Folder.prems(1) by (auto simp: names_in_def list_all_iff)
  have "db_docs C view t ?key = Some (dir_json ?L)" unfolding sends_listing [OF t(4)] using todo1 by simp
  moreover have "dir_at (fs t) (g_basePath t) ?ws" using todo1 sends_fields(1,5) [OF t(4)] by simp
  ultimately have "folder_sent C M view u t ?ws ?F"
    using t(5-7) by (auto simp: folder_sent_def text_sent_def listed_as_def)
  moreover have "sends view M u vs {n} s t"
    using sends_trans [OF made(3) sends_up [OF t(4)]] by simp
  ultimately show ?case using run t(3) sends_listed [OF t(4) made(4)] by blast
qed

section \<open>A first device\<close>

text \<open>
  The directory holds a tree: its iterators give the names of the text files and directories in the
  order of the tree, and the files have the texts.  They will be stored as version 1.
\<close>

definition text_to_send :: "(cluster, 'z) meta_ext_scheme \<Rightarrow> string \<Rightarrow> (services, 'd) client \<Rightarrow>
    string \<Rightarrow> string \<times> string \<Rightarrow> bool" where
  "text_to_send M u s k = (\<lambda>(ver, txt). ver = to_string 1 \<and> txt \<noteq> DELETE_VALUE \<and>
     fits k (endpoints_for M (web s) u k) \<and> local_text s k = txt)"

fun to_send :: "(services, 'd, 'y) client_ext_scheme \<Rightarrow> (cluster, 'z) meta_ext_scheme \<Rightarrow> string \<Rightarrow>
    (services, 'd) client \<Rightarrow> string list \<Rightarrow> folder \<Rightarrow> bool" where
  "to_send C M u s ws (Folder ts ds) \<longleftrightarrow> dir_at (fs s) (g_basePath s) ws \<and>
     filter (\<lambda>n. text_at (fs s) (g_basePath s) (ws @ [n])) (names_at C (fs s) (g_basePath s) ws) = map fst ts \<and>
     filter (\<lambda>n. dir_at (fs s) (g_basePath s) (ws @ [n])) (names_at C (fs s) (g_basePath s) ws) = map fst ds \<and>
     (\<forall>t \<in> set ts. text_to_send M u s (key_at (ws @ [fst t])) (snd t)) \<and>
     (\<forall>d \<in> set ds. to_send C M u s (ws @ [fst d]) (snd d))"

text \<open>Nothing is on record, and the services have nothing of the user but an empty base directory.\<close>

definition first_device :: "(services, 'd, 'y) client_ext_scheme \<Rightarrow> (cluster, 'z) meta_ext_scheme \<Rightarrow>
    ('d \<Rightarrow> string \<rightharpoonup> string) \<Rightarrow> string \<Rightarrow> (services, 'd) client \<Rightarrow> folder \<Rightarrow> bool" where
  "first_device C M view u s F \<longleftrightarrow> folder_ok C (fs s) (g_basePath s) \<and> db_view view s = Map.empty \<and>
     listed_as M u [] (web s) (Directory_Metadata ''dropbox'') \<and>
     (\<forall>n \<in> set (names_in F). unsent M u [n] (web s)) \<and> to_send C M u s [] F"

text \<open>What the first synchronisation leaves is what there is to send.\<close>

lemma mirrored_todo:
  assumes m: "mirrored C (fs s) (g_basePath s) Map.empty (db_view view t) []" and cd: "codec_total C"
    and t: "t = s\<lparr>db := e\<rparr>"
  shows "folder_named F \<Longrightarrow> list_all name_ok ws \<Longrightarrow> to_send C M u s ws F \<Longrightarrow> todo C M view u t ws F"
proof (induction F arbitrary: ws rule: folder_induct)
  case (Folder ts ds)
  let ?f = "fs s" and ?b = "g_basePath s"
  note h = Folder.prems(3)
  from h have texts_at: "texts_in C ?f ?b ws (names_at C ?f ?b ws) = map (\<lambda>x. key_at (ws @ [fst x])) ts"
    and dirs_at: "dirs_in C ?f ?b ws (names_at C ?f ?b ws) = map (\<lambda>d. key_at (ws @ [fst d])) ds"
    by (simp_all add: texts_in_def dirs_in_def)
  have docs_t: "db_docs C view t k = json_parse C x" if "db_view view t k = Some x" for k x
    using that by (simp add: db_docs_view)
  note mir = m [unfolded mirrored_def append_Nil, rule_format]
  have "db_view view t (key_at ws) = Some (text_of C (dir_doc C ?f ?b ws))"
    using mir [OF Folder.prems(2)] h by (simp add: dir_mirrored_def)
  from docs_t [OF this] have doc: "db_docs C view t (key_at ws) = Some (dir_json (listing_of ws (Folder ts ds)))"
    using codec_total_parse [OF cd] by (simp add: dir_doc_def texts_at dirs_at listing_of_def)
  have "text_todo C M view u t (key_at (ws @ [fst x])) (snd x)" if "x \<in> set ts" for x
  proof -
    have n: "list_all name_ok (ws @ [fst x])" using Folder.prems(1,2) that by (auto simp: list_all_iff)
    have "fst x \<in> set (filter (\<lambda>n. text_at ?f ?b (ws @ [n])) (names_at C ?f ?b ws))" using h that by simp
    then have "text_at ?f ?b (ws @ [fst x])" by simp
    then have "db_view view t (key_at (ws @ [fst x])) = Some (text_of C (file_json (File_Metadata (key_at (ws @ [fst x])))))"
      using mir [OF n] by (simp add: file_mirrored_def)
    from docs_t [OF this] show ?thesis
      using h that codec_total_parse [OF cd] by (auto simp: text_to_send_def text_todo_def t)
  qed
  moreover have "todo C M view u t (ws @ [fst d]) (snd d)" if "d \<in> set ds" for d
  proof -
    have "(fst d, snd d) \<in> set ds" using that by simp
    then show ?thesis by (rule Folder.IH) (use Folder.prems that in \<open>auto simp: list_all_iff\<close>)
  qed
  ultimately show ?case using doc h t by simp
qed

text \<open>C3: When a user starts the client on a first device, with texts and directories in the monitored
  directory, nothing on record and only the empty base directory on the service, the three
  synchronisations at start-up end, leave the directory as it is, and send all of it: the metadata
  server lists every directory with its entries, the storage servers it names for a text file hold the
  text as version 1, and the record has every directory with its listing and every text with hash and
  version.  A new device that is then started with an empty directory gets every text file, and every
  directory with its listing.  No text is the marker of a deletion, and the tokens verify throughout.\<close>

theorem first_device_reaches_new_device:
  assumes C: "meta_service C M addr" and B: "block_service C X pk"
    and s: "can_send C X pk M addr u view s" "first_device C M view u s F"
    and F: "folder_named F" "height F \<le> k" "folder_fits (fs s) D N" "D < k" "N < n"
  shows "\<exists>t. seq (localSync k n C) (seq (RemoteToLocal k n C) (localToRemote k n C)) s = Ret () t \<and> fs t = fs s \<and>
    served C M (web t) u [] F \<and> copied C view t [] F \<and> can_send C X pk M addr u view t \<and>
    init (server t) = init (server s) \<and>
    (\<forall>s'. can_fetch C X pk M addr u view s' \<and> new_device C view s' \<and> web s' = web t \<longrightarrow>
       (\<exists>t'. seq (localSync k n C) (seq (RemoteToLocal k n C) (localToRemote k n C)) s' = Ret () t' \<and> web t' = web t \<and>
          (\<forall>x \<in> set (texts F). text_copied C view t' (key_at [fst x]) (snd x)) \<and>
          (\<forall>d \<in> set (folders F). copied C view t' [fst d] (snd d))))"
proof -
  obtain ts ds where Fd: "F = Folder ts ds" by (cases F)
  obtain k' where k: "k = Suc k'" using F(2) by (cases k) (auto simp: Fd)
  obtain m where m: "n = Suc m" using F(5) by (cases n) auto
  have ok: "db_ok C view s" by (rule can_sendD(3) [OF s(1)])
  then have cd: "codec_total C" by (simp add: db_ok_def)
  have fresh: "db_view view s = Map.empty" and tree: "folder_ok C (fs s) (g_basePath s)"
    using s(2) by (simp_all add: first_device_def)
  have "record_ok C N (db_view view s)" by (simp add: fresh record_ok_def)
  from localSync_run [OF ok this tree F(3-5)] obtain e where
    e: "localSync k n C s = Ret () (s\<lparr>db := Some e\<rparr>)" "mirrored C (fs s) (g_basePath s) Map.empty (view e) []"
    unfolding fresh by blast
  let ?s1 = "s\<lparr>db := Some e\<rparr>" and ?L = "listing_of [] F"
  have s1: "can_send C X pk M addr u view ?s1" using s(1) by (simp add: can_send_def db_ok_def)
  have todo: "todo C M view u ?s1 [] (Folder ts ds)"
    by (rule mirrored_todo [OF _ cd refl]) (use e(2) F(1) s(2) in \<open>simp_all add: db_view_def Fd first_device_def\<close>)
  have root: "listed_as M u [] (web ?s1) (Directory_Metadata (key_at []))" using s(2) by (simp add: first_device_def)
  then obtain D where D: "docs M (server s) (user_key u ''dropbox'') = Some D" "same_lists (Directory_Metadata ''dropbox'') D"
    by (auto simp: listed_as_def)
  have lf: "lists_field ''files'' D" using D(2) by (simp add: same_lists_def)
  have "docs M (server ?s1) (user_key u ''dropbox'') = Some D" using D(1) by simp
  note ask = listing_asked [OF C can_sendD(1,2) [OF s1] this lf]
  have load: "dir_load C (Directory_Metadata ''dropbox'') ?s1 = Ret (Some ?L) ?s1"
    by (rule dir_load_Some [OF can_sendD(3) [OF s1]]) (use todo in \<open>simp add: Directory_Metadata_def Fd\<close>)
  have empty: "files (Directory_Metadata ''dropbox'') = []" "directories (Directory_Metadata ''dropbox'') = []"
    by (simp_all add: Directory_Metadata_def)
  have key: "base_key b = ''dropbox''" for b by (simp add: base_key_def buildKey_base)
  have down: "RemoteToLocal k n C ?s1 = Ret () ?s1"
    using ask load by (simp add: k RemoteToLocal_def key empty same_lists_loops [OF D(2)])
  have sub: "\<exists>t. sendDirRecursively k' (Suc m) C (key_at ([] @ [fst d])) s = Ret () t \<and> can_send C X pk M addr u view t \<and>
        sends view M u [] {fst d} s t \<and>
        listed_as M u [] (web t) (dm\<lparr>directories := directories dm @ [key_at ([] @ [fst d])]\<rparr>) \<and>
        folder_sent C M view u t ([] @ [fst d]) (snd d)"
    if "d \<in> set ds" "can_send C X pk M addr u view s" "todo C M view u s ([] @ [fst d]) (snd d)"
      "unsent M u ([] @ [fst d]) (web s)" "listed_as M u [] (web s) dm" for d s dm
  proof -
    have "(fst d, snd d) \<in> set ds" using that(1) by simp
    note h = height_sub [OF this, of ts]
    show ?thesis
      by (rule directory_sent [OF C B _ _ _ that(2-5)])
        (use F(1,2) that(1) h in \<open>auto simp: Fd k list_all_iff\<close>)
  qed
  have Fn: "folder_named (Folder ts ds)" "list_all name_ok []" using F(1) by (simp_all add: Fd)
  have un: "unsent M u ([] @ [q]) (web ?s1)" if "q \<in> set (names_in (Folder ts ds))" for q
    using s(2) that by (simp add: first_device_def Fd)
  obtain s2 t where t: "for_each (files ?L) (send_file (Suc m) C) ?s1 = Ret () s2"
    "for_each (directories ?L) (sendDirRecursively k' (Suc m) C) s2 = Ret () t"
    "can_send C X pk M addr u view t" "sends view M u [] (set (names_in F)) ?s1 t"
    "listed_as M u [] (web t) ?L"
    "\<forall>x \<in> set ts. text_sent C M view u t (key_at ([] @ [fst x])) (snd x)"
    "\<forall>d \<in> set ds. folder_sent C M view u t ([] @ [fst d]) (snd d)"
    unfolding Fd by (rule contents_sent [OF C B Fn s1 todo un root sub, where m = m])
  have up: "localToRemote k n C ?s1 = Ret () t"
    using ask load t(1,2) by (simp add: k m localToRemote_def key empty same_lists_loops [OF D(2)])
  have "db_docs C view t (key_at []) = Some (dir_json ?L)" unfolding sends_listing [OF t(4)] using todo by (simp add: Fd)
  moreover have "dir_at (fs t) (g_basePath t) []" using todo sends_fields(1,5) [OF t(4)] by simp
  ultimately have "copied C view t [] F" "served C M (web t) u [] F"
    using t(5-7) by (auto simp: Fd folder_sent_def text_sent_def listed_as_def)
  moreover have "fs t = fs s" "init (server t) = init (server s)" using sends_fields(1,6) [OF t(4)] by simp_all
  moreover have "\<exists>t'. seq (localSync k n C) (seq (RemoteToLocal k n C) (localToRemote k n C)) s' = Ret () t' \<and> web t' = web t \<and>
      (\<forall>x \<in> set (texts F). text_copied C view t' (key_at [fst x]) (snd x)) \<and>
      (\<forall>d \<in> set (folders F). copied C view t' [fst d] (snd d))"
    if s': "can_fetch C X pk M addr u view s'" "new_device C view s'" "web s' = web t" for s'
  proof -
    have "served C M (web s') u [] F" using s'(3) \<open>served C M (web t) u [] F\<close> by simp
    from new_device_fetched [OF C B s'(1,2) F(1) this F(2), where n = n] s'(3) show ?thesis by metis
  qed
  ultimately show ?thesis
    using e(1) down up t(3) by (intro exI [of _ t]) simp
qed

section \<open>Witness\<close>

text \<open>Ann's first device: a text file, and a directory with another one.\<close>

definition first_folder :: folder where
  "first_folder = Folder [(''a.txt'', to_string 1, ''hi'')] [(''d'', Folder [(''b.txt'', to_string 1, ''ho'')] [])]"

definition first_tree :: filesystem where
  "first_tree = fmap_of_list [((True, [''h'']), Dir), ((True, [''h'', ''a.txt'']), File ''hi''),
     ((True, [''h'', ''d'']), Dir), ((True, [''h'', ''d'', ''b.txt'']), File ''ho'')]"

definition first_server :: "cluster mstate" where
  "first_server = demo_state [''ann:dropbox'' \<mapsto> JStr (enc (demo_dir [] []))]"

definition first_client :: "(services, (string, string) fmap) client" where
  "first_client = (toy_client_at (ann_world\<lparr>meta_state := first_server\<rparr>) fmempty)\<lparr>token := ''a.b.c'', fs := first_tree\<rparr>"

lemma first_client_simps [simp]:
  "web first_client = ann_world\<lparr>meta_state := first_server\<rparr>" "token first_client = ''a.b.c''"
  "meta_lb first_client = ([], 0)" "g_basePath first_client = ''/h/''" "db first_client = Some fmempty"
  "fs first_client = first_tree" "cache_instance first_client = Some (new_cache 60000 1000)"
  by (simp_all add: first_client_def toy_client_def)

lemma first_view: "meta_view brace_meta first_server = [''ann:dropbox'' \<mapsto> enc (demo_dir [] [])]"
  by (rule ext) (simp add: first_server_def meta_view_def demo_state_def group_of_def stored_def leader_of_def
      is_leader_def demo_node_def del: enc.simps)

lemma first_ready: "ready brace_meta first_server"
  using brace_backed
  by (simp add: ready_def store_ok_def first_server_def demo_state_def group_ok_def leader_of_def is_leader_def
      demo_node_def leads_to_def)

lemma first_group: "group_of brace_meta (blockserver_lists (init first_server)) k = [''b1'']"
  by (simp add: group_of_def first_server_def demo_state_def)

lemma ann_blocks: "group_ok ann_world [''b1'']" "quorum ann_world" "binding ann_world es k = None"
  by (auto simp: ann_world_def group_ok_def leader_of_def is_leader_def leads_to_def binding_def
      split: option.splits Option.bind_splits if_splits)

lemma first_can_send: "can_send brace_client brace_blocks ''pk'' brace_meta ([], 0) ''ann'' fmlookup first_client"
proof -
  have "db_ok brace_client fmlookup first_client"
    using toy_rocks_ok brace_codec_total(2)
    by (simp add: db_ok_def rocks_ok_def brace_client_def first_client_def toy_client_def)
  then show ?thesis
    using first_ready ann_blocks(1,2) new_cache_explained
    by (simp add: can_send_def verify_jwt_def brace_blocks_def base_ok_def first_group)
qed

lemma first_tree_kinds:
  "text_at first_tree ''/h/'' [''a.txt'']" "\<not> dir_at first_tree ''/h/'' [''a.txt'']"
  "dir_at first_tree ''/h/'' [''d'']" "\<not> text_at first_tree ''/h/'' [''d'']" "dir_at first_tree ''/h/'' []"
  "text_at first_tree ''/h/'' [''d'', ''b.txt'']" "\<not> dir_at first_tree ''/h/'' [''d'', ''b.txt'']"
  by code_simp+

lemma first_tree_names:
  "names_at brace_client first_tree ''/h/'' [] = [''a.txt'', ''d'']"
  "names_at brace_client first_tree ''/h/'' [''d''] = [''b.txt'']"
proof -
  have "child_names first_tree ''/h/'' = [''a.txt'', ''d'']" "child_names first_tree ''/h/d'' = [''b.txt'']" by code_simp+
  then show "names_at brace_client first_tree ''/h/'' [] = [''a.txt'', ''d'']"
    "names_at brace_client first_tree ''/h/'' [''d''] = [''b.txt'']"
    by (simp_all add: names_at_def path_at_def brace_client_def toy_ext_def)
qed

lemma first_tree_ok: "folder_ok brace_client first_tree ''/h/''" "folder_fits first_tree 3 30"
proof -
  have "fs_ok first_tree" by code_simp
  moreover have "fBall (fmdom first_tree) (\<lambda>p. list_all name_ok (snd p))" by code_simp
  ultimately show "folder_ok brace_client first_tree ''/h/''"
    using first_tree_kinds(5) by (simp add: folder_ok_def base_ok_def brace_client_def toy_ext_def)
  show "folder_fits first_tree 3 30" by code_simp
qed

lemma first_texts:
  "local_text first_client ''dropbox/a.txt'' = ''hi''" "local_text first_client ''dropbox/d/b.txt'' = ''ho''"
  unfolding local_text_def first_client_simps by code_simp+

lemma first_to_send: "to_send brace_client brace_meta ''ann'' first_client [] first_folder"
proof -
  have "Cache.fits k [''b1'']" if "length k < 100" for k using that by (simp add: fits_def list_size_def)
  then have "text_to_send brace_meta ''ann'' first_client ''dropbox/a.txt'' (to_string 1, ''hi'')"
    "text_to_send brace_meta ''ann'' first_client ''dropbox/d/b.txt'' (to_string 1, ''ho'')"
    using first_texts by (simp_all add: text_to_send_def first_group DELETE_VALUE_def)
  then show ?thesis
    using first_tree_kinds first_tree_names by (simp add: first_folder_def key_at_def)
qed

lemma first_is_first: "first_device brace_client brace_meta fmlookup ''ann'' first_client first_folder"
proof -
  have "docs brace_meta first_server ''ann:dropbox'' = Some (demo_dir [] [])"
    using doc_of_text [OF brace_backed] by (simp add: docs_def first_view del: enc.simps)
  then have "listed_as brace_meta ''ann'' [] (web first_client) (Directory_Metadata ''dropbox'')"
    by (simp add: listed_as_def user_key_def same_lists_def Directory_Metadata_def)
  moreover have "unsent brace_meta ''ann'' [n] (web first_client)" for n
    using at_or_below_entry [of "[]" n] by (auto simp: unsent_def first_view user_key_def ann_blocks)
  ultimately show ?thesis
    using first_tree_ok(1) first_to_send by (simp add: first_device_def db_view_def fun_eq_iff)
qed

theorem first_device_reaches_new_device_witness:
  "\<exists>t t'. seq (localSync 4 31 brace_client) (seq (RemoteToLocal 4 31 brace_client) (localToRemote 4 31 brace_client)) first_client
      = Ret () t \<and>
    binding (web t) [''b1''] ''ann:dropbox/d/b.txt'' = Some (JStr (enc (file_doc (to_string 1) ''ho''))) \<and>
    seq (localSync 4 31 brace_client) (seq (RemoteToLocal 4 31 brace_client) (localToRemote 4 31 brace_client))
      (new_client\<lparr>web := web t\<rparr>) = Ret () t' \<and>
    local_text t' ''dropbox/a.txt'' = ''hi'' \<and> local_text t' ''dropbox/d/b.txt'' = ''ho''"
proof -
  have F: "folder_named first_folder" "height first_folder \<le> 4"
    by (simp_all add: first_folder_def name_ok_def text_name_def suffix_def)
  have fits: "folder_fits (fs first_client) 3 30" using first_tree_ok(2) by simp
  let ?boot = "seq (localSync 4 31 brace_client) (seq (RemoteToLocal 4 31 brace_client) (localToRemote 4 31 brace_client))"
  from first_device_reaches_new_device [OF brace_service brace_block_service first_can_send first_is_first F fits, of 31]
  obtain t where t: "?boot first_client = Ret () t" "served brace_client brace_meta (web t) ''ann'' [] first_folder"
    "can_send brace_client brace_blocks ''pk'' brace_meta ([], 0) ''ann'' fmlookup t"
    "init (server t) = init (server first_client)"
    and new: "\<forall>s'. can_fetch brace_client brace_blocks ''pk'' brace_meta ([], 0) ''ann'' fmlookup s' \<and>
       new_device brace_client fmlookup s' \<and> web s' = web t \<longrightarrow> (\<exists>t'. ?boot s' = Ret () t' \<and> web t' = web t \<and>
          (\<forall>x \<in> set (texts first_folder). text_copied brace_client fmlookup t' (key_at [fst x]) (snd x)) \<and>
          (\<forall>d \<in> set (folders first_folder). copied brace_client fmlookup t' [fst d] (snd d)))" by auto
  let ?s = "new_client\<lparr>web := web t\<rparr>"
  have "can_fetch brace_client brace_blocks ''pk'' brace_meta ([], 0) ''ann'' fmlookup ?s"
    using new_client_can_fetch can_sendD(2) [OF t(3)] new_cache_explained
    by (simp add: can_fetch_def logged_in_def verify_jwt_def brace_blocks_def db_ok_def)
  moreover have "new_device brace_client fmlookup ?s"
    using new_client_new by (simp add: new_device_def db_view_def)
  ultimately obtain t' where t': "?boot ?s = Ret () t'"
    "\<forall>x \<in> set (texts first_folder). text_copied brace_client fmlookup t' (key_at [fst x]) (snd x)"
    "\<forall>d \<in> set (folders first_folder). copied brace_client fmlookup t' [fst d] (snd d)" using new by fastforce
  have "binding (web t) [''b1''] ''ann:dropbox/d/b.txt'' = Some (JStr (enc (file_doc (to_string 1) ''ho'')))"
    using t(2,4) first_group by (simp add: first_folder_def text_served_def key_at_def user_key_def)
  with t(1) t' show ?thesis
    by (intro exI [of _ t] exI [of _ t']) (simp add: first_folder_def text_copied_def key_at_def)
qed

end
