(* ===== verification/Spec2Isabelle.thy ===== *)
theory Spec2Isabelle
  imports Metaserver_Props Metaserver_Tree Deletion_Manager Cache_Contract Metadata_Props Client_Main
    Notification_Server Client_Events Signup_Props Raft_Put End_To_End Conflict_Props Send_Props
begin

text \<open>
  A verification library for the distributed storage service under \<open>src/CODE\<close>.

  \<^bold>\<open>The program.\<close>  A client keeps a directory of text files in step with the service and,
  through it, with the user's other devices.  A user signs up (\<open>signupserver\<close>) and logs in
  (\<open>authentication_server\<close>), both over Redis, and gets a token.  The metadata server
  (\<open>metaserver\<close>) checks the token and keeps the user's namespace, one JSON document per file and
  directory under the key \<open>user:path\<close>, in groups of replicated storage nodes
  (\<open>meta_blockserver\<close>), which it reaches through the key-value library
  (\<open>utils/Distributed_KV/client_lib/kv.hpp\<close>).  It tells clients which group of storage servers
  (\<open>data_blockserver\<close>) holds the text of a file; the client reads and writes texts there with
  version numbers.  A storage server confirms a write to the metadata server, which has the notification
  servers (\<open>notification_server\<close>) told of every change; they answer the waiting polls of the
  user's devices.  In the client (\<open>client\<close>) a watcher turns inotify events into a queue that one
  thread works off; another works off the notifications; a record in RocksDB holds what has been
  synchronised, and at start-up record, directory and service are brought in step.

  \<^bold>\<open>How code becomes definitions.\<close>  A C++ function with effects is a program over an explicit
  state (\<open>Prelude\<close>): its outcome is a normal return, an exception, the end of the process,
  undefined behaviour or no return (\<open>Ret\<close>, \<open>Throw\<close>, \<open>Exit\<close>, \<open>Undef\<close>, \<open>Diverge\<close>), each
  with the state where there is one.  \<open>bind\<close>, \<open>seq\<close>, \<open>ignore\<close>, \<open>try_catch\<close> and
  \<open>for_each\<close> stand for sequencing, unused results, catch blocks and range loops.  Logging is left
  out, except where printing a value for the log can throw.  Strings are lists of bytes, maps are
  partial functions or finite maps, machine integers are words or integers with their bounds written out.
  The Python servers are functions whose result \<open>None\<close> is an exception; what they have changed before it is kept.

  \<^bold>\<open>Theories and sources.\<close>
  \<^item> \<open>Prelude\<close>: outcomes, programs, and two collections of rules, that a program preserves
    (\<open>keeps\<close>) or answers within (\<open>answers\<close>) a relation on states.  \<open>Cxx_Strings\<close>: the
    operations of \<open>std::string\<close> and \<open>std::filesystem::path\<close> that the code uses.  \<open>Json\<close>: JSON values and
    the operations of \<open>nlohmann::json\<close> on them.
  \<^item> \<open>Kv_Client\<close> (\<open>client/kv/kv.cpp\<close>), \<open>Kv_Lib\<close> (the servers' copy with its own operations) and
    \<open>Kv_Node\<close> (\<open>meta_blockserver/server.py\<close>, and \<open>handle_get\<close>, \<open>handle_put\<close> of \<open>node.py\<close>): one
    HTTP request, following redirections to the leader, trying the servers of a group, and a storage node at the
    other end.  The record \<open>cluster\<close> holds the nodes of all groups and whether majorities confirm.
  \<^item> \<open>Raft_Node\<close> (the rest of \<open>node.py\<close>): the record \<open>raft\<close> is one server, \<open>system\<close> all
    servers with the threads that run and the messages under way; \<open>happens\<close> does one step of one thread.
  \<^item> \<open>Authentication\<close>, \<open>Database_Handler\<close>, \<open>Metaserver\<close>, \<open>Initiation\<close>,
    \<open>Deletion_Manager\<close>: the metadata server, with its state \<open>mstate\<close> (configuration, queue of
    deletions, messages for the notification servers, and the storage nodes behind it).  Each handler of
    \<open>metadata_server_L1.cpp\<close> is one definition; \<open>serve\<close> is the routing table.
  \<^item> \<open>Auth_Server\<close>: the authentication and the sign-up server, over Redis as a parameter.
  \<^item> \<open>Block_Node\<close>: \<open>value_get\<close> and \<open>value_put\<close> of \<open>data_blockserver/server.py\<close>; the record
    \<open>blocks\<close> adds the confirmations that were sent to the storage nodes.
  \<^item> \<open>Notification_Server\<close>: sessions with their timers and responses, subscriptions, and the HTTP
    listener's handling of a broadcast; \<open>ns_step\<close> is the relation of its atomic steps.
  \<^item> \<open>Filesystem\<close>, \<open>Client_State\<close>, \<open>Fs_Utils\<close>, \<open>Metadata\<close>, \<open>Login\<close>, \<open>Cache\<close>,
    \<open>Server_Utils\<close>, \<open>Watcher\<close>, \<open>Process_Local\<close>, \<open>Process_Remote\<close>, \<open>Boot\<close>, \<open>Client_Main\<close>: the
    client, one theory per module of \<open>src/CODE/src/client\<close>.  The record \<open>client\<close> gathers the globals
    of the modules, the directory, the database and the world the requests go to.

  \<^bold>\<open>What is shown.\<close>
  \<^item> The metadata server: \<open>Metaserver_Spec\<close> sees the store as a map from keys to documents and
    says what each handler does to it; \<open>Metaserver_Props\<close> has the refinements of creating and deleting,
    access control and what a client sees next; \<open>Metaserver_Tenancy\<close> that no request leaves its user's keys;
    \<open>Metaserver_Tree\<close> the invariant of the namespace and what deletion leaves behind;
    \<open>Deletion_Manager\<close> that deletions happen once and in order, and that the queue drains.
  \<^item> The replicated store: \<open>Raft_Props\<close> has the invariant of every server and when a term has one
    winner, \<open>Raft_Put\<close> that a write can reach everyone, which does what \<open>Kv_Node\<close> does, and how an
    acknowledged write is lost.
  \<^item> Users: \<open>Signup_Props\<close>, from signing up to a token the metadata server accepts.
  \<^item> The client's components: \<open>Cache_Contract\<close> (two locales for users of a cache, the second with
    expiry), \<open>Metadata_Props\<close>, \<open>Server_Utils_Props\<close> (endpoints, uploads, fetches, merges),
    \<open>Watcher_Props\<close> (a locale for queues without duplicates), \<open>Notification_Props\<close>, and \<open>Boot_Tree\<close> with
    \<open>Boot_Props\<close>: the synchronisation at start-up ends with the record a mirror of the directory.
  \<^item> Components together: \<open>Block_Props\<close> runs the client's library against the storage servers,
    \<open>Client_Meta\<close> the client's events against the metadata server's handlers (the record and the namespace stay
    in step), \<open>New_File\<close> the event of a new file against both services, \<open>Client_Events\<close> follows events and
    notifications, \<open>Known_Files\<close> sees a file that both services know from a device, \<open>End_To_End\<close> takes a file
    from one device, over storage, metadata and notification servers, to another device, which has no copy or one
    that was not changed there, and \<open>Conflict_Props\<close> follows a conflict that cannot be merged to its end.
  \<^item> Whole directories: \<open>Fetch_Tree\<close> sees a user's namespace as a tree, on the services (\<open>served\<close>) and on a
    device (\<open>copied\<close>), and says what a step of a device touches, with a locale for loops over the entries of
    a directory, whatever they do with one; \<open>Fetch_Props\<close> shows that a new device
    fetches the whole tree at start-up.  \<open>Send_Tree\<close> and \<open>Send_Props\<close> are the way up: a first device sends its
    whole directory, and every new device then gets it.  The listing of the base directory stays empty on a
    device that fetched it, the deeper ones do not.
  \<^item> \<open>Toy_Codec\<close>, \<open>Client_Demo\<close>, \<open>Metaserver_Demo\<close>: small concrete systems for the witnesses.

  \<^bold>\<open>Libraries.\<close>  What is not under \<open>src\<close>, or is vendored there, is a record of functions the
  definitions take: the JSON parser and printer, libcurl and the HTTP library, Redis, RocksDB, libgit2's merge, the
  token library, hashing, the order in which servers or directory entries are visited, clocks.  Theorems name
  the documented behaviour they use: printed values parse back (\<open>codec_ok\<close>, \<open>codec_total\<close>), a
  database returns what was put and visits keys in order (\<open>rocks_ok\<close>), Redis sets and gets
  (\<open>redis_ok\<close>), a signed token verifies (\<open>jwt_pair\<close>), libcurl delivers requests to the modelled
  nodes (\<open>cluster_backed\<close>, \<open>block_service\<close>) and the HTTP library to the modelled server
  (\<open>meta_service\<close>), and libgit2 takes the changed side of a merge (\<open>takes_changed_side\<close>).  Each has an
  instance in a witness.  \<open>codec_total\<close> speaks of every value of the model's strings; nlohmann prints a string only
  when it is UTF-8, so the theorems that use it are about systems whose strings are UTF-8: \<open>Toy_Codec\<close> shows
  that a parser and printer which is right on such values has a total extension that agrees with it on them.

  \<^bold>\<open>Bounds.\<close>  Recursion of the code that is not structural takes fuel, whose end is
  \<open>Diverge\<close>, never a result.  Following redirections may truly run for ever and is a
  \<open>partial_function\<close>.  \<open>uploadFile\<close> and \<open>Conflict\<close> take a bound on the depth of
  their calls: one call is enough for an upload that is accepted, two for a conflict that merges
  or is kept as a copy.  Removing a directory from the record takes one more than its rank, and
  \<open>localSync\<close> more than the depth of the directory and the length of its keys
  (\<open>localSync_mirrors_directory\<close>).  The other two synchronisations take the height of the tree on the
  service or in the directory (\<open>height\<close>).  The worker of the deletion manager and the queues of events are worked off in as many steps as
  they have entries.

  \<^bold>\<open>Interleaving.\<close>  The notification server, the deletion manager and the storage nodes are step
  systems over their critical sections, and their theorems hold for every order of steps.  In the
  client each turn of a thread is one program; the two threads that work off events are not interleaved
  inside a turn.  In \<open>Raft_Node\<close> messages are delayed and lost at will; timeouts may happen at any
  moment, so nothing is said about how long an election takes.  The requests of the metadata server and of the client meet
  \<open>Kv_Node\<close>, one node per address whose majority confirms or not.

  \<^bold>\<open>Not modelled.\<close>  Vendored libraries; the test and demonstration clients; the copies of the
  key-value library and of \<open>node.py\<close> that only these use; the demonstration token servers under
  \<open>utils/authentication\<close>; the loggers; the configuration of nginx and the scripts that start
  and stop processes; accepting connections and reading and writing sockets; sleeping and waiting; what a storage server
  loses when it restarts (it keeps everything in memory); links and permissions in the file system; threads of
  the client's \<open>main\<close> after the start, beyond the turns of the components.

  \<^bold>\<open>Not shown.\<close>  The synchronisations with the service are modelled in full; what they leave is shown for a first
  device and for a new one, and not for a device that was started before and finds both sides changed (for a
  single file \<open>Known_Files\<close>, \<open>Conflict_Props\<close> and \<open>Block_Props\<close> have the cases of \<open>Conflict\<close>).  The sending of texts is shown for texts that
  fit the cache's bound for their endpoints, and for storage servers that answer.  Nothing is shown about
  directories that other devices create while a device runs.
\<close>

end
